(* ===== verification/Prelude.thy ===== *)
theory Prelude
  imports Main "HOL-Library.Word"
begin

text \<open>
  Shared vocabulary of the development: the fixed-width integer types of the C sources, a
  byte-addressed memory with the two block operations the sources use (\<open>memcpy\<close> into and out of
  memory), little-endian struct fields, and the generic lemmas on words, lists and modular
  indices that the component theories rest on.
\<close>

unbundle bit_operations_syntax

section \<open>Types\<close>

type_synonym u8 = "8 word"
type_synonym u16 = "16 word"
type_synonym u32 = "32 word"
type_synonym memory = "u32 \<Rightarrow> u8"

named_theorems mem_simps \<open>block reads and writes of memory\<close>
named_theorems wrap_simps \<open>modular indices as case distinctions\<close>

section \<open>Words and natural numbers\<close>

abbreviation (input) addr_space :: nat where
  "addr_space \<equiv> 2 ^ 32"

lemma unat_lt_space [simp]: "unat (a :: u32) < 4294967296"
  using unsigned_less [of a, where ?'a = nat] by simp

lemma unat_add_no_wrap:
  "unat (a :: u32) + unat b < 4294967296 \<Longrightarrow> unat (a + b) = unat a + unat b"
  by (simp add: unat_word_ariths)

lemma unat_sub_no_wrap: "unat b \<le> unat (a :: u32) \<Longrightarrow> unat (a - b) = unat a - unat b"
  by (simp add: unat_sub word_le_nat_alt)

lemma unat_of_nat_u32 [simp]: "n < 4294967296 \<Longrightarrow> unat (of_nat n :: u32) = n"
  by (simp add: unat_of_nat)

lemma unat_add_of_nat_no_wrap:
  "unat (a :: u32) + n < 4294967296 \<Longrightarrow> unat (a + of_nat n) = unat a + n"
  by (simp add: unat_word_ariths unat_of_nat)

lemma of_nat_unat_diff: "unat b \<le> unat (a :: u32) \<Longrightarrow> of_nat (unat a - unat b) = a - b"
  by (simp add: of_nat_diff)

lemma word_add_of_nat_cancel: "(a :: u32) + of_nat i - a = of_nat i"
  by simp

lemma unat_lt_u16 [simp]: "unat (a :: u16) < 65536"
  using unsigned_less [of a, where ?'a = nat] by simp

lemma unat_ucast_u16_u32 [simp]: "unat (ucast (a :: u16) :: u32) = unat a"
  by (simp add: unsigned_ucast_eq) (rule take_bit_nat_eq_self, rule less_trans [OF unat_lt_u16], simp)

lemma unat_ucast_u32_u16: "unat (a :: u32) < 65536 \<Longrightarrow> unat (ucast a :: u16) = unat a"
  by (simp add: unsigned_ucast_eq take_bit_nat_eq_self)

section \<open>Modular indices\<close>

lemma unat_eq_1: "unat (x :: u32) = 1 \<longleftrightarrow> x = 1" "unat (x :: u32) = Suc 0 \<longleftrightarrow> x = 1"
  using word_unat_eq_iff [of x 1] by simp_all

lemma unat_minus_1_u32 [simp]: "unat (- 1 :: u32) = 4294967295"
  by (simp add: unsigned_minus_1_eq_mask mask_eq_exp_minus_1)

lemma mod_wrap [wrap_simps]:
  "(r :: nat) < n \<Longrightarrow> k \<le> n \<Longrightarrow> (r + k) mod n = (if r + k < n then r + k else r + k - n)"
  by (auto simp: mod_if)

lemma sint_of_int_u32 [simp]:
  "- 2147483648 \<le> i \<Longrightarrow> i < 2147483648 \<Longrightarrow> sint (of_int i :: u32) = i"
  by (simp add: sint_sbintrunc' signed_take_bit_int_eq_self)

lemma sint_of_nat_u32 [simp]: "n < 2147483648 \<Longrightarrow> sint (of_nat n :: u32) = int n"
  using sint_of_int_u32 [of "int n"] by simp

text \<open>The offset from \<open>b + a\<close>, in terms of the offset from \<open>b\<close>.\<close>

lemma unat_shift:
  assumes "a < 4294967296"
  shows "unat (x - (b + of_nat a) :: u32) =
    (if a \<le> unat (x - b) then unat (x - b) - a else unat (x - b) + 4294967296 - a)"
proof -
  define d where "d = x - b"
  have eq: "x - (b + of_nat a) = d - of_nat a" by (simp add: d_def)
  show ?thesis
    unfolding eq d_def [symmetric] using assms by (simp add: unat_sub_if_size word_size)
qed

lemma unat_diff_less:
  assumes "unat a + n \<le> 4294967296"
  shows "unat (x - a :: u32) < n \<longleftrightarrow> unat a \<le> unat x \<and> unat x < unat a + n"
proof (cases "unat a \<le> unat x")
  case True
  then show ?thesis by (simp add: unat_sub_no_wrap less_diff_conv2 add.commute)
next
  case False
  with assms show ?thesis by (simp add: unat_sub_if_size word_size)
qed

lemma mod_step: "x mod m = 0 \<Longrightarrow> y mod m = 0 \<Longrightarrow> x < y \<Longrightarrow> x + m \<le> y" for x y m :: nat
  by (metis add_less_cancel_left dvd_imp_le less_imp_add_positive mod_eq_0_iff_dvd dvd_add_right_iff
      add_le_cancel_left)

lemma unat_next: "unat n < unat m \<Longrightarrow> unat (n + 1 :: u16) = Suc (unat n)" for m :: u16
  using unat_lt_u16 [of m] by (simp add: unat_word_ariths del: unat_lt_u16)

section \<open>Aligned addresses\<close>

lemma unat_take_bit_u32: "unat (take_bit k (x :: u32)) = unat x mod 2 ^ k"
  by (simp only: unsigned_take_bit_eq) (simp add: take_bit_eq_mod)

lemma unat_drop_bit_u32: "unat (drop_bit k (x :: u32)) = unat x div 2 ^ k"
  by (simp only: unsigned_drop_bit_eq) (simp add: drop_bit_eq_div take_bit_eq_mod)

lemma unat_and_not_mask: "unat ((x :: u32) AND NOT (mask k)) = unat x div 2 ^ k * 2 ^ k"
proof -
  have "x AND NOT (mask k) = push_bit k (drop_bit k x)"
    by (rule bit_word_eqI) (auto simp: bit_simps)
  also have "\<dots> = x - take_bit k x"
    using bits_ident [of k x] by (simp add: algebra_simps)
  finally have "unat (x AND NOT (mask k)) = unat x - unat x mod 2 ^ k"
    by (simp add: unat_sub_no_wrap unat_take_bit_u32)
  then show ?thesis by (simp add: minus_mod_eq_div_mult)
qed

lemma unat_align:
  "unat ((x :: u32) AND NOT 0xFF) = unat x div 256 * 256"
  "unat (x AND NOT 0xFFF) = unat x div 4096 * 4096"
  "unat (x AND NOT 0xFFFF) = unat x div 65536 * 65536"
  using unat_and_not_mask [of x 8] unat_and_not_mask [of x 12] unat_and_not_mask [of x 16]
  by (simp_all add: mask_eq_exp_minus_1)

lemmas unat_align_simps [simp] = unat_align [simplified]

lemma and_ff [simp]: "(x :: u8) AND 255 = x" "255 AND (x :: u8) = x"
proof -
  have "(255 :: u8) = - 1" by simp
  then show "x AND 255 = x" "255 AND x = x" by (simp_all only: and.right_neutral and.left_neutral)
qed

section \<open>Byte memory\<close>

definition mem_read :: "memory \<Rightarrow> u32 \<Rightarrow> nat \<Rightarrow> u8 list" where
  "mem_read m a n = map (\<lambda>i. m (a + of_nat i)) [0..<n]"

definition mem_write :: "memory \<Rightarrow> u32 \<Rightarrow> u8 list \<Rightarrow> memory" where
  "mem_write m a bs = (\<lambda>x. let i = unat (x - a) in if i < length bs then bs ! i else m x)"

lemma length_mem_read [simp]: "length (mem_read m a n) = n"
  by (simp add: mem_read_def)

lemma mem_read_0 [simp]: "mem_read m a 0 = []"
  by (simp add: mem_read_def)

lemma nth_mem_read [simp]: "i < n \<Longrightarrow> mem_read m a n ! i = m (a + of_nat i)"
  by (simp add: mem_read_def)

lemma mem_write_Nil [simp]: "mem_write m a [] = m"
  by (simp add: mem_write_def)

lemma mem_read_append:
  "mem_read m a (i + j) = mem_read m a i @ mem_read m (a + of_nat i) j"
  by (rule nth_equalityI) (auto simp: nth_append add.assoc simp flip: of_nat_add)

lemma take_mem_read [simp]: "take k (mem_read m a n) = mem_read m a (min k n)"
  by (rule nth_equalityI) auto

lemma drop_mem_read: "drop k (mem_read m a n) = mem_read m (a + of_nat k) (n - k)"
  by (rule nth_equalityI) (auto simp: algebra_simps)

lemma mem_write_outside [mem_simps]:
  "length bs \<le> unat (x - a) \<Longrightarrow> mem_write m a bs x = m x"
  by (simp add: mem_write_def)

lemma mem_write_inside [mem_simps]:
  "i < length bs \<Longrightarrow> i < 4294967296 \<Longrightarrow> mem_write m a bs (a + of_nat i) = bs ! i"
  by (simp add: mem_write_def)

lemma mem_read_write_same [mem_simps]:
  "length bs \<le> 4294967296 \<Longrightarrow> mem_read (mem_write m a bs) a (length bs) = bs"
  by (rule nth_equalityI) (auto simp: mem_write_inside)

text \<open>Address arithmetic of two blocks that do not wrap around the address space.\<close>

lemma disjoint_offset:
  assumes "unat a + n \<le> 4294967296" and "unat b + k \<le> 4294967296"
    and "unat a + n \<le> unat b \<or> unat b + k \<le> unat a" and "i < n"
  shows "k \<le> unat (a + of_nat i - (b :: u32))"
proof -
  have ai: "unat (a + of_nat i) = unat a + i"
    using assms(1,4) by (intro unat_add_of_nat_no_wrap) linarith
  show ?thesis
  proof (cases "unat b + k \<le> unat a")
    case True
    then have "unat (a + of_nat i - b) = unat a + i - unat b"
      using ai by (subst unat_sub_no_wrap) auto
    with True show ?thesis by simp
  next
    case False
    then have lt: "unat a + i < unat b"
      using assms(3,4) by linarith
    have "unat (a + of_nat i - b) = 4294967296 + unat (a + of_nat i) - unat b"
      using lt ai by (simp add: unat_sub_if_size word_size)
    with ai assms(2) lt show ?thesis by simp
  qed
qed

lemma mem_read_write_disjoint [mem_simps]:
  assumes "unat a + n \<le> 4294967296" and "unat b + length bs \<le> 4294967296"
    and "unat a + n \<le> unat b \<or> unat b + length bs \<le> unat a"
  shows "mem_read (mem_write m b bs) a n = mem_read m a n"
  by (rule nth_equalityI) (auto simp: mem_write_outside disjoint_offset [OF assms])

lemma mem_write_append:
  assumes "length bs + length cs \<le> 4294967296"
  shows "mem_write m a (bs @ cs) = mem_write (mem_write m a bs) (a + of_nat (length bs)) cs"
proof (rule ext)
  fix x :: u32
  let ?i = "unat (x - a)"
  let ?j = "unat (x - (a + of_nat (length bs)))"
  show "mem_write m a (bs @ cs) x = mem_write (mem_write m a bs) (a + of_nat (length bs)) cs x"
  proof (cases "length bs \<le> ?i")
    case True
    have lb: "length bs < 4294967296"
      using True unat_lt_space [of "x - a"] by linarith
    have "unat (x - a - of_nat (length bs)) = ?i - length bs"
      using True lb by (subst unat_sub_no_wrap) auto
    then have "?j = ?i - length bs"
      by (simp add: algebra_simps)
    with True show ?thesis
      by (auto simp: mem_write_def nth_append Let_def)
  next
    case False
    have x: "x = a + of_nat ?i" by simp
    have j: "length cs \<le> ?j"
    proof (cases "cs = []")
      case True
      then show ?thesis by simp
    next
      case False
      then have lb: "length bs < 4294967296"
        using assms by (cases cs) auto
      have "?j = unat (x - a - of_nat (length bs))"
        by (simp add: algebra_simps)
      also have "\<dots> = 4294967296 + ?i - length bs"
        using \<open>\<not> length bs \<le> ?i\<close> lb by (simp add: unat_sub_if_size word_size)
      finally show ?thesis using assms by linarith
    qed
    with False show ?thesis
      by (simp add: mem_write_def nth_append Let_def)
  qed
qed

section \<open>Byte lists\<close>

text \<open>Overwriting part of a caller's buffer, as \<open>memcpy(buf + i, src, n)\<close> does.\<close>

definition list_blit :: "'a list \<Rightarrow> nat \<Rightarrow> 'a list \<Rightarrow> 'a list" where
  "list_blit xs i ys = take i xs @ ys @ drop (i + length ys) xs"

lemma length_list_blit [simp]:
  "i + length ys \<le> length xs \<Longrightarrow> length (list_blit xs i ys) = length xs"
  by (simp add: list_blit_def)

lemma list_blit_Nil [simp]: "list_blit xs i [] = xs"
  by (simp add: list_blit_def)

lemma list_blit_append:
  "i + length ys + length zs \<le> length xs \<Longrightarrow>
    list_blit (list_blit xs i ys) (i + length ys) zs = list_blit xs i (ys @ zs)"
  by (cases ys) (auto simp: list_blit_def min_def ac_simps)

lemma take_list_blit_0: "take (length ys) (list_blit xs 0 ys) = ys"
  by (simp add: list_blit_def)

lemma take_drop_append [simp]: "take k xs @ drop k xs @ ys = xs @ ys"
  by (simp flip: append_assoc)

section \<open>Little-endian fields\<close>

definition le16 :: "u8 list \<Rightarrow> u16" where
  "le16 bs = ucast (bs ! 0) OR push_bit 8 (ucast (bs ! 1))"

definition le32 :: "u8 list \<Rightarrow> u32" where
  "le32 bs = ucast (bs ! 0) OR push_bit 8 (ucast (bs ! 1))
             OR push_bit 16 (ucast (bs ! 2)) OR push_bit 24 (ucast (bs ! 3))"

definition le16_bytes :: "u16 \<Rightarrow> u8 list" where
  "le16_bytes w = [ucast w, ucast (drop_bit 8 w)]"

definition le32_bytes :: "u32 \<Rightarrow> u8 list" where
  "le32_bytes w = [ucast w, ucast (drop_bit 8 w), ucast (drop_bit 16 w), ucast (drop_bit 24 w)]"

lemma length_le16_bytes [simp]: "length (le16_bytes w) = 2"
  by (simp add: le16_bytes_def)

lemma length_le32_bytes [simp]: "length (le32_bytes w) = 4"
  by (simp add: le32_bytes_def)

lemma le16_roundtrip [simp]: "le16 (le16_bytes w @ rest) = w"
  by (rule bit_word_eqI)
    (auto simp: le16_def le16_bytes_def bit_simps)

lemma le32_roundtrip [simp]: "le32 (le32_bytes w @ rest) = w"
proof (rule bit_word_eqI)
  fix n :: nat
  assume "n < LENGTH(32)"
  then consider "n < 8" | "8 \<le> n" "n < 16" | "16 \<le> n" "n < 24" | "24 \<le> n" "n < 32"
    by fastforce
  then show "bit (le32 (le32_bytes w @ rest)) n \<longleftrightarrow> bit w n"
    by cases (auto simp: le32_def le32_bytes_def bit_simps)
qed

end
