(* ===== verification/Ring_Buffer.thy ===== *)
theory Ring_Buffer
  imports Prelude
begin

text \<open>
  The byte ring buffer of \<open>src/component/utils/ringbuffer\<close>. The structure holds absolute addresses
  (start, write and read pointer) into a byte memory; the model keeps them as 32-bit words and passes
  the memory explicitly. The memory is the coherent one: the cache maintenance calls
  (\<open>DCache_Clean\<close>, \<open>DCache_Invalidate\<close>) the code makes for a buffer shared between two cores do not
  change it and are not part of the model. The heap allocator is a parameter.

  First the operations, then the abstraction to a byte queue, then the interface of a byte queue as
  a locale with the stream property its clients rely on, and its interpretation on the ring buffer.
\<close>

section \<open>The structure and its operations\<close>

record RingBuffer =
  rb_start :: u32
  rb_size :: u32
  rb_owns :: u32
  rb_type :: u32
  rb_wptr :: u32
  rb_rptr :: u32

definition sizeof_RingBuffer :: u32 where
  "sizeof_RingBuffer = 384"

text \<open>
  \<open>rtos_mem_malloc\<close> takes the heap and a size and gives an address or None for NULL;
  \<open>rtos_mem_free\<close> gives the heap back. The result pairs the address of the structure with its
  contents.
\<close>

definition RingBuffer_Create ::
  "('h \<Rightarrow> u32 \<Rightarrow> u32 option \<times> 'h) \<Rightarrow> (u32 \<Rightarrow> 'h \<Rightarrow> 'h) \<Rightarrow> 'h \<Rightarrow> u32 \<Rightarrow> u32 \<Rightarrow> u32 \<Rightarrow> u32
     \<Rightarrow> (u32 \<times> RingBuffer) option \<times> 'h" where
  "RingBuffer_Create rtos_mem_malloc rtos_mem_free h data sz type owns =
     (case rtos_mem_malloc h sizeof_RingBuffer of
        (None, h1) \<Rightarrow> (None, h1)
      | (Some rb, h1) \<Rightarrow>
          (case (if owns \<noteq> 0 then rtos_mem_malloc h1 sz else (Some data, h1)) of
             (None, h2) \<Rightarrow> (None, rtos_mem_free rb h2)
           | (Some start, h2) \<Rightarrow>
               (Some (rb, \<lparr>rb_start = start, rb_size = sz, rb_owns = owns, rb_type = type,
                           rb_wptr = start, rb_rptr = start\<rparr>), h2)))"

definition RingBuffer_Destroy :: "(u32 \<Rightarrow> 'h \<Rightarrow> 'h) \<Rightarrow> 'h \<Rightarrow> u32 \<Rightarrow> RingBuffer \<Rightarrow> int \<times> 'h" where
  "RingBuffer_Destroy rtos_mem_free h p rb =
     (let h1 = (if rb_owns rb \<noteq> 0 then
                  if rb_start rb \<noteq> 0 then rtos_mem_free (rb_start rb) h else h
                else h)
      in (0, rtos_mem_free p h1))"

definition RingBuffer_Size :: "RingBuffer \<Rightarrow> u32" where
  "RingBuffer_Size rb = rb_size rb"

definition RingBuffer_Space :: "RingBuffer \<Rightarrow> u32" where
  "RingBuffer_Space rb = (rb_size rb - 1 + rb_rptr rb - rb_wptr rb) mod rb_size rb"

definition RingBuffer_Available :: "RingBuffer \<Rightarrow> u32" where
  "RingBuffer_Available rb = (rb_size rb + rb_wptr rb - rb_rptr rb) mod rb_size rb"

text \<open>A pointer that has reached the end of the storage goes back to its start.\<close>

definition rb_wrap :: "RingBuffer \<Rightarrow> u32 \<Rightarrow> u32" where
  "rb_wrap rb p = (if p = rb_start rb + rb_size rb then rb_start rb else p)"

text \<open>The source buffer is None for a NULL pointer; the result is the return code, the structure
  and the memory.\<close>

definition RingBuffer_Write ::
  "RingBuffer \<Rightarrow> u8 list option \<Rightarrow> u32 \<Rightarrow> memory \<Rightarrow> int \<times> RingBuffer \<times> memory" where
  "RingBuffer_Write rb buffer count m =
     (case buffer of
        None \<Rightarrow> (-1, rb, m)
      | Some bs \<Rightarrow>
          if count = 0 then (-1, rb, m)
          else if rb_wptr rb < rb_rptr rb then
            (0, rb\<lparr>rb_wptr := rb_wrap rb (rb_wptr rb + count)\<rparr>,
             mem_write m (rb_wptr rb) (take (unat count) bs))
          else
            let room = rb_start rb + rb_size rb - rb_wptr rb;
                n = (if room \<ge> count then count else room);
                m1 = mem_write m (rb_wptr rb) (take (unat n) bs);
                w1 = rb_wrap rb (rb_wptr rb + n)
            in if n \<noteq> count then
                 (0, rb\<lparr>rb_wptr := rb_wrap rb (w1 + (count - n))\<rparr>,
                  mem_write m1 w1 (take (unat (count - n)) (drop (unat n) bs)))
               else (0, rb\<lparr>rb_wptr := w1\<rparr>, m1))"

text \<open>The destination buffer is None for NULL, otherwise its contents before and after.\<close>

definition RingBuffer_Read ::
  "RingBuffer \<Rightarrow> u8 list option \<Rightarrow> u32 \<Rightarrow> memory \<Rightarrow> int \<times> RingBuffer \<times> u8 list option" where
  "RingBuffer_Read rb buffer count m =
     (case buffer of
        None \<Rightarrow> (-1, rb, None)
      | Some dst \<Rightarrow>
          if count = 0 then (-1, rb, Some dst)
          else if rb_wptr rb > rb_rptr rb then
            (0, rb\<lparr>rb_rptr := rb_wrap rb (rb_rptr rb + count)\<rparr>,
             Some (list_blit dst 0 (mem_read m (rb_rptr rb) (unat count))))
          else
            let room = rb_start rb + rb_size rb - rb_rptr rb;
                n = (if room \<ge> count then count else room);
                dst1 = list_blit dst 0 (mem_read m (rb_rptr rb) (unat n));
                r1 = rb_wrap rb (rb_rptr rb + n)
            in if n \<noteq> count then
                 (0, rb\<lparr>rb_rptr := rb_wrap rb (r1 + (count - n))\<rparr>,
                  Some (list_blit dst1 (unat n) (mem_read m r1 (unat (count - n)))))
               else (0, rb\<lparr>rb_rptr := r1\<rparr>, Some dst1))"

definition RingBuffer_GetWritePoint :: "RingBuffer \<Rightarrow> u32" where
  "RingBuffer_GetWritePoint rb = rb_wptr rb"

definition RingBuffer_GetReadPoint :: "RingBuffer \<Rightarrow> u32" where
  "RingBuffer_GetReadPoint rb = rb_rptr rb"

definition RingBuffer_Reset :: "RingBuffer \<Rightarrow> RingBuffer" where
  "RingBuffer_Reset rb = rb\<lparr>rb_wptr := rb_start rb, rb_rptr := rb_start rb\<rparr>"

section \<open>Invariant and abstraction\<close>

text \<open>
  The storage is at most half of the address space (so that the sum in \<open>RingBuffer_Available\<close> does
  not wrap), does not wrap around the end of the address space, and both pointers are inside it.
\<close>

definition rb_inv :: "RingBuffer \<Rightarrow> bool" where
  "rb_inv rb \<longleftrightarrow> 0 < unat (rb_size rb) \<and> unat (rb_size rb) \<le> 2147483648 \<and>
     unat (rb_start rb) + unat (rb_size rb) < 4294967296 \<and>
     rb_start rb \<le> rb_wptr rb \<and> unat (rb_wptr rb) < unat (rb_start rb) + unat (rb_size rb) \<and>
     rb_start rb \<le> rb_rptr rb \<and> unat (rb_rptr rb) < unat (rb_start rb) + unat (rb_size rb)"

definition rb_roff :: "RingBuffer \<Rightarrow> nat" where
  "rb_roff rb = unat (rb_rptr rb) - unat (rb_start rb)"

definition rb_woff :: "RingBuffer \<Rightarrow> nat" where
  "rb_woff rb = unat (rb_wptr rb) - unat (rb_start rb)"

definition rb_used :: "RingBuffer \<Rightarrow> nat" where
  "rb_used rb = (if rb_roff rb \<le> rb_woff rb then rb_woff rb - rb_roff rb
                 else unat (rb_size rb) + rb_woff rb - rb_roff rb)"

text \<open>\<open>k\<close> bytes of a ring of \<open>n\<close> bytes at \<open>s\<close>, from offset \<open>r\<close> on.\<close>

definition ring_read :: "memory \<Rightarrow> u32 \<Rightarrow> nat \<Rightarrow> nat \<Rightarrow> nat \<Rightarrow> u8 list" where
  "ring_read m s n r k = map (\<lambda>i. m (s + of_nat ((r + i) mod n))) [0..<k]"

definition rb_content :: "RingBuffer \<Rightarrow> memory \<Rightarrow> u8 list" where
  "rb_content rb m = ring_read m (rb_start rb) (unat (rb_size rb)) (rb_roff rb) (rb_used rb)"


section \<open>Rings in memory\<close>

definition ring_write :: "memory \<Rightarrow> u32 \<Rightarrow> nat \<Rightarrow> nat \<Rightarrow> u8 list \<Rightarrow> memory" where
  "ring_write m s n w ws =
     (if w + length ws \<le> n then mem_write m (s + of_nat w) ws
      else mem_write (mem_write m (s + of_nat w) (take (n - w) ws)) s (drop (n - w) ws))"

lemma length_ring_read [simp]: "length (ring_read m s n r k) = k"
  by (simp add: ring_read_def)

lemma nth_ring_read [simp]: "i < k \<Longrightarrow> ring_read m s n r k ! i = m (s + of_nat ((r + i) mod n))"
  by (simp add: ring_read_def)

lemma ring_read_append:
  "ring_read m s n r (j + k) = ring_read m s n r j @ ring_read m s n ((r + j) mod n) k"
proof (rule nth_equalityI)
  fix i
  assume i: "i < length (ring_read m s n r (j + k))"
  have "((r + j) mod n + (i - j)) mod n = (r + i) mod n" if "\<not> i < j"
    unfolding mod_add_left_eq using that by simp
  then show "ring_read m s n r (j + k) ! i =
      (ring_read m s n r j @ ring_read m s n ((r + j) mod n) k) ! i"
    using i by (auto simp: nth_append simp del: add_diff_assoc add_diff_assoc2)
qed simp

lemma take_ring_read: "j \<le> k \<Longrightarrow> take j (ring_read m s n r k) = ring_read m s n r j"
  by (rule nth_equalityI) auto

lemma drop_ring_read:
  "j \<le> k \<Longrightarrow> drop j (ring_read m s n r k) = ring_read m s n ((r + j) mod n) (k - j)"
  by (rule nth_equalityI) (auto simp: mod_add_left_eq add.assoc)

lemma ring_read_contiguous:
  "r + k \<le> n \<Longrightarrow> ring_read m s n r k = mem_read m (s + of_nat r) k"
  by (rule nth_equalityI) (auto simp: add.assoc)

lemma ring_read_wrapped:
  assumes "r < n" and "n \<le> r + k" and "k \<le> n"
  shows "ring_read m s n r k = mem_read m (s + of_nat r) (n - r) @ mem_read m s (k - (n - r))"
proof -
  have "ring_read m s n r ((n - r) + (k - (n - r))) =
      ring_read m s n r (n - r) @ ring_read m s n ((r + (n - r)) mod n) (k - (n - r))"
    by (rule ring_read_append)
  then show ?thesis
    using assms by (simp add: ring_read_contiguous)
qed

lemma mem_write_at:
  assumes "w + length ws \<le> n" and "w < n" and "j < n" and "unat s + n \<le> 4294967296"
  shows "mem_write m (s + of_nat w) ws (s + of_nat j) =
    (if w \<le> j \<and> j < w + length ws then ws ! (j - w) else m (s + of_nat j))"
proof (cases "w \<le> j")
  case True
  have "s + of_nat j - (s + of_nat w) = (of_nat (j - w) :: u32)"
    using True by (simp add: of_nat_diff)
  then have "unat (s + of_nat j - (s + of_nat w)) = j - w"
    using assms by simp
  then show ?thesis
    using True by (auto simp: mem_write_def Let_def)
next
  case False
  then have w: "w < 4294967296" and j: "j < 4294967296"
    using assms by auto
  have "unat (s + of_nat j - (s + of_nat w)) = 4294967296 + j - w"
    using False w j by (simp add: unat_sub_if_size word_size)
  then show ?thesis
    using False assms by (simp add: mem_write_outside)
qed

lemma ring_write_at:
  assumes "w < n" and "length ws \<le> n" and "j < n" and "unat s + n \<le> 4294967296"
  shows "ring_write m s n w ws (s + of_nat j) =
    (if w \<le> j \<and> j < w + length ws then ws ! (j - w)
     else if j + n < w + length ws then ws ! (n - w + j) else m (s + of_nat j))"
proof (cases "w + length ws \<le> n")
  case True
  then show ?thesis
    using assms by (simp add: ring_write_def mem_write_at [of _ _ n])
next
  case False
  have "mem_write m' (s + of_nat 0) (drop (n - w) ws) (s + of_nat j) =
      (if 0 \<le> j \<and> j < 0 + length (drop (n - w) ws) then drop (n - w) ws ! (j - 0)
       else m' (s + of_nat j))" for m'
    by (rule mem_write_at) (use assms False in auto)
  then show ?thesis
    using assms False by (auto simp: ring_write_def mem_write_at [of _ _ n])
qed

lemma ring_read_write_new:
  assumes "w < n" and "length ws \<le> n" and "unat s + n \<le> 4294967296"
  shows "ring_read (ring_write m s n w ws) s n w (length ws) = ws"
proof (rule nth_equalityI)
  fix i
  assume "i < length (ring_read (ring_write m s n w ws) s n w (length ws))"
  then have i: "i < length ws" by simp
  then show "ring_read (ring_write m s n w ws) s n w (length ws) ! i = ws ! i"
    using assms by (subst nth_ring_read, simp, subst ring_write_at) (auto simp: mod_wrap)
qed simp

lemma ring_read_write_old:
  assumes "r < n" and "k + length ws \<le> n" and "k < n" and "w = (r + k) mod n"
    and "unat s + n \<le> 4294967296"
  shows "ring_read (ring_write m s n w ws) s n r k = ring_read m s n r k"
proof (rule nth_equalityI)
  fix i
  assume "i < length (ring_read (ring_write m s n w ws) s n r k)"
  then have i: "i < k" by simp
  have w: "w = (if r + k < n then r + k else r + k - n)" and wn: "w < n"
    using assms by (auto simp: wrap_simps)
  show "ring_read (ring_write m s n w ws) s n r k ! i = ring_read m s n r k ! i"
    using assms i wn
    by (simp only: nth_ring_read length_ring_read, subst ring_write_at) (auto simp: mod_wrap w)
qed simp


section \<open>The operations on an invariant buffer\<close>

lemma rb_invD:
  assumes "rb_inv rb"
  shows "rb_wptr rb = rb_start rb + of_nat (rb_woff rb)"
    and "rb_rptr rb = rb_start rb + of_nat (rb_roff rb)"
    and "rb_woff rb < unat (rb_size rb)" and "rb_roff rb < unat (rb_size rb)"
    and "unat (rb_size rb) \<le> 2147483648"
    and "unat (rb_start rb) + unat (rb_size rb) < 4294967296"
  using assms by (auto simp: rb_inv_def rb_woff_def rb_roff_def word_le_nat_alt of_nat_unat_diff)

lemma rb_used_less: "rb_inv rb \<Longrightarrow> rb_used rb < unat (rb_size rb)"
  using rb_invD(3,4) [of rb] by (auto simp: rb_used_def)

lemma rb_woff_eq: "rb_inv rb \<Longrightarrow> (rb_roff rb + rb_used rb) mod unat (rb_size rb) = rb_woff rb"
  using rb_invD(3,4) [of rb] by (auto simp: rb_used_def mod_if)

lemma length_rb_content [simp]: "length (rb_content rb m) = rb_used rb"
  by (simp add: rb_content_def)

lemma unat_mod_of_nat:
  "k < 4294967296 \<Longrightarrow> unat ((of_nat k :: u32) mod n) = k mod unat n"
  by (simp add: unat_mod)

lemma Available_used: "rb_inv rb \<Longrightarrow> unat (RingBuffer_Available rb) = rb_used rb"
proof -
  assume inv: "rb_inv rb"
  let ?n = "unat (rb_size rb)"
  have "rb_size rb + rb_wptr rb - rb_rptr rb = of_nat (?n + rb_woff rb - rb_roff rb)"
    using rb_invD [OF inv] by (simp add: of_nat_diff)
  then have "unat (RingBuffer_Available rb) = (?n + rb_woff rb - rb_roff rb) mod ?n"
    unfolding RingBuffer_Available_def
    by (simp only:, subst unat_mod_of_nat) (use rb_invD(3-5) [OF inv] in linarith, rule refl)
  also have "\<dots> = rb_used rb"
    using rb_invD(3,4) [OF inv] by (auto simp: rb_used_def mod_if)
  finally show ?thesis .
qed

lemma Space_free: "rb_inv rb \<Longrightarrow> unat (RingBuffer_Space rb) = unat (rb_size rb) - 1 - rb_used rb"
proof -
  assume inv: "rb_inv rb"
  let ?n = "unat (rb_size rb)"
  have "rb_size rb - 1 + rb_rptr rb - rb_wptr rb = of_nat (?n - 1 + rb_roff rb - rb_woff rb)"
    using rb_invD [OF inv] by (simp add: of_nat_diff)
  then have "unat (RingBuffer_Space rb) = (?n - 1 + rb_roff rb - rb_woff rb) mod ?n"
    unfolding RingBuffer_Space_def
    by (simp only:, subst unat_mod_of_nat) (use rb_invD(3-5) [OF inv] in linarith, rule refl)
  also have "\<dots> = ?n - 1 - rb_used rb"
    using rb_invD(3,4) [OF inv] by (auto simp: rb_used_def mod_if)
  finally show ?thesis .
qed

lemma rb_wrap_offset:
  assumes "unat (rb_start rb) + unat (rb_size rb) < 4294967296" and "k \<le> unat (rb_size rb)"
  shows "rb_wrap rb (rb_start rb + of_nat k) =
    rb_start rb + of_nat (if k = unat (rb_size rb) then 0 else k)"
proof -
  have "rb_start rb + of_nat k = rb_start rb + rb_size rb \<longleftrightarrow> k = unat (rb_size rb)"
    using assms by (simp add: word_unat_eq_iff [of "of_nat k"])
  then show ?thesis by (auto simp: rb_wrap_def)
qed


lemma rb_ptr_less:
  assumes "rb_inv rb"
  shows "rb_wptr rb < rb_rptr rb \<longleftrightarrow> rb_woff rb < rb_roff rb"
    and "rb_rptr rb < rb_wptr rb \<longleftrightarrow> rb_roff rb < rb_woff rb"
  using assms by (auto simp: rb_inv_def rb_woff_def rb_roff_def word_le_nat_alt word_less_nat_alt)

lemma rb_room:
  assumes "rb_inv rb" and "k < unat (rb_size rb)"
  shows "rb_start rb + rb_size rb - (rb_start rb + of_nat k) = of_nat (unat (rb_size rb) - k)"
  using assms(2) by (simp add: of_nat_diff)

lemma rb_advance:
  assumes "rb_inv rb" and "k < unat (rb_size rb)" and "k + unat c \<le> unat (rb_size rb)"
  shows "rb_wrap rb (rb_start rb + of_nat k + c) =
    rb_start rb + of_nat ((k + unat c) mod unat (rb_size rb))"
proof -
  have eq: "rb_start rb + of_nat k + c = rb_start rb + of_nat (k + unat c)"
    by (simp add: add.assoc)
  show ?thesis
    unfolding eq rb_wrap_offset [OF rb_invD(6) [OF assms(1)] assms(3)] using assms(3) by auto
qed

text \<open>The two branches of the code are one write into the ring, when the data fits.\<close>

lemma RingBuffer_Write_ring:
  assumes inv: "rb_inv rb" and c: "0 < unat count"
    and fits: "rb_used rb + unat count < unat (rb_size rb)" and len: "unat count \<le> length bs"
  shows "RingBuffer_Write rb (Some bs) count m =
    (0, rb\<lparr>rb_wptr := rb_start rb + of_nat ((rb_woff rb + unat count) mod unat (rb_size rb))\<rparr>,
     ring_write m (rb_start rb) (unat (rb_size rb)) (rb_woff rb) (take (unat count) bs))"
proof -
  let ?n = "unat (rb_size rb)" and ?w = "rb_woff rb" and ?c = "unat count"
  note D = rb_invD [OF inv]
  let ?room = "rb_start rb + rb_size rb - rb_wptr rb"
  have count0: "count \<noteq> 0" using c by auto
  have room: "unat ?room = ?n - ?w"
    unfolding D(1) rb_room [OF inv D(3)] using D(3,5) by (intro unat_of_nat_u32) linarith
  consider (before) "?w < rb_roff rb" | (tail) "rb_roff rb \<le> ?w" "?w + ?c \<le> ?n"
    | (split) "rb_roff rb \<le> ?w" "?n < ?w + ?c"
    by linarith
  then show ?thesis
  proof cases
    case before
    then have "?w + ?c \<le> ?n" and lt: "rb_wptr rb < rb_rptr rb"
      using fits D(4) by (simp_all add: rb_used_def rb_ptr_less [OF inv])
    moreover from this(1) have "rb_wrap rb (rb_wptr rb + count) =
        rb_start rb + of_nat ((?w + ?c) mod ?n)"
      unfolding D(1) by (rule rb_advance [OF inv D(3)])
    ultimately show ?thesis
      using len count0 by (simp add: RingBuffer_Write_def ring_write_def min_def flip: D(1))
  next
    case tail
    have "count \<le> ?room"
      using tail(2) by (simp add: word_le_nat_alt room)
    moreover have "\<not> rb_wptr rb < rb_rptr rb"
      using tail(1) by (simp add: rb_ptr_less [OF inv])
    moreover have "rb_wrap rb (rb_wptr rb + count) = rb_start rb + of_nat ((?w + ?c) mod ?n)"
      unfolding D(1) using tail(2) by (rule rb_advance [OF inv D(3)])
    ultimately show ?thesis
      using len count0 tail(2)
      by (simp add: RingBuffer_Write_def Let_def ring_write_def min_def flip: D(1))
  next
    case split
    have lt: "?room < count"
      using split(2) D(3) by (simp add: word_less_nat_alt room)
    have w1: "rb_wrap rb (rb_start rb + rb_size rb) = rb_start rb"
      by (simp add: rb_wrap_def)
    have rest: "unat (count - ?room) = ?c - (?n - ?w)"
      using lt by (simp add: unat_sub_no_wrap room word_less_nat_alt)
    have small: "?c - (?n - ?w) < ?n"
      using fits by linarith
    have w2: "rb_wrap rb (rb_start rb + (count - ?room)) =
        rb_start rb + of_nat ((?c - (?n - ?w)) mod ?n)"
      using rb_advance [OF inv, of 0 "count - ?room"] small D(3) rest by simp
    have idx: "(?c - (?n - ?w)) mod ?n = (?w + ?c) mod ?n" and wc: "?n - ?w \<le> ?c"
      using split(2) small D(3) fits by (simp_all add: mod_wrap)
    from w2 have w2': "rb_wrap rb (count + (rb_wptr rb - rb_size rb)) =
        rb_start rb + of_nat ((?w + ?c) mod ?n)"
      unfolding idx by simp
    have le: "\<not> count \<le> ?room" "?room \<noteq> count" "\<not> rb_wptr rb < rb_rptr rb"
      using lt split(1) by (auto simp: rb_ptr_less [OF inv])
    show ?thesis
      using split(2) le count0 len small wc
      by (simp add: RingBuffer_Write_def Let_def w1 w2' rest room ring_write_def
          min.absorb2 min.absorb1
          drop_take flip: D(1))
  qed
qed


lemma RingBuffer_Read_ring:
  assumes inv: "rb_inv rb" and c: "0 < unat count"
    and avail: "unat count \<le> rb_used rb" and len: "unat count \<le> length dst"
  shows "RingBuffer_Read rb (Some dst) count m =
    (0, rb\<lparr>rb_rptr := rb_start rb + of_nat ((rb_roff rb + unat count) mod unat (rb_size rb))\<rparr>,
     Some (list_blit dst 0
       (ring_read m (rb_start rb) (unat (rb_size rb)) (rb_roff rb) (unat count))))"
proof -
  let ?n = "unat (rb_size rb)" and ?r = "rb_roff rb" and ?c = "unat count"
  let ?room = "rb_start rb + rb_size rb - rb_rptr rb"
  note D = rb_invD [OF inv]
  have count0: "count \<noteq> 0" using c by auto
  have cn: "?c < ?n" using avail rb_used_less [OF inv] by linarith
  have room: "unat ?room = ?n - ?r"
    unfolding D(2) rb_room [OF inv D(4)] using D(4,5) by (intro unat_of_nat_u32) linarith
  consider (before) "?r < rb_woff rb" | (tail) "rb_woff rb \<le> ?r" "?r + ?c \<le> ?n"
    | (split) "rb_woff rb \<le> ?r" "?n < ?r + ?c"
    by linarith
  then show ?thesis
  proof cases
    case before
    then have "?r + ?c \<le> ?n" and lt: "rb_rptr rb < rb_wptr rb"
      using avail D(3) by (simp_all add: rb_used_def rb_ptr_less [OF inv])
    moreover from this(1) have "rb_wrap rb (rb_rptr rb + count) =
        rb_start rb + of_nat ((?r + ?c) mod ?n)"
      unfolding D(2) by (rule rb_advance [OF inv D(4)])
    ultimately show ?thesis
      using count0 by (simp add: RingBuffer_Read_def ring_read_contiguous flip: D(2))
  next
    case tail
    have "count \<le> ?room"
      using tail(2) by (simp add: word_le_nat_alt room)
    moreover have "\<not> rb_rptr rb < rb_wptr rb"
      using tail(1) by (simp add: rb_ptr_less [OF inv])
    moreover have "rb_wrap rb (rb_rptr rb + count) = rb_start rb + of_nat ((?r + ?c) mod ?n)"
      unfolding D(2) using tail(2) by (rule rb_advance [OF inv D(4)])
    ultimately show ?thesis
      using count0 tail(2)
      by (simp add: RingBuffer_Read_def Let_def ring_read_contiguous flip: D(2))
  next
    case split
    have lt: "?room < count"
      using split(2) D(4) by (simp add: word_less_nat_alt room)
    have w1: "rb_wrap rb (rb_start rb + rb_size rb) = rb_start rb"
      by (simp add: rb_wrap_def)
    have rest: "unat (count - ?room) = ?c - (?n - ?r)"
      using lt by (simp add: unat_sub_no_wrap room word_less_nat_alt)
    have small: "?c - (?n - ?r) < ?n"
      using cn by linarith
    have w2: "rb_wrap rb (rb_start rb + (count - ?room)) =
        rb_start rb + of_nat ((?c - (?n - ?r)) mod ?n)"
      using rb_advance [OF inv, of 0 "count - ?room"] small D(4) rest by simp
    have idx: "(?c - (?n - ?r)) mod ?n = (?r + ?c) mod ?n" and wc: "?n - ?r \<le> ?c"
      using split(2) small D(4) cn by (simp_all add: mod_wrap)
    from w2 have w2': "rb_wrap rb (count + (rb_rptr rb - rb_size rb)) =
        rb_start rb + of_nat ((?r + ?c) mod ?n)"
      unfolding idx by simp
    have le: "\<not> count \<le> ?room" "?room \<noteq> count" "\<not> rb_rptr rb < rb_wptr rb"
      using lt split(1) by (auto simp: rb_ptr_less [OF inv])
    have blit: "list_blit (list_blit dst 0 xs) (?n - ?r) ys = list_blit dst 0 (xs @ ys)"
      if "length xs = ?n - ?r" and "length ys = ?c - (?n - ?r)" for xs ys
      using that len split(2) list_blit_append [of 0 xs ys dst] by simp
    show ?thesis
      using split(2) le count0 cn D(4)
      by (simp add: RingBuffer_Read_def Let_def w1 w2' rest room blit
          ring_read_wrapped flip: D(2))
  qed
qed

section \<open>The ring buffer as a byte queue\<close>

lemma rb_upd_wptr:
  assumes "rb_inv rb" and "k < unat (rb_size rb)"
  defines "rb' \<equiv> rb\<lparr>rb_wptr := rb_start rb + of_nat k\<rparr>"
  shows "rb_inv rb'" and "rb_woff rb' = k" and "rb_roff rb' = rb_roff rb"
  using assms by (auto simp: rb_inv_def rb_woff_def rb_roff_def word_le_nat_alt
      unat_add_of_nat_no_wrap)

lemma rb_upd_rptr:
  assumes "rb_inv rb" and "k < unat (rb_size rb)"
  defines "rb' \<equiv> rb\<lparr>rb_rptr := rb_start rb + of_nat k\<rparr>"
  shows "rb_inv rb'" and "rb_roff rb' = k" and "rb_woff rb' = rb_woff rb"
  using assms by (auto simp: rb_inv_def rb_woff_def rb_roff_def word_le_nat_alt
      unat_add_of_nat_no_wrap)

lemma Write_content:
  assumes inv: "rb_inv rb" and c: "0 < unat count"
    and fits: "rb_used rb + unat count < unat (rb_size rb)" and len: "unat count \<le> length bs"
    and eq: "RingBuffer_Write rb (Some bs) count m = (ret, rb', m')"
  shows "ret = 0" and "rb_inv rb'" and "rb_size rb' = rb_size rb"
    and "rb_content rb' m' = rb_content rb m @ take (unat count) bs"
proof -
  let ?n = "unat (rb_size rb)" and ?w = "rb_woff rb" and ?c = "unat count"
  note D = rb_invD [OF inv]
  from RingBuffer_Write_ring [OF inv c fits len, of m] eq
  have ret: "ret = 0" and rb': "rb' = rb\<lparr>rb_wptr := rb_start rb + of_nat ((?w + ?c) mod ?n)\<rparr>"
    and m': "m' = ring_write m (rb_start rb) ?n ?w (take ?c bs)"
    by auto
  have lt: "(?w + ?c) mod ?n < ?n" using D(3) by simp
  note upd = rb_upd_wptr [OF inv lt, folded rb']
  have used: "rb_used rb' = rb_used rb + ?c"
    using fits D(3,4) unfolding rb_used_def upd by (auto simp: rb' mod_wrap rb_used_def split: if_splits)
  show "ret = 0" "rb_inv rb'" "rb_size rb' = rb_size rb"
    using ret upd(1) by (simp_all add: rb')
  have old: "ring_read m' (rb_start rb) ?n (rb_roff rb) (rb_used rb) = rb_content rb m"
    unfolding m' rb_content_def
    using D(4,6) fits len rb_used_less [OF inv] rb_woff_eq [OF inv]
    by (intro ring_read_write_old) auto
  have "ring_read m' (rb_start rb) ?n ?w (length (take ?c bs)) = take ?c bs"
    unfolding m' using D(3,6) fits by (intro ring_read_write_new) auto
  then have new: "ring_read m' (rb_start rb) ?n ?w ?c = take ?c bs"
    using len by simp
  have "rb_content rb' m' = ring_read m' (rb_start rb) ?n (rb_roff rb) (rb_used rb + ?c)"
    unfolding rb_content_def upd(3) used by (simp add: rb')
  then show "rb_content rb' m' = rb_content rb m @ take ?c bs"
    by (simp add: ring_read_append old new rb_woff_eq [OF inv])
qed

lemma Read_content:
  assumes inv: "rb_inv rb" and c: "0 < unat count"
    and avail: "unat count \<le> rb_used rb" and len: "unat count \<le> length dst"
    and eq: "RingBuffer_Read rb (Some dst) count m = (ret, rb', dst')"
  shows "ret = 0" and "rb_inv rb'" and "rb_size rb' = rb_size rb"
    and "dst' = Some (list_blit dst 0 (take (unat count) (rb_content rb m)))"
    and "rb_content rb' m = drop (unat count) (rb_content rb m)"
proof -
  let ?n = "unat (rb_size rb)" and ?r = "rb_roff rb" and ?c = "unat count"
  note D = rb_invD [OF inv]
  from RingBuffer_Read_ring [OF inv c avail len, of m] eq
  have ret: "ret = 0" and rb': "rb' = rb\<lparr>rb_rptr := rb_start rb + of_nat ((?r + ?c) mod ?n)\<rparr>"
    and dst': "dst' = Some (list_blit dst 0 (ring_read m (rb_start rb) ?n ?r ?c))"
    by auto
  have lt: "(?r + ?c) mod ?n < ?n" using D(3) by simp
  note upd = rb_upd_rptr [OF inv lt, folded rb']
  have used: "rb_used rb' = rb_used rb - ?c"
    using avail D(3,4) unfolding rb_used_def upd by (auto simp: rb' mod_wrap rb_used_def split: if_splits)
  show "ret = 0" "rb_inv rb'" "rb_size rb' = rb_size rb"
    using ret upd(1) by (simp_all add: rb')
  show "dst' = Some (list_blit dst 0 (take ?c (rb_content rb m)))"
    unfolding dst' rb_content_def using avail by (simp add: take_ring_read)
  show "rb_content rb' m = drop ?c (rb_content rb m)"
    unfolding rb_content_def upd(2) used using avail by (simp add: rb' drop_ring_read)
qed

lemma Reset_content:
  assumes "rb_inv rb"
  shows "rb_inv (RingBuffer_Reset rb)" and "rb_content (RingBuffer_Reset rb) m = []"
  using assms by (auto simp: rb_inv_def RingBuffer_Reset_def rb_content_def rb_used_def rb_roff_def
      rb_woff_def ring_read_def)

section \<open>The interface of a byte queue\<close>

text \<open>
  What the users of the ring buffer rely on: the free space and the fill level they ask for before
  they write or read, and that data comes out in the order it went in.
\<close>

locale byte_fifo =
  fixes inv :: "'s \<Rightarrow> bool" and content :: "'s \<Rightarrow> u8 list" and cap :: "'s \<Rightarrow> nat"
    and space :: "'s \<Rightarrow> nat" and avail :: "'s \<Rightarrow> nat"
    and put :: "'s \<Rightarrow> u8 list \<Rightarrow> 's" and get :: "'s \<Rightarrow> nat \<Rightarrow> u8 list \<times> 's"
  assumes avail_content: "inv s \<Longrightarrow> avail s = length (content s)"
    and space_avail: "inv s \<Longrightarrow> space s + avail s = cap s"
    and put_ok: "inv s \<Longrightarrow> length bs \<le> space s \<Longrightarrow>
      inv (put s bs) \<and> content (put s bs) = content s @ bs \<and> cap (put s bs) = cap s"
    and get_ok: "inv s \<Longrightarrow> n \<le> avail s \<Longrightarrow> get s n = (out, s') \<Longrightarrow>
      inv s' \<and> out = take n (content s) \<and> content s' = drop n (content s) \<and> cap s' = cap s"
begin

lemma space_after_put: "inv s \<Longrightarrow> length bs \<le> space s \<Longrightarrow> space (put s bs) + length bs = space s"
  using put_ok [of s bs] avail_content [of s] avail_content [of "put s bs"] space_avail [of s]
    space_avail [of "put s bs"] by simp

lemma space_after_get: "inv s \<Longrightarrow> n \<le> avail s \<Longrightarrow> get s n = (out, s') \<Longrightarrow> space s' = space s + n"
  using get_ok [of s n out s'] avail_content [of s] avail_content [of s'] space_avail [of s]
    space_avail [of s'] by simp

end

text \<open>A client that asks before it acts: it writes a block only when it fits and reads only what is
  there. It collects what it wrote and what it read.\<close>

datatype fifo_op = Put "u8 list" | Get nat

fun fifo_run ::
  "('s \<Rightarrow> nat) \<Rightarrow> ('s \<Rightarrow> nat) \<Rightarrow> ('s \<Rightarrow> u8 list \<Rightarrow> 's) \<Rightarrow> ('s \<Rightarrow> nat \<Rightarrow> u8 list \<times> 's)
     \<Rightarrow> 's \<Rightarrow> fifo_op list \<Rightarrow> u8 list \<times> u8 list \<times> 's" where
  "fifo_run space avail put get s [] = ([], [], s)"
| "fifo_run space avail put get s (Put bs # ops) =
     (if length bs \<le> space s then
        case fifo_run space avail put get (put s bs) ops of (ins, outs, s') \<Rightarrow> (bs @ ins, outs, s')
      else fifo_run space avail put get s ops)"
| "fifo_run space avail put get s (Get n # ops) =
     (case get s (min n (avail s)) of (out, s1) \<Rightarrow>
        case fifo_run space avail put get s1 ops of (ins, outs, s') \<Rightarrow> (ins, out @ outs, s'))"

context byte_fifo
begin

theorem run_stream:
  "inv s \<Longrightarrow> fifo_run space avail put get s ops = (ins, outs, s') \<Longrightarrow>
     inv s' \<and> cap s' = cap s \<and> outs @ content s' = content s @ ins"
proof (induction ops arbitrary: s ins outs s')
  case Nil
  then show ?case by simp
next
  case (Cons a ops)
  show ?case
  proof (cases a)
    case (Put bs)
    show ?thesis
    proof (cases "length bs \<le> space s")
      case True
      obtain ins1 outs1 s2 where r: "fifo_run space avail put get (put s bs) ops = (ins1, outs1, s2)"
        by (cases "fifo_run space avail put get (put s bs) ops")
      have ok: "inv (put s bs) \<and> content (put s bs) = content s @ bs \<and> cap (put s bs) = cap s"
        using put_ok [OF Cons.prems(1) True] .
      then show ?thesis
        using Cons.IH [OF _ r] Cons.prems(2) True r Put by auto
    next
      case False
      then show ?thesis using Cons Put by simp
    qed
  next
    case (Get n)
    obtain out s1 where g: "get s (min n (avail s)) = (out, s1)" by (cases "get s (min n (avail s))")
    obtain ins1 outs1 s2 where r: "fifo_run space avail put get s1 ops = (ins1, outs1, s2)"
      by (cases "fifo_run space avail put get s1 ops")
    have ok: "inv s1 \<and> out = take (min n (avail s)) (content s) \<and>
        content s1 = drop (min n (avail s)) (content s) \<and> cap s1 = cap s"
      using get_ok [OF Cons.prems(1) _ g] by simp
    then have "inv s2 \<and> cap s2 = cap s1 \<and> outs1 @ content s2 = content s1 @ ins1"
      using Cons.IH [OF _ r] by blast
    then show ?thesis
      using Cons.prems(2) ok g r Get by auto
  qed
qed

end

text \<open>The ring buffer with its memory, called the way its users call it.\<close>

definition rb_put :: "RingBuffer \<times> memory \<Rightarrow> u8 list \<Rightarrow> RingBuffer \<times> memory" where
  "rb_put s bs = (case RingBuffer_Write (fst s) (Some bs) (of_nat (length bs)) (snd s) of
     (_, rb', m') \<Rightarrow> (rb', m'))"

definition rb_get :: "RingBuffer \<times> memory \<Rightarrow> nat \<Rightarrow> u8 list \<times> RingBuffer \<times> memory" where
  "rb_get s n = (case RingBuffer_Read (fst s) (Some (replicate n 0)) (of_nat n) (snd s) of
     (_, rb', dst) \<Rightarrow> (the dst, rb', snd s))"

lemma rb_put_ok:
  assumes "rb_inv (fst s)" and "length bs \<le> unat (RingBuffer_Space (fst s))"
  shows "rb_inv (fst (rb_put s bs)) \<and>
    rb_content (fst (rb_put s bs)) (snd (rb_put s bs)) = rb_content (fst s) (snd s) @ bs \<and>
    rb_size (fst (rb_put s bs)) = rb_size (fst s)"
proof (cases "bs = []")
  case True
  then show ?thesis using assms by (simp add: rb_put_def RingBuffer_Write_def)
next
  case False
  have "rb_used (fst s) + length bs < unat (rb_size (fst s))"
    using assms(2) False unfolding Space_free [OF assms(1)] by (cases bs) auto
  moreover from this have "unat (of_nat (length bs) :: u32) = length bs"
    using rb_invD(5) [OF assms(1)] by simp
  moreover obtain ret rb' m' where
    w: "RingBuffer_Write (fst s) (Some bs) (of_nat (length bs)) (snd s) = (ret, rb', m')"
    by (rule prod_cases3)
  moreover from w have "rb_put s bs = (rb', m')"
    by (simp add: rb_put_def)
  ultimately show ?thesis
    using False Write_content [OF assms(1) _ _ _ w] by simp
qed

lemma rb_get_ok:
  assumes "rb_inv (fst s)" and "n \<le> unat (RingBuffer_Available (fst s))" and "rb_get s n = (out, s')"
  shows "rb_inv (fst s') \<and> out = take n (rb_content (fst s) (snd s)) \<and>
    rb_content (fst s') (snd s') = drop n (rb_content (fst s) (snd s)) \<and>
    rb_size (fst s') = rb_size (fst s)"
proof (cases "n = 0")
  case True
  then show ?thesis using assms by (auto simp: rb_get_def RingBuffer_Read_def)
next
  case False
  have "n \<le> rb_used (fst s)"
    using assms(2) unfolding Available_used [OF assms(1)] .
  moreover from this have "unat (of_nat n :: u32) = n"
    using rb_invD(5) [OF assms(1)] rb_used_less [OF assms(1)] by simp
  moreover obtain ret rb' dst' where
    r: "RingBuffer_Read (fst s) (Some (replicate n 0)) (of_nat n) (snd s) = (ret, rb', dst')"
    by (rule prod_cases3)
  moreover from r have "out = the dst'" "s' = (rb', snd s)"
    using assms(3) by (simp_all add: rb_get_def)
  ultimately show ?thesis
    using False Read_content [OF assms(1) _ _ _ r] by (simp add: list_blit_def)
qed

interpretation rbq: byte_fifo "\<lambda>s. rb_inv (fst s)" "\<lambda>s. rb_content (fst s) (snd s)"
  "\<lambda>s. unat (rb_size (fst s)) - 1" "\<lambda>s. unat (RingBuffer_Space (fst s))"
  "\<lambda>s. unat (RingBuffer_Available (fst s))" rb_put rb_get
proof (unfold_locales, goal_cases)
  case (1 s)
  then show ?case by (simp add: Available_used)
next
  case (2 s)
  then show ?case using rb_used_less [OF 2] by (simp add: Space_free Available_used)
next
  case (3 s bs)
  from rb_put_ok [OF 3] show ?case by presburger
next
  case (4 s n out s')
  from rb_get_ok [OF 4] show ?case by presburger
qed

section \<open>Properties\<close>

lemma ring_write_outside:
  assumes "w < n" and "length ws \<le> n" and "n \<le> unat (a - s)"
    and "unat s + n < 4294967296"
  shows "ring_write m s n w ws a = m a"
proof -
  have a: "a = s + of_nat (unat (a - s))" by simp
  have far: "mem_write m' (s + of_nat k) xs a = m' a" if "k + length xs \<le> n" "k < n" for m' k xs
  proof -
    have "a - (s + of_nat k) = of_nat (unat (a - s) - k)"
      using that assms(3) by (simp add: of_nat_diff)
    moreover have "unat (a - s) - k < 4294967296"
      using unat_lt_space [of "a - s"] by linarith
    ultimately have "unat (a - (s + of_nat k)) = unat (a - s) - k"
      by simp
    then show ?thesis
      using that assms(3) by (intro mem_write_outside) simp
  qed
  show ?thesis
    using assms(1,2) far [of w ws m] far [of 0 "drop (n - w) ws"] far [of w "take (n - w) ws" m]
    by (simp add: ring_write_def min_def)
qed

text \<open>
  C5. A client that asks \<open>RingBuffer_Space\<close> before it writes and \<open>RingBuffer_Available\<close> before it
  reads gets a lossless byte stream, whatever the sequence of operations: what was read so far
  followed by what is still in the buffer is what was in it at first followed by what was written,
  in order, across every wrap of the two pointers.
\<close>

theorem RingBuffer_stream:
  assumes "rb_inv rb"
    and "fifo_run (\<lambda>s. unat (RingBuffer_Space (fst s))) (\<lambda>s. unat (RingBuffer_Available (fst s)))
           rb_put rb_get (rb, m) ops = (ins, outs, rb', m')"
  shows "rb_inv rb' \<and> outs @ rb_content rb' m' = rb_content rb m @ ins"
  using rbq.run_stream [of "(rb, m)" ops ins outs "(rb', m')"] assms by simp

definition rb_example :: RingBuffer where
  "rb_example = \<lparr>rb_start = 0x1000, rb_size = 4, rb_owns = 0, rb_type = 0,
     rb_wptr = 0x1002, rb_rptr = 0x1002\<rparr>"

lemmas rb_eval = RingBuffer_Write_def RingBuffer_Read_def RingBuffer_Space_def
  RingBuffer_Available_def rb_wrap_def rb_example_def rb_inv_def rb_roff_def rb_woff_def rb_used_def
  rb_content_def ring_read_def mem_write_def mem_read_def list_blit_def rb_put_def rb_get_def
  upt_rec Let_def

theorem RingBuffer_stream_witness:
  "rb_inv rb_example \<and>
   (case fifo_run (\<lambda>s. unat (RingBuffer_Space (fst s))) (\<lambda>s. unat (RingBuffer_Available (fst s)))
           rb_put rb_get (rb_example, \<lambda>_. 0) [Put [1, 2, 3], Put [7], Get 2, Put [4, 5], Get 9] of
      (ins, outs, rb', m') \<Rightarrow> ins = [1, 2, 3, 4, 5] \<and> outs = [1, 2, 3, 4, 5] \<and>
        outs @ rb_content rb' m' = rb_content rb_example (\<lambda>_. 0) @ ins)"
proof -
  have inv: "rb_inv rb_example" by (simp add: rb_eval)
  let ?run = "fifo_run (\<lambda>s. unat (RingBuffer_Space (fst s))) (\<lambda>s. unat (RingBuffer_Available (fst s)))
    rb_put rb_get (rb_example, \<lambda>_. 0) [Put [1, 2, 3], Put [7], Get 2, Put [4, 5], Get 9]"
  have out: "fst ?run = [1, 2, 3, 4, 5]" "fst (snd ?run) = [1, 2, 3, 4, 5]"
    by (simp_all add: rb_eval)
  show ?thesis
    using inv out RingBuffer_stream [OF inv, of "\<lambda>_. 0" "[Put [1, 2, 3], Put [7], Get 2, Put [4, 5], Get 9]"]
    by (cases ?run) auto
qed





text \<open>
  C30. Creation succeeds exactly when the allocator gives the structure and, for a buffer that owns its
  storage, the storage; the new buffer is well formed and empty and has room for all but one of its
  bytes. When the storage cannot be allocated the structure is given back. The allocator is assumed to
  give blocks that do not reach the end of the address space.
\<close>

theorem RingBuffer_Create_owned:
  assumes "\<forall>h sz p h'. malloc h sz = (Some p, h') \<longrightarrow> unat p + unat sz < 4294967296"
    and "0 < unat sz" and "unat sz \<le> 2147483648" and "owns \<noteq> 0"
  shows "case malloc h sizeof_RingBuffer of
      (None, h1) \<Rightarrow> RingBuffer_Create malloc free h data sz type owns = (None, h1)
    | (Some p, h1) \<Rightarrow>
        (case malloc h1 sz of
           (None, h2) \<Rightarrow> RingBuffer_Create malloc free h data sz type owns = (None, free p h2)
         | (Some start, h2) \<Rightarrow>
             \<exists>rb. RingBuffer_Create malloc free h data sz type owns = (Some (p, rb), h2) \<and>
               rb_start rb = start \<and> rb_inv rb \<and> rb_content rb m = [] \<and>
               unat (RingBuffer_Space rb) = unat sz - 1)"
proof -
  have new: "rb_inv rb \<and> rb_content rb m = [] \<and> unat (RingBuffer_Space rb) = unat sz - 1"
    if "unat start + unat sz < 4294967296"
      "rb = \<lparr>rb_start = start, rb_size = sz, rb_owns = owns, rb_type = type,
             rb_wptr = start, rb_rptr = start\<rparr>" for start rb
  proof -
    have inv: "rb_inv rb" and "rb_used rb = 0"
      using that assms(2,3) by (simp_all add: rb_inv_def rb_used_def rb_roff_def rb_woff_def)
    then show ?thesis
      using that(2) Space_free [OF inv] by (simp add: rb_content_def ring_read_def)
  qed
  have law: "unat p + unat sz < 4294967296" if "malloc h sz = (Some p, h')" for h p h'
    using assms(1) that by blast
  show ?thesis
    using assms(4) new [OF law refl]
    by (auto simp: RingBuffer_Create_def split: prod.splits option.splits)
qed

text \<open>An allocator that hands out one address after the other.\<close>

definition bump_malloc :: "u32 \<Rightarrow> u32 \<Rightarrow> u32 option \<times> u32" where
  "bump_malloc h sz = (if unat h + unat sz < 4294967296 then (Some h, h + sz) else (None, h))"

theorem RingBuffer_Create_owned_witness:
  "\<exists>rb. RingBuffer_Create bump_malloc (\<lambda>_ h. h) 0x2000 0 64 0 1 = (Some (0x2000, rb), 0x21c0) \<and>
     rb_inv rb \<and> unat (RingBuffer_Space rb) = 63"
proof -
  have law: "\<forall>h sz p h'. bump_malloc h sz = (Some p, h') \<longrightarrow> unat p + unat sz < 4294967296"
    by (auto simp: bump_malloc_def split: if_splits)
  have m: "bump_malloc 0x2000 sizeof_RingBuffer = (Some 0x2000, 0x2180)"
    "bump_malloc 0x2180 64 = (Some 0x2180, 0x21c0)"
    by (simp_all add: bump_malloc_def sizeof_RingBuffer_def)
  from RingBuffer_Create_owned [where malloc = bump_malloc and sz = 64 and owns = 1 and h = "0x2000"
      and free = "\<lambda>_ h. h" and data = 0 and type = 0, OF law] m
  show ?thesis by auto
qed

end
