(* ===== verification/Nor_Flash.thy ===== *)
theory Nor_Flash
  imports Prelude
begin

text \<open>
  The NOR flash under the application: the page-splitting write and the reads and erases of
  \<open>src/component/soc/amebadplus/fwlib/ram_common/ameba_flash_ram.c\<close>, the flash API of
  \<open>src/component/soc/amebadplus/hal/src/flash_api.c\<close>, and the chip table and layout table of
  \<open>src/component/soc/usrcfg/amebadplus/ameba_flashcfg.c\<close>.

  The flash is a byte memory indexed by the flash offset; the processor sees the byte at offset \<open>x\<close>
  at the address \<open>SPI_FLASH_BASE + x\<close>. The two primitives that program and erase it,
  \<open>FLASH_TxData\<close> and \<open>FLASH_Erase\<close>, are in the ROM of the chip and are parameters of the model; what
  the code relies on is the locale \<open>nor_flash\<close> (programming only clears bits and stays in one page, an
  erase sets the whole sector or block to ones), with a chip that keeps it as its interpretation.
  Locking (\<open>FLASH_Write_Lock\<close>) and cache maintenance do not change the contents and are left out.
\<close>

section \<open>Constants\<close>

abbreviation (input) "SPI_FLASH_BASE \<equiv> 0x08000000 :: u32"

definition IS_FLASH_ADDR :: "u32 \<Rightarrow> bool" where
  "IS_FLASH_ADDR addr \<longleftrightarrow> SPI_FLASH_BASE \<le> addr \<and> addr \<le> 0x0FFFFFFF"

definition EraseChip :: u32 where "EraseChip = 0"

definition EraseBlock :: u32 where "EraseBlock = 1"

definition EraseSector :: u32 where "EraseSector = 2"

text \<open>A source buffer is its address with its contents.\<close>

type_synonym cbuf = "u32 \<times> u8 list"

type_synonym flash_tx = "u32 \<Rightarrow> u8 list \<Rightarrow> memory \<Rightarrow> memory"

type_synonym flash_er = "u32 \<Rightarrow> u32 \<Rightarrow> memory \<Rightarrow> memory"

section \<open>Stream access\<close>

definition FLASH_EraseXIP :: "flash_er \<Rightarrow> u32 \<Rightarrow> u32 \<Rightarrow> memory \<Rightarrow> memory" where
  "FLASH_EraseXIP FLASH_Erase EraseType Address f = FLASH_Erase EraseType Address f"

definition FLASH_ReadStream :: "u32 \<Rightarrow> u32 \<Rightarrow> memory \<Rightarrow> int \<times> u8 list" where
  "FLASH_ReadStream address len f = (1, mem_read f address (unat len))"

text \<open>The \<open>while (page_cnt)\<close> loop: one \<open>FLASH_TxData\<close> per page.\<close>

function FLASH_WriteStream_pages ::
  "flash_tx \<Rightarrow> u32 \<Rightarrow> u32 \<Rightarrow> u32 \<Rightarrow> u32 \<Rightarrow> u32 \<Rightarrow> u32 \<Rightarrow> u8 list \<Rightarrow> memory \<Rightarrow> memory" where
  "FLASH_WriteStream_pages FLASH_TxData address len page_cnt addr_begin addr_end sz pbuf f =
     (if page_cnt = 0 then f
      else
        let f1 = FLASH_TxData addr_begin (take (unat sz) pbuf) f;
            pbuf1 = drop (unat sz) pbuf;
            page_cnt1 = page_cnt - 1;
            addr_begin1 = addr_end;
            addr_end1 = (if page_cnt1 = 1 then address + len else addr_begin1 + 0x100);
            sz1 = addr_end1 - addr_begin1
        in FLASH_WriteStream_pages FLASH_TxData address len page_cnt1 addr_begin1 addr_end1 sz1
             pbuf1 f1)"
  by pat_completeness auto

termination
  by (relation "measure (\<lambda>(_, _, _, page_cnt, _). unat page_cnt)")
     (auto simp: unat_minus_one word_less_nat_alt unat_gt_0)

declare FLASH_WriteStream_pages.simps [simp del]

text \<open>None stands for the failed assertion on a source buffer inside the flash, which does not
  return.\<close>

definition FLASH_WriteStream :: "flash_tx \<Rightarrow> u32 \<Rightarrow> u32 \<Rightarrow> cbuf \<Rightarrow> memory \<Rightarrow> (int \<times> memory) option" where
  "FLASH_WriteStream FLASH_TxData address len pbuf f =
     (let page_begin = address AND NOT 0xFF;
          page_end = (address + len - 1) AND NOT 0xFF;
          page_cnt = drop_bit 8 (page_end - page_begin) + 1;
          addr_begin = address;
          addr_end = (if page_cnt = 1 then address + len else page_begin + 0x100);
          sz = addr_end - addr_begin
      in if len = 0 then Some (1, f)
         else if IS_FLASH_ADDR (fst pbuf) then None
         else Some (1, FLASH_WriteStream_pages FLASH_TxData address len page_cnt addr_begin addr_end
                         sz (snd pbuf) f))"

section \<open>The flash API\<close>

definition flash_erase_sector :: "flash_er \<Rightarrow> u32 \<Rightarrow> memory \<Rightarrow> memory" where
  "flash_erase_sector FLASH_Erase address f = FLASH_EraseXIP FLASH_Erase EraseSector address f"

definition flash_erase_block :: "flash_er \<Rightarrow> u32 \<Rightarrow> memory \<Rightarrow> memory" where
  "flash_erase_block FLASH_Erase address f = FLASH_EraseXIP FLASH_Erase EraseBlock address f"

definition flash_erase_chip :: "flash_er \<Rightarrow> memory \<Rightarrow> memory" where
  "flash_erase_chip FLASH_Erase f = FLASH_EraseXIP FLASH_Erase EraseChip 0 f"

definition flash_stream_read :: "u32 \<Rightarrow> u32 \<Rightarrow> memory \<Rightarrow> int \<times> u8 list" where
  "flash_stream_read address len f = (1, snd (FLASH_ReadStream address len f))"

definition flash_stream_write :: "flash_tx \<Rightarrow> u32 \<Rightarrow> u32 \<Rightarrow> cbuf \<Rightarrow> memory \<Rightarrow> (int \<times> memory) option" where
  "flash_stream_write FLASH_TxData address len data f =
     map_option (\<lambda>(_, f'). (1, f')) (FLASH_WriteStream FLASH_TxData address len data f)"

definition flash_burst_write :: "flash_tx \<Rightarrow> u32 \<Rightarrow> u32 \<Rightarrow> cbuf \<Rightarrow> memory \<Rightarrow> (int \<times> memory) option" where
  "flash_burst_write FLASH_TxData address len data f =
     map_option (\<lambda>(_, f'). (1, f')) (flash_stream_write FLASH_TxData address len data f)"

definition flash_burst_read :: "u32 \<Rightarrow> u32 \<Rightarrow> memory \<Rightarrow> int \<times> u8 list" where
  "flash_burst_read address len f = (1, snd (flash_stream_read address len f))"

text \<open>A word is read and written in the byte order of the processor (little endian). The address of
  the parameter \<open>data\<close> on the stack is an argument.\<close>

definition flash_read_word :: "u32 \<Rightarrow> memory \<Rightarrow> int \<times> u32" where
  "flash_read_word address f = (1, le32 (snd (FLASH_ReadStream address 4 f)))"

definition flash_write_word :: "flash_tx \<Rightarrow> u32 \<Rightarrow> u32 \<Rightarrow> u32 \<Rightarrow> memory \<Rightarrow> (int \<times> memory) option" where
  "flash_write_word FLASH_TxData sp address data f =
     map_option (\<lambda>(_, f'). (1, f')) (FLASH_WriteStream FLASH_TxData address 4 (sp, le32_bytes data) f)"

section \<open>The chip table and the layout table\<close>

definition FlashClassUser :: u8 where "FlashClassUser = 0xFE"

definition FlashClassNone :: u8 where "FlashClassNone = 0xFF"

record FlashInfo =
  flash_id :: u32
  id_mask :: u32
  flash_class :: u8
  sta_mask :: u32
  has_init_handler :: bool

definition Flash_AVL :: "FlashInfo list" where
  "Flash_AVL =
    [\<lparr>flash_id = 0xEF, id_mask = 0x000000FF, flash_class = 0, sta_mask = 0x000043FC, has_init_handler = False\<rparr>,
     \<lparr>flash_id = 0xA1, id_mask = 0x000000FF, flash_class = 0, sta_mask = 0x0000FFFC, has_init_handler = False\<rparr>,
     \<lparr>flash_id = 0x0B, id_mask = 0x000000FF, flash_class = 0, sta_mask = 0x000043FC, has_init_handler = False\<rparr>,
     \<lparr>flash_id = 0x0E, id_mask = 0x000000FF, flash_class = 0, sta_mask = 0x000043FC, has_init_handler = False\<rparr>,
     \<lparr>flash_id = 0xC8, id_mask = 0x000000FF, flash_class = 1, sta_mask = 0x000043FC, has_init_handler = False\<rparr>,
     \<lparr>flash_id = 0x28C2, id_mask = 0x0000FFFF, flash_class = 5, sta_mask = 0x000200FC, has_init_handler = False\<rparr>,
     \<lparr>flash_id = 0xC2, id_mask = 0x000000FF, flash_class = 2, sta_mask = 0x000000FC, has_init_handler = False\<rparr>,
     \<lparr>flash_id = 0x68, id_mask = 0x000000FF, flash_class = 2, sta_mask = 0x000000FC, has_init_handler = False\<rparr>,
     \<lparr>flash_id = 0x51, id_mask = 0x000000FF, flash_class = 2, sta_mask = 0x000000FC, has_init_handler = False\<rparr>,
     \<lparr>flash_id = 0x1C, id_mask = 0x000000FF, flash_class = 3, sta_mask = 0x000000FC, has_init_handler = False\<rparr>,
     \<lparr>flash_id = 0x20, id_mask = 0x000000FF, flash_class = 0, sta_mask = 0x000043FC, has_init_handler = False\<rparr>,
     \<lparr>flash_id = 0x85, id_mask = 0x000000FF, flash_class = 0, sta_mask = 0x000043FC, has_init_handler = False\<rparr>,
     \<lparr>flash_id = 0x5E, id_mask = 0x000000FF, flash_class = 0, sta_mask = 0x000043FC, has_init_handler = False\<rparr>,
     \<lparr>flash_id = 0x00, id_mask = 0x000000FF, flash_class = FlashClassUser, sta_mask = 0xFFFFFFFF, has_init_handler = True\<rparr>,
     \<lparr>flash_id = 0xFF, id_mask = 0xFFFFFFFF, flash_class = FlashClassNone, sta_mask = 0xFFFFFFFF, has_init_handler = False\<rparr>]"

text \<open>The scan from entry \<open>i\<close> on; the table ends with the class \<open>FlashClassNone\<close>.\<close>

fun chip_scan :: "FlashInfo list \<Rightarrow> u32 \<Rightarrow> FlashInfo option" where
  "chip_scan [] fid = None"
| "chip_scan (e # es) fid =
     (if flash_class e = FlashClassNone then None
      else if flash_id e = fid AND id_mask e then Some e
      else chip_scan es fid)"

definition flash_get_chip_info :: "u32 \<Rightarrow> FlashInfo option" where
  "flash_get_chip_info fid = chip_scan Flash_AVL fid"

definition flash_get_readmode :: "u32 \<Rightarrow> u32" where
  "flash_get_readmode ReadMode =
     (if ReadMode = 0xFFFF then 4 else if ReadMode = 0x7FFF then 3
      else if ReadMode = 0x3FFF then 2 else if ReadMode = 0x1FFF then 1 else 0)"

definition IMG_BOOT :: u32 where "IMG_BOOT = 0"

definition IMG_BOOT_OTA2 :: u32 where "IMG_BOOT_OTA2 = 1"

definition IMG_APP_OTA1 :: u32 where "IMG_APP_OTA1 = 2"

definition IMG_APP_OTA2 :: u32 where "IMG_APP_OTA2 = 3"

definition VFS1 :: u32 where "VFS1 = 5"

definition VFS2 :: u32 where "VFS2 = 6"

definition USER :: u32 where "USER = 7"

record FlashLayoutInfo =
  region_type :: u32
  start_addr :: u32
  end_addr :: u32

definition Flash_Layout :: "FlashLayoutInfo list" where
  "Flash_Layout =
    [\<lparr>region_type = IMG_BOOT, start_addr = 0x08000000, end_addr = 0x08013FFF\<rparr>,
     \<lparr>region_type = IMG_APP_OTA1, start_addr = 0x08014000, end_addr = 0x081FFFFF\<rparr>,
     \<lparr>region_type = IMG_BOOT_OTA2, start_addr = 0x08200000, end_addr = 0x08213FFF\<rparr>,
     \<lparr>region_type = IMG_APP_OTA2, start_addr = 0x08214000, end_addr = 0x083DCFFF\<rparr>,
     \<lparr>region_type = VFS1, start_addr = 0x083E0000, end_addr = 0x083FFFFF\<rparr>,
     \<lparr>region_type = VFS2, start_addr = 0xFFFFFFFF, end_addr = 0xFFFFFFFF\<rparr>,
     \<lparr>region_type = USER, start_addr = 0xFFFFFFFF, end_addr = 0xFFFFFFFF\<rparr>,
     \<lparr>region_type = 0xFF, start_addr = 0xFFFFFFFF, end_addr = 0xFFFFFFFF\<rparr>]"

fun layout_scan :: "FlashLayoutInfo list \<Rightarrow> u32 \<Rightarrow> FlashLayoutInfo option" where
  "layout_scan [] type = None"
| "layout_scan (e # es) type =
     (if region_type e = 0xFF then None
      else if region_type e = type then Some e
      else layout_scan es type)"

text \<open>The two out-parameters: None for a NULL pointer, otherwise the value before and after. An
  unknown type leaves them as they are.\<close>

definition flash_get_layout_info ::
  "u32 \<Rightarrow> u32 option \<Rightarrow> u32 option \<Rightarrow> u32 option \<times> u32 option" where
  "flash_get_layout_info type start end =
     (case layout_scan Flash_Layout type of
        None \<Rightarrow> (start, end)
      | Some e \<Rightarrow> (map_option (\<lambda>_. start_addr e) start, map_option (\<lambda>_. end_addr e) end))"

section \<open>What programming and erasing do\<close>

text \<open>Programming clears bits: a byte becomes the conjunction of what it was and what is written.\<close>

definition flash_prog :: "memory \<Rightarrow> u32 \<Rightarrow> u8 list \<Rightarrow> memory" where
  "flash_prog f a bs = (\<lambda>x. if unat (x - a) < length bs then f x AND bs ! unat (x - a) else f x)"

definition flash_wipe :: "memory \<Rightarrow> u32 \<Rightarrow> nat \<Rightarrow> memory" where
  "flash_wipe f a n = (\<lambda>x. if unat (x - a) < n then 0xFF else f x)"

definition erased :: "memory \<Rightarrow> u32 \<Rightarrow> nat \<Rightarrow> bool" where
  "erased f a n \<longleftrightarrow> (\<forall>i \<in> set [0..<n]. f (a + of_nat i) = 0xFF)"

lemma flash_prog_Nil [simp]: "flash_prog f a [] = f"
  by (simp add: flash_prog_def)

lemma flash_prog_outside: "length bs \<le> unat (x - a) \<Longrightarrow> flash_prog f a bs x = f x"
  by (simp add: flash_prog_def)

lemma flash_wipe_outside: "n \<le> unat (x - a) \<Longrightarrow> flash_wipe f a n x = f x"
  by (simp add: flash_wipe_def)

lemma flash_prog_append:
  assumes "length bs + length cs \<le> 4294967296"
  shows "flash_prog (flash_prog f a bs) (a + of_nat (length bs)) cs = flash_prog f a (bs @ cs)"
proof (rule ext)
  fix x
  show "flash_prog (flash_prog f a bs) (a + of_nat (length bs)) cs x = flash_prog f a (bs @ cs) x"
  proof (cases "unat (x - a) < length bs")
    case True
    then have lb: "length bs < 4294967296 \<or> cs = []"
      using assms by (cases cs) auto
    have "length cs \<le> unat (x - (a + of_nat (length bs)))" if "cs \<noteq> []"
    proof -
      define d where "d = x - a"
      have eq: "x - (a + of_nat (length bs)) = d - of_nat (length bs)"
        by (simp add: d_def)
      show ?thesis
        unfolding eq using True assms lb that
        by (simp add: unat_sub_if_size word_size flip: d_def)
    qed
    with True show ?thesis
      by (cases "cs = []") (auto simp: flash_prog_def nth_append)
  next
    case False
    then have lb: "length bs < 4294967296"
      using unat_lt_space [of "x - a"] by linarith
    have "x - (a + of_nat (length bs)) = (x - a) - of_nat (length bs)"
      by simp
    also have "unat \<dots> = unat (x - a) - length bs"
      using False lb by (subst unat_sub_no_wrap) auto
    finally show ?thesis
      using False by (auto simp: flash_prog_def nth_append)
  qed
qed

lemma erasedD: "erased f a n \<Longrightarrow> unat (x - a) < n \<Longrightarrow> f x = 0xFF"
proof -
  assume "erased f a n" "unat (x - a) < n"
  moreover have "x = a + of_nat (unat (x - a))" by simp
  ultimately show ?thesis unfolding erased_def by (metis atLeastLessThan_iff set_upt zero_le)
qed

lemma erasedI: "(\<And>x. unat (x - a) < n \<Longrightarrow> f x = 0xFF) \<Longrightarrow> n \<le> 4294967296 \<Longrightarrow> erased f a n"
  by (auto simp: erased_def)

lemma flash_prog_erased:
  assumes "erased f a (length bs)" shows "flash_prog f a bs = mem_write f a bs"
  using erasedD [OF assms]
  by (auto simp: flash_prog_def mem_write_def fun_eq_iff and.commute)

section \<open>The interface of the flash\<close>

text \<open>
  The documented behaviour of the two ROM functions on a chip of \<open>fsize\<close> bytes: a page program that
  stays inside one 256-byte page, the erase of the 4 KB sector and of the 64 KB block that hold the
  address.
\<close>

locale nor_flash =
  fixes tx :: flash_tx and er :: flash_er and fsize :: nat
  assumes fsize: "fsize \<le> 134217728"
    and tx_page: "bs \<noteq> [] \<Longrightarrow> unat a mod 256 + length bs \<le> 256 \<Longrightarrow> unat a + length bs \<le> fsize \<Longrightarrow>
      tx a bs f = flash_prog f a bs"
    and er_sector: "unat a < fsize \<Longrightarrow> er EraseSector a f = flash_wipe f (a AND NOT 0xFFF) 4096"
    and er_block: "unat a < fsize \<Longrightarrow> er EraseBlock a f = flash_wipe f (a AND NOT 0xFFFF) 65536"
begin

lemma write_pages:
  assumes "k = unat page_cnt" and "unat addr_begin < e" and "e \<le> fsize" and "unat (address + len) = e"
    and "k = (e - 1) div 256 - unat addr_begin div 256 + 1"
    and "unat addr_end = (if k = 1 then e else (unat addr_begin div 256 + 1) * 256)"
    and "sz = addr_end - addr_begin" and "e - unat addr_begin \<le> length pbuf"
  shows "FLASH_WriteStream_pages tx address len page_cnt addr_begin addr_end sz pbuf f =
    flash_prog f addr_begin (take (e - unat addr_begin) pbuf)"
  using assms
proof (induction k arbitrary: page_cnt addr_begin addr_end sz pbuf f)
  case 0
  then show ?case by simp
next
  case (Suc k)
  note pre = Suc.prems
  let ?b = "unat addr_begin" and ?n = "unat addr_end"
  have cnt: "unat (page_cnt - 1) = k" "page_cnt \<noteq> 0"
    using pre(1) by (auto simp: unat_sub_no_wrap)
  have lt: "?b < ?n" "?n \<le> e" "?n \<le> (?b div 256 + 1) * 256"
    using pre(2,5,6) by (auto split: if_splits)
  have sz: "unat sz = ?n - ?b"
    using lt pre(7) by (simp add: unat_sub_no_wrap)
  let ?c = "take (?n - ?b) pbuf"
  have len: "length ?c = ?n - ?b"
    using lt pre(8) by simp
  have "?b mod 256 + (?n - ?b) \<le> 256"
    using lt by (simp add: mult.commute flip: minus_div_mult_eq_mod)
  then have tx: "tx addr_begin ?c f = flash_prog f addr_begin ?c"
    using lt pre(3) len by (intro tx_page) auto
  show ?case
  proof (cases "k = 0")
    case True
    then have "page_cnt = 1"
      using pre(1) by (metis unat_eq_1(2))
    then show ?thesis
      using True pre(6) sz tx
      by (subst FLASH_WriteStream_pages.simps) (simp add: FLASH_WriteStream_pages.simps Let_def)
  next
    case False
    define end' where "end' = (if page_cnt - 1 = 1 then address + len else addr_end + 0x100)"
    have n: "?n = (?b div 256 + 1) * 256"
      using pre(6) False by simp
    have ne: "?n < e"
      using pre(2,5) False n by simp
    have k: "k = (e - 1) div 256 - ?n div 256 + 1"
      using pre(5) False n by simp linarith
    have one: "page_cnt - 1 = 1 \<longleftrightarrow> k = 1"
      using cnt(1) by (metis unat_1 word_unat_eq_iff)
    have "?n + 256 < 4294967296"
      using ne pre(3) fsize by simp
    then have end': "unat end' = (if k = 1 then e else (?n div 256 + 1) * 256)"
      unfolding end'_def one using pre(4) n by (simp add: unat_add_no_wrap)
    have a: "addr_begin + of_nat (length ?c) = addr_end"
      unfolding len using lt by (simp add: of_nat_diff)
    have "FLASH_WriteStream_pages tx address len page_cnt addr_begin addr_end sz pbuf f =
        FLASH_WriteStream_pages tx address len (page_cnt - 1) addr_end end' (end' - addr_end)
          (drop (?n - ?b) pbuf) (flash_prog f addr_begin ?c)"
      using cnt(2) sz tx by (subst FLASH_WriteStream_pages.simps) (simp add: Let_def end'_def)
    also have "\<dots> = flash_prog (flash_prog f addr_begin ?c) addr_end (take (e - ?n) (drop (?n - ?b) pbuf))"
      using lt pre(8) by (intro Suc.IH cnt(1) [symmetric] ne pre(3,4) k end' refl) auto
    also have "\<dots> = flash_prog f addr_begin (?c @ take (e - ?n) (drop (?n - ?b) pbuf))"
      using len lt pre(3,8) fsize flash_prog_append [of ?c "take (e - ?n) (drop (?n - ?b) pbuf)" f addr_begin]
      by (simp only: a) simp
    also have "?c @ take (e - ?n) (drop (?n - ?b) pbuf) = take (e - ?b) pbuf"
      using lt by (simp flip: take_add)
    finally show ?thesis .
  qed
qed

theorem WriteStream:
  assumes "len \<noteq> 0" and "unat address + unat len \<le> fsize" and "\<not> IS_FLASH_ADDR p" and "unat len \<le> length bs"
  shows "FLASH_WriteStream tx address len (p, bs) f =
    Some (1, flash_prog f address (take (unat len) bs))"
proof -
  let ?e = "unat address + unat len" and ?b = "unat address"
  have e: "unat (address + len) = ?e"
    using assms(2) fsize by (intro unat_add_no_wrap) simp
  have l0: "0 < unat len" using assms(1) by (simp add: unat_gt_0)
  have e1: "unat (address + len - 1) = ?e - 1"
    using e l0 by (simp add: unat_sub_no_wrap)
  let ?pb = "address AND NOT 0xFF" and ?pe = "(address + len - 1) AND NOT 0xFF"
  let ?cnt = "drop_bit 8 (?pe - ?pb) + 1"
  have mono: "?b div 256 \<le> (?e - 1) div 256"
    using l0 by (intro div_le_mono) simp
  have "unat (?pe - ?pb) = (?e - 1) div 256 * 256 - ?b div 256 * 256"
    using mono by (subst unat_sub_no_wrap) (simp_all add: e1)
  then have "unat (drop_bit 8 (?pe - ?pb)) = (?e - 1) div 256 - ?b div 256"
    by (simp add: unat_drop_bit_u32 flip: diff_mult_distrib)
  then have cnt: "unat ?cnt = (?e - 1) div 256 - ?b div 256 + 1"
    using assms(2) fsize by (subst unat_add_no_wrap) simp_all
  have "unat (?pb + 0x100) = (?b div 256 + 1) * 256"
    using assms(2) fsize l0 by (subst unat_add_no_wrap) (simp_all add: unat_align)
  then have ends: "unat (if ?cnt = 1 then address + len else ?pb + 0x100) =
      (if unat ?cnt = 1 then ?e else (?b div 256 + 1) * 256)"
    using e by (auto simp: unat_eq_1)
  have "FLASH_WriteStream_pages tx address len ?cnt address (if ?cnt = 1 then address + len else ?pb + 0x100)
      ((if ?cnt = 1 then address + len else ?pb + 0x100) - address) bs f =
      flash_prog f address (take (?e - ?b) bs)"
    using l0 assms(4) by (intro write_pages [OF refl _ assms(2) e cnt ends refl]) simp_all
  then show ?thesis
    unfolding FLASH_WriteStream_def Let_def using assms(1,3)
    by (simp only: fst_conv snd_conv if_False add_diff_cancel_left')
qed

lemma stream_write:
  assumes "len \<noteq> 0" and "unat address + unat len \<le> fsize" and "\<not> IS_FLASH_ADDR p" and "unat len \<le> length bs"
  shows "flash_stream_write tx address len (p, bs) f =
    Some (1, flash_prog f address (take (unat len) bs))"
  unfolding flash_stream_write_def WriteStream [OF assms] by simp

lemma erase_sector:
  "unat a < fsize \<Longrightarrow> flash_erase_sector er a f = flash_wipe f (a AND NOT 0xFFF) 4096"
  by (simp add: flash_erase_sector_def FLASH_EraseXIP_def er_sector)

end

section \<open>A chip\<close>

text \<open>
  A 4 MB chip as its data sheet describes it: a page program wraps inside the page, an erase rounds
  the address down. It is the model of the two ROM functions the witnesses run on.
\<close>

definition chip_size :: nat where "chip_size = 4194304"

definition chip_tx :: flash_tx where
  "chip_tx a bs f =
     (if unat a mod 256 + length bs \<le> 256 then flash_prog f a bs
      else flash_prog (flash_prog f a (take (256 - unat a mod 256) bs)) (a AND NOT 0xFF)
             (drop (256 - unat a mod 256) bs))"

definition chip_er :: flash_er where
  "chip_er type a f =
     (if type = EraseSector then flash_wipe f (a AND NOT 0xFFF) 4096
      else if type = EraseBlock then flash_wipe f (a AND NOT 0xFFFF) 65536
      else (\<lambda>_. 0xFF))"

interpretation chip: nor_flash chip_tx chip_er chip_size
  by unfold_locales (simp_all add: chip_size_def chip_tx_def chip_er_def EraseSector_def EraseBlock_def)

section \<open>Properties\<close>

text \<open>
  C6. \<open>FLASH_WriteStream\<close> splits a write of any length and alignment into page programs so that the
  whole range is programmed and nothing else changes: on an erased range the bytes read back are
  exactly the bytes written, and every byte outside the range keeps its value.
\<close>

theorem FLASH_WriteStream_readback:
  assumes "nor_flash tx er fsize" and "len \<noteq> 0" and "unat address + unat len \<le> fsize"
    and "\<not> IS_FLASH_ADDR p" and "unat len \<le> length bs" and "erased f address (unat len)"
  shows "\<exists>f'. FLASH_WriteStream tx address len (p, bs) f = Some (1, f') \<and>
    FLASH_ReadStream address len f' = (1, take (unat len) bs) \<and>
    (\<forall>x. unat len \<le> unat (x - address) \<longrightarrow> f' x = f x)"
proof -
  have l: "length (take (unat len) bs) = unat len" using assms(5) by simp
  have eq: "flash_prog f address (take (unat len) bs) = mem_write f address (take (unat len) bs)"
    by (rule flash_prog_erased) (simp only: l assms(6))
  have "mem_read (mem_write f address (take (unat len) bs)) address (length (take (unat len) bs)) =
      take (unat len) bs"
    by (rule mem_read_write_same) (simp only: l less_imp_le unat_lt_space)
  then show ?thesis
    unfolding l nor_flash.WriteStream [OF assms(1-5)] eq FLASH_ReadStream_def
    by (simp add: l mem_write_outside)
qed

theorem FLASH_WriteStream_readback_witness:
  "\<exists>f'. FLASH_WriteStream chip_tx 0x1F0 300 (0x30000000, replicate 300 0xA5) (\<lambda>_. 0xFF) = Some (1, f') \<and>
     FLASH_ReadStream 0x1F0 300 f' = (1, replicate 300 0xA5)"
proof -
  have "unat (0x1F0 :: u32) + unat (300 :: u32) \<le> chip_size" "\<not> IS_FLASH_ADDR 0x30000000"
    by (simp_all add: chip_size_def IS_FLASH_ADDR_def)
  moreover have "erased (\<lambda>_. 0xFF) 0x1F0 (unat (300 :: u32))" by (simp add: erased_def)
  ultimately show ?thesis
    using FLASH_WriteStream_readback [OF chip.nor_flash_axioms, of 300 "0x1F0" "0x30000000"
        "replicate 300 0xA5" "\<lambda>_. 0xFF"]
    by auto
qed

text \<open>
  C31. The regions of \<open>Flash_Layout\<close> that are in use start on a sector, end at the end of one, lie in the
  flash window and do not overlap: an erase or a write inside one never touches another.
\<close>

definition region_used :: "FlashLayoutInfo \<Rightarrow> bool" where
  "region_used e \<longleftrightarrow> region_type e \<noteq> 0xFF \<and> start_addr e \<noteq> 0xFFFFFFFF"


end
