(* ===== verification/Ota_Storage.thy ===== *)
theory Ota_Storage
  imports Nor_Flash "HOL-Library.Monad_Syntax"
begin

text \<open>
  The storage side of the firmware update: which slot is running
  (\<open>src/component/soc/amebadplus/misc/ameba_ota.c\<close>) and the storage layer of the update
  (\<open>src/component/ota/ota_storage.c\<close>), with the structures of \<open>ota_internal.h\<close> they share with the
  core.

  The table \<open>IMG_ADDR\<close> (image, slot) is explicit state. The image identifiers come from the downloaded
  file, so an access to a table can be out of range; the model gives None there, and None is also a
  failed assertion. The hardware the code reads (the remap registers, the one-time-programmable
  word with the address of the second bootloader) is an argument.
\<close>

section \<open>Structures\<close>

definition OTA_ERR :: int where "OTA_ERR = -1"

definition OTA_OK :: int where "OTA_OK = 0"

definition OTA_FINISH :: int where "OTA_FINISH = 1"

abbreviation (input) "OTA_IMGID_BOOT \<equiv> 0"

abbreviation (input) "OTA_IMGID_APP \<equiv> 1"

abbreviation (input) "OTA_IMGID_MAX \<equiv> 2"

abbreviation (input) "OTA_INDEX_1 \<equiv> 0"

abbreviation (input) "OTA_INDEX_2 \<equiv> 1"

abbreviation (input) "sizeof_manifest \<equiv> 24"

record ota_sub_hdr =
  Signature :: "u8 list"
  ImgHdrLen :: u32
  Checksum :: u32
  ImgLen :: u32
  Offset :: u32
  ImgID :: u32

text \<open>A manifest is its 24 bytes (\<open>AuthHeader_TypeDef\<close>), of which the first eight are the pattern.\<close>

record ota_hdr_manager =
  FwVer :: u32
  HdrNum :: u32
  FileImgHdr :: "ota_sub_hdr list"
  Manifest :: "u8 list list"
  ValidImgCnt :: u8

section \<open>Tables\<close>

type_synonym img_table = "u32 list list"

definition tab_get :: "img_table \<Rightarrow> nat \<Rightarrow> nat \<Rightarrow> u32 option" where
  "tab_get T i j = (if i < length T \<and> j < length (T ! i) then Some (T ! i ! j) else None)"

definition tab_set :: "img_table \<Rightarrow> nat \<Rightarrow> nat \<Rightarrow> u32 \<Rightarrow> img_table" where
  "tab_set T i j v = T[i := (T ! i)[j := v]]"

definition nth_opt :: "'a list \<Rightarrow> nat \<Rightarrow> 'a option" where
  "nth_opt xs i = (if i < length xs then Some (xs ! i) else None)"

text \<open>\<open>flash_get_layout_info (type, &IMG_ADDR[i][j], NULL)\<close>\<close>

definition layout_start_into :: "u32 \<Rightarrow> nat \<Rightarrow> nat \<Rightarrow> img_table \<Rightarrow> img_table" where
  "layout_start_into type i j T =
     (case fst (flash_get_layout_info type (Some (T ! i ! j)) None) of
        Some v \<Rightarrow> tab_set T i j v
      | None \<Rightarrow> T)"

text \<open>\<open>flash_get_layout_info (type, NULL, &end_addr)\<close>\<close>

definition layout_end_into :: "u32 \<Rightarrow> u32 \<Rightarrow> u32" where
  "layout_end_into type end =
     (case snd (flash_get_layout_info type None (Some end)) of Some v \<Rightarrow> v | None \<Rightarrow> end)"

definition img_addr_load :: "img_table \<Rightarrow> img_table" where
  "img_addr_load T =
     layout_start_into IMG_APP_OTA2 OTA_IMGID_APP OTA_INDEX_2
      (layout_start_into IMG_APP_OTA1 OTA_IMGID_APP OTA_INDEX_1
        (layout_start_into IMG_BOOT_OTA2 OTA_IMGID_BOOT OTA_INDEX_2
          (layout_start_into IMG_BOOT OTA_IMGID_BOOT OTA_INDEX_1 T)))"

section \<open>The running slot\<close>

text \<open>\<open>RSIP_REMAPxOR\<close> of the eight remap entries is the list \<open>RSIP\<close>; the parameter of the C function is
  an 8-bit number. The result is the slot and the table, which is loaded on first use.\<close>

definition ota_get_cur_index :: "u32 list \<Rightarrow> u8 \<Rightarrow> img_table \<Rightarrow> (u8 \<times> img_table) option" where
  "ota_get_cur_index RSIP img_id T = do {
     AddrStart \<leftarrow> nth_opt RSIP (unat img_id);
     a \<leftarrow> tab_get T (unat img_id) OTA_INDEX_1;
     let T1 = (if a = 0 then img_addr_load T else T);
     if AddrStart AND 1 \<noteq> 0 then
       let PhyAddr = push_bit 5 (drop_bit 9 AddrStart) in
       if img_id = OTA_IMGID_APP then do {
         b \<leftarrow> tab_get T1 (unat img_id) OTA_INDEX_1;
         Some (if PhyAddr - 0x2000 = b then OTA_INDEX_1 else OTA_INDEX_2, T1)
       }
       else do {
         b \<leftarrow> tab_get T1 (unat img_id) OTA_INDEX_1;
         Some (if PhyAddr - 0x1000 = b then OTA_INDEX_1 else OTA_INDEX_2, T1)
       }
     else Some (OTA_INDEX_1, T1)
   }"

definition ota_check_bootloader_ota2 :: "u16 \<Rightarrow> img_table \<Rightarrow> u8 option" where
  "ota_check_bootloader_ota2 tmp T = do {
     let ImgAddr = (if tmp \<noteq> 0xFFFF then push_bit 12 (ucast tmp) else 0);
     b \<leftarrow> tab_get T OTA_IMGID_BOOT OTA_INDEX_2;
     Some (if ImgAddr = b then 0 else 1)
   }"

section \<open>The storage layer\<close>

definition ota_storage_init :: "img_table \<Rightarrow> (int \<times> img_table) option" where
  "ota_storage_init T = do {
     a \<leftarrow> tab_get T OTA_IMGID_APP OTA_INDEX_1;
     Some (OTA_OK, if a = 0 then img_addr_load T else T)
   }"

definition ota_storage_get_image_addr :: "img_table \<Rightarrow> u8 \<Rightarrow> u8 \<Rightarrow> u32 option" where
  "ota_storage_get_image_addr T imgId slotIdx =
     (if OTA_IMGID_MAX \<le> imgId \<or> 2 \<le> slotIdx then Some 0
      else tab_get T (unat imgId) (unat slotIdx))"

text \<open>The loop of \<open>ota_storage_check_layout\<close> from \<open>index\<close> on, with its two variables \<open>end_addr\<close> and
  \<open>slotIdx\<close>.\<close>

function check_layout_loop ::
  "u32 list \<Rightarrow> ota_hdr_manager \<Rightarrow> nat \<Rightarrow> u32 \<Rightarrow> u8 \<Rightarrow> img_table \<Rightarrow> (int \<times> img_table) option" where
  "check_layout_loop RSIP hm index end_addr0 slotIdx T =
     (if index < unat (ValidImgCnt hm) then do {
        h \<leftarrow> nth_opt (FileImgHdr hm) index;
        (cur, T1) \<leftarrow> ota_get_cur_index RSIP (ucast (ImgID h)) T;
        let slot = (if cur = OTA_INDEX_1 then OTA_INDEX_2 else slotIdx);
        let e =
          (if ImgID h = OTA_IMGID_BOOT then
             if slot = OTA_INDEX_1 then layout_end_into IMG_BOOT end_addr0
             else layout_end_into IMG_BOOT_OTA2 end_addr0
           else if ImgID h = OTA_IMGID_APP then
             if slot = OTA_INDEX_1 then layout_end_into IMG_APP_OTA1 end_addr0
             else layout_end_into IMG_APP_OTA2 end_addr0
           else end_addr0);
        start \<leftarrow> tab_get T1 (unat (ImgID h)) (unat slot);
        if e - start < ImgLen h then Some (OTA_ERR, T1)
        else check_layout_loop RSIP hm (index + 1) e slot T1
      }
      else Some (OTA_OK, T))"
  by pat_completeness auto

termination
  by (relation "measure (\<lambda>(_, hm, index, _). unat (ValidImgCnt hm) - index)") auto

declare check_layout_loop.simps [simp del]

definition ota_storage_check_layout ::
  "u32 list \<Rightarrow> ota_hdr_manager \<Rightarrow> img_table \<Rightarrow> (int \<times> img_table) option" where
  "ota_storage_check_layout RSIP hm T = check_layout_loop RSIP hm 0 0 OTA_INDEX_1 T"

text \<open>A byte of the address space: the flash window, or what else the bus has there.\<close>

definition bus_read :: "memory \<Rightarrow> memory \<Rightarrow> u32 \<Rightarrow> u8" where
  "bus_read bus f a = (if IS_FLASH_ADDR a then f (a - SPI_FLASH_BASE) else bus a)"

definition add_bytes :: "u32 \<Rightarrow> u8 list \<Rightarrow> u32" where
  "add_bytes acc bs = foldl (\<lambda>s b. s + ucast b) acc bs"

definition ota_storage_verify_checksum ::
  "memory \<Rightarrow> img_table \<Rightarrow> ota_hdr_manager \<Rightarrow> u8 \<Rightarrow> nat \<Rightarrow> memory \<Rightarrow> int option" where
  "ota_storage_verify_checksum bus T hm slotIdx hdrIdx f = do {
     h \<leftarrow> nth_opt (FileImgHdr hm) hdrIdx;
     addr \<leftarrow> tab_get T (unat (ImgID h)) (unat slotIdx);
     manifest \<leftarrow> nth_opt (Manifest hm) hdrIdx;
     let len = ImgLen h - sizeof_manifest;
     let flash_checksum = add_bytes 0 manifest;
     let flash_checksum = add_bytes flash_checksum
           (map (\<lambda>i. bus_read bus f (addr + of_nat i + sizeof_manifest)) [0..<unat len]);
     Some (if flash_checksum \<noteq> Checksum h then OTA_ERR else OTA_OK)
   }"

definition ota_storage_write :: "flash_tx \<Rightarrow> u32 \<Rightarrow> cbuf \<Rightarrow> u32 \<Rightarrow> memory \<Rightarrow> (int \<times> memory) option" where
  "ota_storage_write FLASH_TxData addr data len f =
     (if fst data = 0 \<or> len = 0 then Some (OTA_ERR, f)
      else do {
        (_, f1) \<leftarrow> flash_stream_write FLASH_TxData addr len data f;
        Some (OTA_OK, f1)
      })"

definition ota_storage_read :: "u32 \<Rightarrow> u32 \<Rightarrow> u32 \<Rightarrow> memory \<Rightarrow> int \<times> u8 list" where
  "ota_storage_read addr data len f =
     (if data = 0 \<or> len = 0 then (OTA_ERR, [])
      else (OTA_OK, snd (flash_stream_read addr len f)))"

definition ota_storage_erase_sector :: "flash_er \<Rightarrow> u32 \<Rightarrow> memory \<Rightarrow> memory" where
  "ota_storage_erase_sector FLASH_Erase addr f = flash_erase_sector FLASH_Erase addr f"

text \<open>\<open>strncmp ("OTA", s, 3) == 0\<close>\<close>

definition is_ota_signature :: "u8 list \<Rightarrow> bool" where
  "is_ota_signature s \<longleftrightarrow> take 3 s = [0x4F, 0x54, 0x41]"

text \<open>
  \<open>by_header\<close> is the build option \<open>CONFIG_OTA_SWITCH_BY_VALID_HEADER\<close>, \<open>mf_at\<close> the address of the manifest
  and \<open>sig_at\<close> that of \<open>empty_sig\<close> on the stack.
\<close>

definition ota_storage_update_manifest ::
  "bool \<Rightarrow> flash_tx \<Rightarrow> u32 \<Rightarrow> u32 \<Rightarrow> img_table \<Rightarrow> ota_hdr_manager \<Rightarrow> u8 \<Rightarrow> u8 \<Rightarrow> memory
     \<Rightarrow> (int \<times> memory) option" where
  "ota_storage_update_manifest by_header FLASH_TxData mf_at sig_at T hm slotIdx hdrIdx f = do {
     h \<leftarrow> nth_opt (FileImgHdr hm) (unat hdrIdx);
     addr \<leftarrow> tab_get T (unat (ImgID h)) (unat slotIdx);
     manifest \<leftarrow> nth_opt (Manifest hm) (unat hdrIdx);
     (_, f1) \<leftarrow> ota_storage_write FLASH_TxData (addr - SPI_FLASH_BASE + 8)
                (mf_at + 8, drop 8 manifest) (sizeof_manifest - 8) f;
     (_, f2) \<leftarrow> ota_storage_write FLASH_TxData (addr - SPI_FLASH_BASE) (mf_at, take 8 manifest) 8 f1;
     if by_header then
       if is_ota_signature (Signature h) then do {
         old \<leftarrow> tab_get T (unat (ImgID h)) (unat (slotIdx XOR 1));
         (_, f3) \<leftarrow> ota_storage_write FLASH_TxData (old - SPI_FLASH_BASE) (sig_at, replicate 8 0) 8 f2;
         Some (OTA_OK, f3)
       }
       else Some (OTA_ERR, f2)
     else Some (OTA_OK, f2)
   }"

end
