(* ===== verification/Ota_Transport.thy ===== *)
theory Ota_Transport
  imports Ota_Storage
begin

text \<open>
  The state of the firmware update and its transports: \<open>src/component/ota/include/ota_internal.h\<close>
  (context, download control), \<open>src/component/ota/transport/ota_transport.c\<close> (dispatch on the type),
  \<open>ota_http.c\<close>, \<open>ota_https.c\<close>, \<open>ota_vfs.c\<close> and \<open>ota_whc.c\<close>.

  Sockets, name lookup, TLS, files, the host link, the memory allocator and the user's callbacks are
  the operations of a record \<open>net_ops\<close> over a world of any type. None stands for a fault: an access
  through a NULL pointer or past the end of a buffer, a failed assertion.
\<close>

section \<open>Structures\<close>

abbreviation (input) "OTA_BUF_SIZE \<equiv> 2048"

abbreviation (input) "OTA_HEADER_BAK_LEN \<equiv> 32"

abbreviation (input) "OTA_HEADER_LEN \<equiv> 8"

abbreviation (input) "OTA_SUB_HEADER_LEN \<equiv> 24"

definition OTA_USER :: u8 where "OTA_USER = 0"

definition OTA_HTTP :: u8 where "OTA_HTTP = 1"

definition OTA_HTTPS :: u8 where "OTA_HTTPS = 2"

definition OTA_VFS :: u8 where "OTA_VFS = 3"

definition OTA_WHC :: u8 where "OTA_WHC = 4"

record ota_download_ctrl =
  NextImgFg :: u8
  NextImgBuf :: "u8 list"
  NextImgLen :: int
  ReadBytes :: int
  RemainBytes :: int
  ImgId :: u32
  ImgOffset :: u32
  ImageLen :: u32
  FlashAddr :: u32
  SigCnt :: int
  SigFg :: u8
  SkipBootOTAFg :: u8
  IsGetOTAHdr :: u8
  IsDnldInit :: u8
  slotIdx :: u8
  index :: u8

text \<open>A pointer to a heap block; after \<open>rtos_mem_free\<close> the pointer keeps its value but may not be
  used.\<close>

datatype 'a heap_ptr = Null | Dangling | Ptr 'a

record ota_http_redirect =
  rurl :: "u8 list heap_ptr"
  rlen :: int
  rport :: u16

record ota_http_response =
  status_code :: u32
  parse_status :: u32
  body_len :: u32
  header_len :: u32
  header_bak :: "u8 list option"

text \<open>The static variables of \<open>download_packet_process\<close> (the manifest pointer as the index of the
  manifest it points to) and of \<open>download_percentage\<close>.\<close>

record packet_statics =
  manifest :: nat
  write_sector :: u32
  next_erase_sector :: u32
  psize :: int
  percent_bak :: int

record 'w net_ops =
  op_malloc :: "nat \<Rightarrow> 'w \<Rightarrow> bool \<times> 'w"
  op_read :: "int \<Rightarrow> int \<Rightarrow> 'w \<Rightarrow> int \<times> u8 list \<times> 'w"
  op_write :: "int \<Rightarrow> u8 list \<Rightarrow> 'w \<Rightarrow> int \<times> 'w"
  op_socket :: "'w \<Rightarrow> int \<times> 'w"
  op_gethostbyname :: "u8 list \<Rightarrow> 'w \<Rightarrow> u32 option \<times> 'w"
  op_connect :: "int \<Rightarrow> u32 \<Rightarrow> u16 \<Rightarrow> 'w \<Rightarrow> int \<times> 'w"
  op_close :: "int \<Rightarrow> 'w \<Rightarrow> 'w"
  op_tls_alloc :: "'w \<Rightarrow> bool \<times> 'w"
  op_tls_config :: "'w \<Rightarrow> int \<times> 'w"
  op_tls_setup :: "'w \<Rightarrow> int \<times> 'w"
  op_tls_parse :: "u8 list \<Rightarrow> 'w \<Rightarrow> int \<times> 'w"
  op_tls_handshake :: "bool \<Rightarrow> bool \<Rightarrow> 'w \<Rightarrow> int \<times> 'w"
  op_tls_read :: "int \<Rightarrow> 'w \<Rightarrow> int \<times> u8 list \<times> 'w"
  op_tls_write :: "u8 list \<Rightarrow> 'w \<Rightarrow> int \<times> 'w"
  op_tls_free :: "'w \<Rightarrow> 'w"
  op_fopen :: "u8 list \<Rightarrow> 'w \<Rightarrow> int \<times> 'w"
  op_fread :: "int \<Rightarrow> int \<Rightarrow> 'w \<Rightarrow> int \<times> u8 list \<times> 'w"
  op_fclose :: "int \<Rightarrow> 'w \<Rightarrow> 'w"
  op_whc_read :: "int \<Rightarrow> 'w \<Rightarrow> int \<times> u8 list \<times> 'w"
  op_whc_close :: "'w \<Rightarrow> 'w"

text \<open>The build options the code looks at.\<close>

record ota_cfg =
  WHC_INTF_IPC :: bool
  WHC_CMD_PATH :: bool
  SWITCH_BY_VALID_HEADER :: bool

text \<open>
  The context with what it points to. \<open>otaCtrl\<close> and \<open>otaHdrManager\<close> are the addresses of the two
  structures (0 for NULL), \<open>ctrl\<close> and \<open>hdr\<close> their contents; \<open>rbuf_at\<close> and \<open>rbuf\<close> the receive buffer of
  \<open>ota_core_process\<close>. Strings are byte lists without the terminator, None for NULL.
\<close>

record 'w ota =
  host :: "u8 list option"
  port :: int
  resource :: "u8 list option"
  ca_cert :: "u8 list option"
  client_cert :: "u8 list option"
  private_key :: "u8 list option"
  fd :: int
  ttype :: u8
  tls :: bool
  redirect :: "ota_http_redirect option"
  progress_cb :: bool
  user_read_func :: "(int \<Rightarrow> 'w \<Rightarrow> int \<times> u8 list \<times> 'w) option"
  user_open_func :: "('w \<Rightarrow> int \<times> 'w) option"
  user_close_func :: "('w \<Rightarrow> 'w) option"
  yield_func :: "('w \<Rightarrow> 'w) option"
  otaCtrl :: u32
  otaHdrManager :: u32
  ctrl :: ota_download_ctrl
  hdr :: ota_hdr_manager
  rbuf_at :: u32
  rbuf :: "u8 list"
  stat :: packet_statics
  img :: img_table
  flash :: memory
  progress :: "int list"
  world :: 'w

section \<open>C strings\<close>

text \<open>The string at the start of a buffer; None when the buffer holds no terminator, in which case the
  string functions of the C library, and the log of a response with \<open>%s\<close>, read past its end.\<close>

definition cstr :: "u8 list \<Rightarrow> u8 list option" where
  "cstr buf = (if 0 \<in> set buf then Some (takeWhile (\<lambda>c. c \<noteq> 0) buf) else None)"

definition bytes :: "string \<Rightarrow> u8 list" where
  "bytes s = map of_char s"

fun strstr :: "u8 list \<Rightarrow> u8 list \<Rightarrow> nat option" where
  "strstr [] pat = (if pat = [] then Some 0 else None)"
| "strstr (c # cs) pat =
     (if take (length pat) (c # cs) = pat then Some 0 else map_option Suc (strstr cs pat))"

definition is_digit :: "u8 \<Rightarrow> bool" where
  "is_digit c \<longleftrightarrow> 0x30 \<le> c \<and> c \<le> 0x39"

definition is_space :: "u8 \<Rightarrow> bool" where
  "is_space c \<longleftrightarrow> c = 0x20 \<or> (9 \<le> c \<and> c \<le> 13)"

definition digits_val :: "u8 list \<Rightarrow> int" where
  "digits_val ds = foldl (\<lambda>v d. 10 * v + (uint d - 0x30)) 0 ds"

definition atoi :: "u8 list \<Rightarrow> int" where
  "atoi s =
     (case dropWhile is_space s of
        [] \<Rightarrow> 0
      | c # cs \<Rightarrow>
          if c = 0x2D then - digits_val (takeWhile is_digit cs)
          else if c = 0x2B then digits_val (takeWhile is_digit cs)
          else digits_val (takeWhile is_digit (c # cs)))"

section \<open>HTTP\<close>

text \<open>The result is the host, the port and the resource; None is the NULL url.\<close>

definition parser_url :: "u8 list option \<Rightarrow> (u8 list \<times> u16 \<times> u8 list) option" where
  "parser_url u =
     (case u of
        None \<Rightarrow> None
      | Some url0 \<Rightarrow>
          let url1 = (if strstr url0 (bytes ''http://'') \<noteq> None then drop 7 url0 else url0);
              (h, p, url2) =
                (case strstr url1 (bytes '':'') of
                   Some k \<Rightarrow> (take k url1, of_int (atoi (drop (k + 1) url1)), url1)
                 | None \<Rightarrow>
                     (case strstr url1 (bytes ''/'') of
                        Some k \<Rightarrow> (take k url1, 80, drop k url1)
                      | None \<Rightarrow> ([], 80, url1)));
              r = (case strstr url2 (bytes ''/'') of
                     Some k \<Rightarrow> drop (k + 1) url2
                   | None \<Rightarrow> [])
          in Some (h, p, r))"

definition ota_http_write :: "'w net_ops \<Rightarrow> 'w ota \<Rightarrow> u8 list \<Rightarrow> int \<times> 'w ota" where
  "ota_http_write N s buf =
     (if ttype s = OTA_HTTPS
      then (case op_tls_write N buf (world s) of (r, w) \<Rightarrow> (r, s\<lparr>world := w\<rparr>))
      else (case op_write N (fd s) buf (world s) of (r, w) \<Rightarrow> (r, s\<lparr>world := w\<rparr>)))"

text \<open>A read gives the number of bytes (or a negative error) and the bytes it put at the start of the
  buffer.\<close>

definition ota_http_read :: "'w net_ops \<Rightarrow> 'w ota \<Rightarrow> int \<Rightarrow> int \<times> u8 list \<times> 'w ota" where
  "ota_http_read N s n =
     (if ttype s = OTA_HTTPS
      then (case op_tls_read N n (world s) of (r, bs, w) \<Rightarrow> (r, bs, s\<lparr>world := w\<rparr>))
      else (case op_read N (fd s) n (world s) of (r, bs, w) \<Rightarrow> (r, bs, s\<lparr>world := w\<rparr>)))"

definition http_request :: "u8 list \<Rightarrow> u8 list \<Rightarrow> u8 list" where
  "http_request res h = bytes ''GET /'' @ res @ bytes '' HTTP/1.1'' @ [13, 10] @ bytes ''Host: '' @ h @
     [13, 10, 13, 10]"

text \<open>The request is formatted into the allocated buffer without a check of the allocation.\<close>

definition ota_http_send_request :: "'w net_ops \<Rightarrow> 'w ota \<Rightarrow> (int \<times> 'w ota) option" where
  "ota_http_send_request N s = do {
     res \<leftarrow> resource s;
     h \<leftarrow> host s;
     let (ok, w) = op_malloc N (5 + length res + 17 + length h + 4 + 1) (world s);
     if \<not> ok then None
     else Some (ota_http_write N (s\<lparr>world := w\<rparr>) (http_request res h))
   }"

text \<open>\<open>memcpy (result->header_bak, response + response_len - 32, 32)\<close>\<close>

definition save_header_tail ::
  "u8 list \<Rightarrow> nat \<Rightarrow> ota_http_response \<Rightarrow> ota_http_response option" where
  "save_header_tail response response_len result = do {
     _ \<leftarrow> header_bak result;
     if response_len < OTA_HEADER_BAK_LEN then None
     else Some (result\<lparr>header_bak :=
            Some (take OTA_HEADER_BAK_LEN (drop (response_len - OTA_HEADER_BAK_LEN) response))\<rparr>)
   }"

text \<open>The branch of a 302 response. The url buffer has the length of the string and so no terminator.\<close>

definition http_follow_redirect ::
  "'w net_ops \<Rightarrow> 'w ota \<Rightarrow> ota_http_redirect \<Rightarrow> u8 list \<Rightarrow> u8 list \<Rightarrow> (int \<times> 'w ota) option" where
  "http_follow_redirect N s r response str = do {
     (stop, r1, w1) \<leftarrow>
       (case (case strstr str (bytes ''LOCATION'') of Some k \<Rightarrow> Some k
              | None \<Rightarrow> strstr str (bytes ''Location'')) of
          None \<Rightarrow> Some (False, r, world s)
        | Some k \<Rightarrow> do {
            loc \<leftarrow> cstr (drop (k + 10) response);
            let r' = r\<lparr>rlen := int (length loc)\<rparr>;
            (case rurl r of
               Null \<Rightarrow>
                 (case op_malloc N (length loc) (world s) of
                    (True, w) \<Rightarrow> Some (False, r'\<lparr>rurl := Ptr loc\<rparr>, w)
                  | (False, w) \<Rightarrow> Some (True, r', w))
             | Dangling \<Rightarrow> None
             | Ptr u \<Rightarrow> (if length u < length loc then None
                         else Some (False, r'\<lparr>rurl := Ptr (list_blit u 0 loc)\<rparr>, world s)))
          });
     let s1 = s\<lparr>redirect := Some r1, world := w1\<rparr>;
     if stop then Some (OTA_ERR, s1)
     else
       (case op_malloc N (nat (rlen r1)) w1 of
          (False, w2) \<Rightarrow> Some (OTA_ERR, s1\<lparr>host := None, world := w2\<rparr>)
        | (True, w2) \<Rightarrow>
            (case op_malloc N (nat (rlen r1)) w2 of
               (False, w3) \<Rightarrow> Some (OTA_ERR, s1\<lparr>host := Some [], resource := None, world := w3\<rparr>)
             | (True, w3) \<Rightarrow>
                 (case rurl r1 of
                    Null \<Rightarrow> Some (OTA_ERR, s1\<lparr>host := Some [], resource := Some [], world := w3\<rparr>)
                  | Dangling \<Rightarrow> None
                  | Ptr u \<Rightarrow> do {
                      u' \<leftarrow> cstr u;
                      (h, p, res) \<leftarrow> parser_url (Some u');
                      Some (OTA_ERR, s1\<lparr>host := Some h, resource := Some res, world := w3,
                                        redirect := Some (r1\<lparr>rport := p, rurl := Dangling\<rparr>)\<rparr>)
                    })))
   }"

definition CRLF :: "u8 list" where "CRLF = [13, 10]"

text \<open>The two later stages: the end of the header, and the content length.\<close>

definition http_parse_end ::
  "u8 list \<Rightarrow> u8 list \<Rightarrow> nat \<Rightarrow> ota_http_response \<Rightarrow> ota_http_response option" where
  "http_parse_end str response response_len res =
     (if parse_status res = 3 then
        (case strstr str (CRLF @ CRLF) of
           Some k \<Rightarrow> Some (res\<lparr>parse_status := 4, header_len := of_nat k + 4\<rparr>)
         | None \<Rightarrow> save_header_tail response response_len res)
      else Some res)"

definition http_parse_length ::
  "u8 list \<Rightarrow> u8 list \<Rightarrow> nat \<Rightarrow> ota_http_response \<Rightarrow> (int \<times> ota_http_response) option" where
  "http_parse_length str response response_len res =
     (if parse_status res = 1 then do {
        let cl = (case strstr str (bytes ''Content-Length'') of Some k \<Rightarrow> Some k
                  | None \<Rightarrow> strstr str (bytes ''CONTENT-LENGTH''));
        res1 \<leftarrow>
          (case cl of
             Some k \<Rightarrow> do {
               n \<leftarrow> cstr (drop (k + 16) response);
               Some (res\<lparr>body_len := of_int (atoi n), parse_status := 2\<rparr>)
             }
           | None \<Rightarrow> Some res);
        (case strstr str (CRLF @ CRLF) of
           Some k \<Rightarrow>
             (if parse_status res1 = 2
              then Some (4, res1\<lparr>parse_status := 4, header_len := of_nat k + 4\<rparr>)
              else Some (OTA_ERR, res1))
         | None \<Rightarrow>
             (if parse_status res1 = 1
              then map_option (\<lambda>r. (1, r)) (save_header_tail response response_len res1)
              else map_option (\<lambda>r. (3, r))
                     (save_header_tail response response_len (res1\<lparr>parse_status := 3\<rparr>))))
      }
      else Some (uint (parse_status res), res))"

definition ota_http_parse_response ::
  "'w net_ops \<Rightarrow> 'w ota \<Rightarrow> u8 list \<Rightarrow> nat \<Rightarrow> ota_http_response
     \<Rightarrow> (int \<times> 'w ota \<times> ota_http_response) option" where
  "ota_http_parse_response N s response response_len result = do {
     r \<leftarrow> redirect s;
     let s1 = s\<lparr>redirect := Some (r\<lparr>rport := 0\<rparr>)\<rparr>;
     str \<leftarrow> cstr response;
     (stop, s2, res1) \<leftarrow>
       (if parse_status result = 0 then
          (if strstr str CRLF = None then Some (Some OTA_ERR, s1, result)
           else do {
             c \<leftarrow> cstr (drop 9 response);
             let res = result\<lparr>status_code := of_int (atoi c)\<rparr>;
             if status_code res = 200 then Some (None, s1, res\<lparr>parse_status := 1\<rparr>)
             else if status_code res = 302 then do {
               (e, s') \<leftarrow> http_follow_redirect N s1 (r\<lparr>rport := 0\<rparr>) response str;
               Some (Some e, s', res)
             }
             else Some (Some OTA_ERR, s1, res)
           })
        else Some (None, s1, result));
     (case stop of
        Some e \<Rightarrow> Some (e, s2, res1)
      | None \<Rightarrow> do {
          res2 \<leftarrow> http_parse_end str response response_len res1;
          (e, res3) \<leftarrow> http_parse_length str response response_len res2;
          Some (e, s2, res3)
        })
   }"

text \<open>A read of at most \<open>n\<close> bytes at offset \<open>off\<close> of a buffer that was zeroed first.\<close>

definition read_into ::
  "('w ota \<Rightarrow> int \<Rightarrow> int \<times> u8 list \<times> 'w ota) \<Rightarrow> 'w ota \<Rightarrow> u8 list \<Rightarrow> nat \<Rightarrow> nat
     \<Rightarrow> (int \<times> u8 list \<times> 'w ota) option" where
  "read_into rd s buf off n =
     (case rd s (int n) of (r, bs, s') \<Rightarrow>
        if int n < r then None
        else Some (r, list_blit buf off (take (nat r) bs), s'))"

text \<open>The loop that reads the header; the result is whether the header was parsed, with the buffer and
  the number of bytes in it. None is a fault or a loop that does not end.\<close>

partial_function (option) http_recv_loop ::
  "('w ota \<Rightarrow> int \<Rightarrow> int \<times> u8 list \<times> 'w ota) \<Rightarrow> 'w net_ops \<Rightarrow> 'w ota \<Rightarrow> u8 list
     \<Rightarrow> ota_http_response \<Rightarrow> nat \<Rightarrow> (bool \<times> 'w ota \<times> u8 list \<times> ota_http_response \<times> nat) option" where
  "http_recv_loop rd N s buf res idx =
     (if parse_status res \<le> 3 then
        if parse_status res = 0 then do {
          (r, buf1, s1) \<leftarrow> read_into rd s (replicate OTA_BUF_SIZE 0) 0 OTA_BUF_SIZE;
          if r \<le> 0 then Some (False, s1, buf1, res, idx)
          else do {
            (e, s2, res2) \<leftarrow> ota_http_parse_response N s1 buf1 (nat r)
               \<lparr>status_code = 0, parse_status = 0, body_len = 0, header_len = 0, header_bak = None\<rparr>;
            if e = OTA_ERR then Some (False, s2, buf1, res2, nat r)
            else http_recv_loop rd N s2 buf1 res2 (nat r)
          }
        }
        else if parse_status res = 1 \<or> parse_status res = 3 then do {
          bak \<leftarrow> header_bak res;
          (r, buf1, s1) \<leftarrow> read_into rd s (list_blit (replicate OTA_BUF_SIZE 0) 0 bak)
             OTA_HEADER_BAK_LEN (OTA_BUF_SIZE - OTA_HEADER_BAK_LEN);
          if r \<le> 0 then Some (False, s1, buf1, res, idx)
          else do {
            (e, s2, res2) \<leftarrow> ota_http_parse_response N s1 buf1 (nat r + OTA_HEADER_BAK_LEN) res;
            if e = OTA_ERR then Some (False, s2, buf1, res2, nat r + OTA_HEADER_BAK_LEN)
            else http_recv_loop rd N s2 buf1 res2 (nat r + OTA_HEADER_BAK_LEN)
          }
        }
        else http_recv_loop rd N s buf res idx
      else Some (True, s, buf, res, idx))"

definition http_recv_response ::
  "('w ota \<Rightarrow> int \<Rightarrow> int \<times> u8 list \<times> 'w ota) \<Rightarrow> 'w net_ops \<Rightarrow> 'w ota \<Rightarrow> (int \<times> 'w ota) option" where
  "http_recv_response rd N s =
     (case op_malloc N OTA_BUF_SIZE (world s) of (ok1, w1) \<Rightarrow>
      case op_malloc N (OTA_HEADER_BAK_LEN + 1) w1 of (ok2, w2) \<Rightarrow>
        if \<not> ok1 \<or> \<not> ok2 then Some (-1, s\<lparr>world := w2\<rparr>)
        else do {
          (ok, s1, buf, res, idx) \<leftarrow> http_recv_loop rd N (s\<lparr>world := w2\<rparr>) (replicate OTA_BUF_SIZE 0)
             \<lparr>status_code = 0, parse_status = 0, body_len = 0, header_len = 0,
              header_bak = Some (replicate (OTA_HEADER_BAK_LEN + 1) 0)\<rparr> 0;
          if \<not> ok \<or> body_len res = 0 then Some (-1, s1)
          else
            let remain_len = sint (of_nat idx - header_len res) in
            if 0 < remain_len then
              Some (remain_len, s1\<lparr>ctrl := (ctrl s1)\<lparr>NextImgLen := remain_len,
                 NextImgBuf := list_blit (replicate OTA_BUF_SIZE 0) 0
                   (take (nat remain_len) (drop (unat (header_len res)) buf)),
                 NextImgFg := 1\<rparr>\<rparr>)
            else Some (remain_len, s1)
        })"

definition ota_http_recv_response :: "'w net_ops \<Rightarrow> 'w ota \<Rightarrow> (int \<times> 'w ota) option" where
  "ota_http_recv_response N s = http_recv_response (ota_http_read N) N s"

section \<open>TLS\<close>

text \<open>
  \<open>op_tls_handshake\<close> is told whether the peer must be verified against the given authority and whether
  the client has a certificate of its own.
\<close>

definition ota_http_tls_init :: "'w net_ops \<Rightarrow> 'w ota \<Rightarrow> int \<times> 'w ota" where
  "ota_http_tls_init N s =
     (case op_tls_alloc N (world s) of (ok, w0) \<Rightarrow>
      if \<not> ok then (OTA_ERR, s\<lparr>tls := False, world := w0\<rparr>)
      else
        let s0 = s\<lparr>tls := True\<rparr> in
        case op_tls_config N w0 of (r1, w1) \<Rightarrow>
        if r1 \<noteq> 0 then (OTA_ERR, s0\<lparr>world := w1\<rparr>)
        else case op_tls_setup N w1 of (r2, w2) \<Rightarrow>
        if r2 \<noteq> 0 then (OTA_ERR, s0\<lparr>world := w2\<rparr>)
        else case (case ca_cert s of None \<Rightarrow> (0, w2) | Some c \<Rightarrow> op_tls_parse N c w2) of (r3, w3) \<Rightarrow>
        if r3 \<noteq> 0 then (OTA_ERR, s0\<lparr>world := w3\<rparr>)
        else
          let own = (client_cert s \<noteq> None \<and> private_key s \<noteq> None) in
          case (if own then op_tls_parse N (the (client_cert s)) w3 else (0, w3)) of (r4, w4) \<Rightarrow>
          if r4 \<noteq> 0 then (OTA_ERR, s0\<lparr>world := w4\<rparr>)
          else case (if own then op_tls_parse N (the (private_key s)) w4 else (0, w4)) of (r5, w5) \<Rightarrow>
          if r5 \<noteq> 0 then (OTA_ERR, s0\<lparr>world := w5\<rparr>)
          else case op_tls_handshake N (ca_cert s \<noteq> None) own w5 of (r6, w6) \<Rightarrow>
          if r6 \<noteq> 0 then (OTA_ERR, s0\<lparr>world := w6\<rparr>)
          else (OTA_OK, s0\<lparr>world := w6\<rparr>))"

definition ota_http_tls_free :: "'w net_ops \<Rightarrow> 'w ota \<Rightarrow> 'w ota" where
  "ota_http_tls_free N s =
     (if \<not> tls s then s else s\<lparr>tls := False, world := op_tls_free N (world s)\<rparr>)"

section \<open>Connecting\<close>

definition ota_http_connect_server :: "'w net_ops \<Rightarrow> 'w ota \<Rightarrow> (int \<times> 'w ota) option" where
  "ota_http_connect_server N s =
     (case op_socket N (world s) of (d, w1) \<Rightarrow>
      if d < 0 then Some (OTA_ERR, s\<lparr>world := w1\<rparr>)
      else do {
        h \<leftarrow> host s;
        case op_gethostbyname N h w1 of
          (None, w2) \<Rightarrow> Some (OTA_ERR, s\<lparr>fd := d, world := w2\<rparr>)
        | (Some a, w2) \<Rightarrow>
            (case op_connect N d a (of_int (port s)) w2 of (r, w3) \<Rightarrow>
               let s1 = s\<lparr>fd := d, world := w3\<rparr> in
               if r < 0 then Some (OTA_ERR, s1)
               else if ttype s1 = OTA_HTTPS then
                 (case ota_http_tls_init N s1 of (e, s2) \<Rightarrow>
                    if e \<noteq> OTA_OK then Some (OTA_ERR, s2) else Some (OTA_OK, s2))
               else Some (OTA_OK, s1))
      })"

definition ota_http_connect :: "'w net_ops \<Rightarrow> 'w ota \<Rightarrow> (int \<times> 'w ota) option" where
  "ota_http_connect N s = do {
     (e1, s1) \<leftarrow> ota_http_connect_server N s;
     if e1 \<noteq> OTA_OK then Some (OTA_ERR, s1)
     else do {
       (e2, s2) \<leftarrow> ota_http_send_request N s1;
       if e2 < 0 then Some (OTA_ERR, s2)
       else do {
         (e3, s3) \<leftarrow> ota_http_recv_response N s2;
         if e3 < 0 then Some (OTA_ERR, s3) else Some (OTA_OK, s3)
       }
     }
   }"

definition ota_http_close :: "'w net_ops \<Rightarrow> 'w ota \<Rightarrow> 'w ota" where
  "ota_http_close N s =
     (let s1 = (if 0 \<le> fd s then s\<lparr>world := op_close N (fd s) (world s), fd := -1\<rparr> else s)
      in if ttype s1 = OTA_HTTPS then ota_http_tls_free N s1 else s1)"

section \<open>Files and the host link\<close>

text \<open>The file handle is kept in \<open>fd\<close>; 0 is the NULL handle. \<open>fread\<close> is the wrapper of the SDK
  (\<open>vfs_wrap.c\<close>), which gives the number of bytes it read.\<close>

definition ota_vfs_open :: "'w net_ops \<Rightarrow> 'w ota \<Rightarrow> (int \<times> 'w ota) option" where
  "ota_vfs_open N s = do {
     res \<leftarrow> resource s;
     (case op_fopen N res (world s) of (f, w) \<Rightarrow>
        if f = 0 then Some (OTA_ERR, s\<lparr>world := w\<rparr>)
        else Some (OTA_OK, s\<lparr>fd := f, world := w\<rparr>))
   }"

definition ota_vfs_close :: "'w net_ops \<Rightarrow> 'w ota \<Rightarrow> 'w ota" where
  "ota_vfs_close N s = (if 0 < fd s then s\<lparr>world := op_fclose N (fd s) (world s)\<rparr> else s)"

definition ota_vfs_read :: "'w net_ops \<Rightarrow> 'w ota \<Rightarrow> int \<Rightarrow> int \<times> u8 list \<times> 'w ota" where
  "ota_vfs_read N s n = (case op_fread N (fd s) n (world s) of (r, bs, w) \<Rightarrow> (r, bs, s\<lparr>world := w\<rparr>))"

definition ota_whc_read :: "'w net_ops \<Rightarrow> 'w ota \<Rightarrow> int \<Rightarrow> int \<times> u8 list \<times> 'w ota" where
  "ota_whc_read N s n = (case op_whc_read N n (world s) of (r, bs, w) \<Rightarrow> (r, bs, s\<lparr>world := w\<rparr>))"

definition ota_whc_recv_response :: "'w net_ops \<Rightarrow> 'w ota \<Rightarrow> (int \<times> 'w ota) option" where
  "ota_whc_recv_response N s = http_recv_response (ota_whc_read N) N s"

definition ota_whc_connect :: "'w net_ops \<Rightarrow> 'w ota \<Rightarrow> (int \<times> 'w ota) option" where
  "ota_whc_connect N s = do {
     (e, s1) \<leftarrow> ota_whc_recv_response N s;
     if e < 0 then Some (OTA_ERR, s1) else Some (OTA_OK, s1)
   }"

definition ota_whc_close :: "'w net_ops \<Rightarrow> 'w ota \<Rightarrow> 'w ota" where
  "ota_whc_close N s = s\<lparr>world := op_whc_close N (world s)\<rparr>"

section \<open>The dispatch on the transport type\<close>

definition ota_transport_write :: "'w net_ops \<Rightarrow> 'w ota \<Rightarrow> u8 list \<Rightarrow> int \<times> 'w ota" where
  "ota_transport_write N s buf =
     (if fd s = -1 then (-1, s)
      else if ttype s = OTA_HTTPS \<or> ttype s = OTA_HTTP then ota_http_write N s buf
      else (-1, s))"

definition ota_transport_read ::
  "ota_cfg \<Rightarrow> 'w net_ops \<Rightarrow> 'w ota \<Rightarrow> int \<Rightarrow> int \<times> u8 list \<times> 'w ota" where
  "ota_transport_read C N s n =
     (if ttype s \<noteq> OTA_WHC \<and> fd s = -1 then (-1, [], s)
      else
        case (if WHC_INTF_IPC C \<and> (ttype s = OTA_HTTPS \<or> ttype s = OTA_HTTP) then
                Some (ota_http_read N s n)
              else if WHC_INTF_IPC C \<and> ttype s = OTA_VFS then Some (ota_vfs_read N s n)
              else if ttype s = OTA_USER then
                (case user_read_func s of
                   Some f \<Rightarrow> (case f n (world s) of (r, bs, w) \<Rightarrow> Some (r, bs, s\<lparr>world := w\<rparr>))
                 | None \<Rightarrow> Some (-1, [], s))
              else if WHC_CMD_PATH C \<and> ttype s = OTA_WHC then Some (ota_whc_read N s n)
              else None) of
          None \<Rightarrow> (-1, [], s)
        | Some (r, bs, s1) \<Rightarrow> (if r < 0 then (-2, bs, s1) else (r, bs, s1)))"

definition ota_transport_connect ::
  "ota_cfg \<Rightarrow> 'w net_ops \<Rightarrow> 'w ota \<Rightarrow> (int \<times> 'w ota) option" where
  "ota_transport_connect C N s =
     (if WHC_INTF_IPC C \<and> (ttype s = OTA_HTTP \<or> ttype s = OTA_HTTPS) then ota_http_connect N s
      else if WHC_CMD_PATH C \<and> ttype s = OTA_WHC then ota_whc_connect N s
      else if ttype s = OTA_VFS then ota_vfs_open N s
      else if ttype s = OTA_USER then
        (case user_open_func s of
           Some f \<Rightarrow> (case f (world s) of (r, w) \<Rightarrow> Some (r, s\<lparr>world := w\<rparr>))
         | None \<Rightarrow> Some (OTA_OK, s))
      else Some (OTA_ERR, s))"

definition ota_transport_disconnect :: "ota_cfg \<Rightarrow> 'w net_ops \<Rightarrow> 'w ota \<Rightarrow> 'w ota" where
  "ota_transport_disconnect C N s =
     (if WHC_INTF_IPC C \<and> (ttype s = OTA_HTTP \<or> ttype s = OTA_HTTPS) then ota_http_close N s
      else if ttype s = OTA_VFS then ota_vfs_close N s
      else if WHC_CMD_PATH C \<and> ttype s = OTA_WHC then ota_whc_close N s
      else if ttype s = OTA_USER then
        (case user_close_func s of Some f \<Rightarrow> s\<lparr>world := f (world s)\<rparr> | None \<Rightarrow> s)
      else s)"

definition ota_transport_init ::
  "'w net_ops \<Rightarrow> 'w ota \<Rightarrow> u8 list option \<Rightarrow> int \<Rightarrow> u8 list option \<Rightarrow> int \<times> 'w ota" where
  "ota_transport_init N s hst prt res =
     (if ttype s = OTA_USER then (OTA_OK, s)
      else
        let (stop, s1) =
          (if ttype s = OTA_HTTP \<or> ttype s = OTA_HTTPS \<or> ttype s = OTA_WHC then
             (case hst of
                None \<Rightarrow> (True, s)
              | Some h \<Rightarrow>
                  (case op_malloc N (length h + 1) (world s) of
                     (False, w1) \<Rightarrow> (True, s\<lparr>port := prt, host := None, world := w1\<rparr>)
                   | (True, w1) \<Rightarrow>
                       (case op_malloc N 20 w1 of
                          (False, w2) \<Rightarrow>
                            (True, s\<lparr>port := prt, host := Some h, redirect := None, world := w2\<rparr>)
                        | (True, w2) \<Rightarrow>
                            (False, s\<lparr>port := prt, host := Some h, world := w2,
                                      redirect := Some \<lparr>rurl = Null, rlen = 0, rport = 0\<rparr>\<rparr>))))
           else (False, s))
        in if stop then (OTA_ERR, s1)
           else
             (case res of
                None \<Rightarrow> (OTA_ERR, s1)
              | Some r \<Rightarrow>
                  (case op_malloc N (length r + 1) (world s1) of
                     (False, w3) \<Rightarrow> (OTA_ERR, s1\<lparr>fd := -1, resource := None, world := w3\<rparr>)
                   | (True, w3) \<Rightarrow> (OTA_OK, s1\<lparr>fd := -1, resource := Some r, world := w3\<rparr>))))"

end
