(* ===== verification/Ota_Core.thy ===== *)
theory Ota_Core
  imports Ota_Transport "HOL-Library.Signed_Division"
begin

text \<open>
  The core of the firmware update, \<open>src/component/ota/ota_core.c\<close>: receiving and parsing the file
  header, processing the packets of an image (manifest cached, sectors erased ahead, data programmed),
  finishing an image (checksum, manifest written last), and the process as a whole.

  A C \<open>int\<close> is an \<open>int\<close>; where the code mixes it with an unsigned number the conversion is written out
  (\<open>of_int\<close> to the 32-bit word, \<open>sint\<close> back). None stands for a fault. A pointer into a packet is a
  reference to one of the two buffers a packet can be in: the receive buffer and \<open>NextImgBuf\<close>.
\<close>

section \<open>The environment\<close>

record 'w ota_env =
  cfg :: ota_cfg
  net :: "'w net_ops"
  tx :: flash_tx
  er :: flash_er
  rsip :: "u32 list"
  sec_ota_addr :: u16
  bus :: memory
  sig_at :: u32

section \<open>Receiving and parsing the file header\<close>

text \<open>The \<open>while (TempLen)\<close> loop into the buffer \<open>buf\<close> at offset \<open>pos\<close>. The result is whether the reads
  succeeded, the buffer and how many bytes came.\<close>

function recv_loop ::
  "ota_cfg \<Rightarrow> 'w net_ops \<Rightarrow> 'w ota \<Rightarrow> u8 list \<Rightarrow> nat \<Rightarrow> nat \<Rightarrow> (bool \<times> u8 list \<times> nat \<times> 'w ota) option" where
  "recv_loop C N s buf pos TempLen =
     (if TempLen = 0 then Some (True, buf, 0, s)
      else
        (case ota_transport_read C N s (int TempLen) of (r, bs, s1) \<Rightarrow>
           if r < 0 then Some (False, buf, 0, s1)
           else if r = 0 then Some (True, buf, 0, s1)
           else if int TempLen < r then None
           else
             map_option (\<lambda>(ok, buf', n, s'). (ok, buf', nat r + n, s'))
               (recv_loop C N s1 (list_blit buf pos (take (nat r) bs)) (pos + nat r)
                  (TempLen - nat r))))"
  by pat_completeness auto

termination
  by (relation "measure (\<lambda>(_, _, _, _, _, TempLen). TempLen)") auto

declare recv_loop.simps [simp del]

definition hdr_total :: "u32 \<Rightarrow> u32" where
  "hdr_total n = n * OTA_SUB_HEADER_LEN + OTA_HEADER_LEN"

text \<open>The result is the return value, the buffer, and \<open>*len\<close>.\<close>

definition ota_core_recv_header ::
  "ota_cfg \<Rightarrow> 'w net_ops \<Rightarrow> 'w ota \<Rightarrow> u8 list \<Rightarrow> nat \<Rightarrow> (int \<times> u8 list \<times> u32 \<times> 'w ota) option" where
  "ota_core_recv_header C N s Recvbuf writelen0 = do {
     (ok1, buf1, n1, s1) \<leftarrow>
       (if writelen0 < OTA_HEADER_LEN
        then recv_loop C N s Recvbuf writelen0 (OTA_HEADER_LEN - writelen0)
        else Some (True, Recvbuf, 0, s));
     let writelen = writelen0 + n1;
     if \<not> ok1 then Some (OTA_ERR, buf1, 0, s1)
     else do {
       let num = le32 (drop 4 buf1);
       let s2 = s1\<lparr>hdr := (hdr s1)\<lparr>FwVer := le32 buf1, HdrNum := num\<rparr>\<rparr>;
       if OTA_IMGID_MAX < num then Some (OTA_ERR, buf1, 0, s2)
       else do {
         (ok2, buf2, _, s3) \<leftarrow>
           (if writelen < unat (hdr_total num)
            then recv_loop C N s2 buf1 writelen (unat (hdr_total num) - writelen)
            else Some (True, buf1, 0, s2));
         if \<not> ok2 then Some (OTA_ERR, buf2, 0, s3)
         else Some (OTA_OK, buf2, hdr_total (le32 (drop 4 buf2)), s3)
       }
     }
   }"

text \<open>The structure at the start of the bytes.\<close>

definition read_sub_hdr :: "u8 list \<Rightarrow> ota_sub_hdr" where
  "read_sub_hdr bs =
     \<lparr>Signature = take 4 bs, ImgHdrLen = le32 (drop 4 bs), Checksum = le32 (drop 8 bs),
      ImgLen = le32 (drop 12 bs), Offset = le32 (drop 16 bs), ImgID = le32 (drop 20 bs)\<rparr>"

text \<open>The \<open>for\<close> loop over the sub headers, from \<open>i\<close> on.\<close>

function target_header_loop ::
  "u8 list \<Rightarrow> nat \<Rightarrow> nat \<Rightarrow> ota_hdr_manager \<Rightarrow> (int \<times> ota_hdr_manager) option" where
  "target_header_loop buf num i hm =
     (if i < num then
        let h = drop (OTA_HEADER_LEN + OTA_SUB_HEADER_LEN * i) buf in
        if \<not> is_ota_signature (take 4 h) then Some (OTA_ERR, hm)
        else if length (FileImgHdr hm) \<le> unat (ValidImgCnt hm) then None
        else target_header_loop buf num (i + 1)
               (hm\<lparr>FileImgHdr := (FileImgHdr hm)[unat (ValidImgCnt hm) := read_sub_hdr h],
                   ValidImgCnt := ValidImgCnt hm + 1\<rparr>)
      else if ValidImgCnt hm = 0 then Some (OTA_ERR, hm)
      else Some (OTA_OK, hm))"
  by pat_completeness auto

termination
  by (relation "measure (\<lambda>(_, num, i, _). num - i)") auto

declare target_header_loop.simps [simp del]

definition ota_core_get_target_header ::
  "'w ota \<Rightarrow> u8 list \<Rightarrow> u32 \<Rightarrow> (int \<times> 'w ota) option" where
  "ota_core_get_target_header s buf len =
     (if len < OTA_HEADER_LEN then Some (OTA_ERR, s)
      else
        let hm = (hdr s)\<lparr>ValidImgCnt := 0\<rparr> in
        if len < hdr_total (HdrNum hm) then Some (OTA_ERR, s\<lparr>hdr := hm\<rparr>)
        else map_option (\<lambda>(e, hm'). (e, s\<lparr>hdr := hm'\<rparr>))
               (target_header_loop buf (unat (le32 (drop 4 buf))) 0 hm))"

section \<open>Progress\<close>

text \<open>The product is computed in 32 bits; the callback gets every value.\<close>

definition download_percentage :: "'w ota \<Rightarrow> int \<Rightarrow> int \<Rightarrow> 'w ota option" where
  "download_percentage s cur_size total_size =
     (if total_size = 0 then None
      else
        let percent = sint (of_int (cur_size * 100) :: u32) sdiv total_size;
            s1 = (if percent_bak (stat s) \<noteq> percent \<and> percent smod 10 = 0
                  then s\<lparr>stat := (stat s)\<lparr>percent_bak := percent\<rparr>\<rparr> else s)
        in Some (if progress_cb s1 then s1\<lparr>progress := progress s1 @ [percent]\<rparr> else s1))"

section \<open>Finishing an image\<close>

text \<open>The address of \<open>Manifest[k]\<close> inside the header manager.\<close>

definition manifest_at :: "'w ota \<Rightarrow> nat \<Rightarrow> u32" where
  "manifest_at s k = otaHdrManager s + 56 + 24 * of_nat k"

definition download_finish :: "'w ota_env \<Rightarrow> 'w ota \<Rightarrow> int \<Rightarrow> (int \<times> 'w ota) option" where
  "download_finish E s sz =
     (if (of_int sz :: u32) \<noteq> ImageLen (ctrl s) then Some (OTA_ERR, s)
      else do {
        (e, s1) \<leftarrow>
          (if SkipBootOTAFg (ctrl s) \<noteq> 0 then Some (OTA_OK, s)
           else do {
             v \<leftarrow> ota_storage_verify_checksum (bus E) (img s) (hdr s) (slotIdx (ctrl s))
                    (unat (index (ctrl s))) (flash s);
             if v \<noteq> OTA_OK then Some (OTA_ERR, s)
             else do {
               (u, f1) \<leftarrow> ota_storage_update_manifest (SWITCH_BY_VALID_HEADER (cfg E)) (tx E)
                  (manifest_at s (unat (index (ctrl s)))) (sig_at E) (img s) (hdr s)
                  (slotIdx (ctrl s)) (index (ctrl s)) (flash s);
               if u \<noteq> OTA_OK then Some (OTA_ERR, s\<lparr>flash := f1\<rparr>)
               else Some (OTA_OK, s\<lparr>flash := f1\<rparr>)
             }
           });
        if e \<noteq> OTA_OK then Some (OTA_ERR, s1)
        else if uint (index (ctrl s1)) < uint (ValidImgCnt (hdr s1)) - 1 then
          Some (OTA_OK, s1\<lparr>ctrl := (ctrl s1)\<lparr>index := index (ctrl s1) + 1, IsDnldInit := 0\<rparr>\<rparr>)
        else Some (OTA_FINISH, s1)
      })"

section \<open>Processing a packet\<close>

definition download_parameter_init :: "'w ota_env \<Rightarrow> 'w ota \<Rightarrow> 'w ota option" where
  "download_parameter_init E s = do {
     let c = ctrl s;
     h \<leftarrow> nth_opt (FileImgHdr (hdr s)) (unat (index c));
     (cur, T1) \<leftarrow> ota_get_cur_index (rsip E) (ucast (ImgID h)) (img s);
     let slot = (if cur = OTA_INDEX_1 then OTA_INDEX_2 else OTA_INDEX_1);
     addr \<leftarrow> ota_storage_get_image_addr T1 (ucast (ImgID h)) slot;
     skip \<leftarrow> (if ImgID h = OTA_IMGID_BOOT \<and> slot = OTA_INDEX_2
              then ota_check_bootloader_ota2 (sec_ota_addr E) T1 else Some 0);
     Some (s\<lparr>img := T1,
       ctrl := c\<lparr>ImgId := ImgID h, slotIdx := slot, SigFg := 0, SigCnt := 0, SkipBootOTAFg := skip,
         ImageLen := ImgLen h, ImgOffset := 0, ReadBytes := 0,
         RemainBytes := sint (ImgLen h - sizeof_manifest),
         FlashAddr := addr - SPI_FLASH_BASE + sizeof_manifest\<rparr>\<rparr>)
   }"

datatype bufref = Recv nat | Next nat

fun bref_add :: "bufref \<Rightarrow> int \<Rightarrow> bufref" where
  "bref_add (Recv k) n = Recv (nat (int k + n))"
| "bref_add (Next k) n = Next (nat (int k + n))"

fun bref_at :: "'w ota \<Rightarrow> bufref \<Rightarrow> u32" where
  "bref_at s (Recv k) = rbuf_at s + of_nat k"
| "bref_at s (Next k) = otaCtrl s + 1 + of_nat k"

fun bref_bytes :: "'w ota \<Rightarrow> bufref \<Rightarrow> u8 list" where
  "bref_bytes s (Recv k) = drop k (rbuf s)"
| "bref_bytes s (Next k) = drop k (NextImgBuf (ctrl s))"

definition bref_read :: "'w ota \<Rightarrow> bufref \<Rightarrow> int \<Rightarrow> u8 list" where
  "bref_read s b n = take (nat n) (bref_bytes s b)"

text \<open>\<open>_memcpy ((u8 *)manifest + off, src, n)\<close>\<close>

definition manifest_write :: "'w ota \<Rightarrow> int \<Rightarrow> u8 list \<Rightarrow> 'w ota" where
  "manifest_write s off bs =
     (let k = manifest (stat s) in
      s\<lparr>hdr := (hdr s)\<lparr>Manifest := (Manifest (hdr s))[k := list_blit (Manifest (hdr s) ! k) (nat off) bs]\<rparr>\<rparr>)"

text \<open>The first part of a packet: the manifest is cached. The result is the state and, unless the
  function returns here, what is left of the packet.\<close>

definition packet_manifest :: "'w ota \<Rightarrow> bufref \<Rightarrow> int \<Rightarrow> 'w ota \<times> (bufref \<times> int) option" where
  "packet_manifest s buf len =
     (let c = ctrl s in
      if ReadBytes c > sint (ImgOffset c) then
        if SigFg c = 0 then
          let TempCnt = sint (of_int (ReadBytes c) - ImgOffset c);
              sigcnt = (if TempCnt < sizeof_manifest then TempCnt else sizeof_manifest);
              s1 = manifest_write (s\<lparr>ctrl := c\<lparr>SigFg := 1, SigCnt := sigcnt\<rparr>\<rparr>) 0
                     (bref_read s (bref_add buf (len - TempCnt)) sigcnt)
          in if sigcnt < sizeof_manifest \<or> TempCnt - sizeof_manifest = 0 then (s1, None)
             else (s1, Some (bref_add buf (len - TempCnt + sizeof_manifest), TempCnt - sizeof_manifest))
        else if SigCnt c < sizeof_manifest then
          if len < sizeof_manifest - SigCnt c then
            (manifest_write (s\<lparr>ctrl := c\<lparr>SigCnt := SigCnt c + len\<rparr>\<rparr>) (SigCnt c) (bref_read s buf len), None)
          else
            let n = sizeof_manifest - SigCnt c;
                s1 = manifest_write (s\<lparr>ctrl := c\<lparr>SigCnt := sizeof_manifest\<rparr>\<rparr>) (SigCnt c) (bref_read s buf n)
            in if len - n = 0 then (s1, None) else (s1, Some (bref_add buf n, len - n))
        else (s, Some (buf, len))
      else (s, Some (buf, len)))"

text \<open>The second part: what belongs to the next image is put aside, the sector is erased when it is
  reached, the data is programmed.\<close>

definition packet_write :: "'w ota_env \<Rightarrow> 'w ota \<Rightarrow> bufref \<Rightarrow> int \<Rightarrow> 'w ota option" where
  "packet_write E s buf len0 =
     (let rem = RemainBytes (ctrl s) - len0;
          len = (if rem < 0 then len0 - (- rem) else len0);
          c1 = (ctrl s)\<lparr>RemainBytes := rem\<rparr>;
          c2 = (if rem < 0 then
                  c1\<lparr>NextImgLen := - rem, NextImgFg := 1,
                     NextImgBuf := list_blit (NextImgBuf c1) 0 (bref_read s (bref_add buf len) (- rem))\<rparr>
                else c1);
          s1 = s\<lparr>ctrl := c2\<rparr>
      in if OTA_BUF_SIZE < - rem then None
         else if SkipBootOTAFg c2 = 1 then
           Some (s1\<lparr>stat := (stat s1)\<lparr>psize := psize (stat s1) + len\<rparr>\<rparr>)
         else
           let ws = (ImageLen c2 - of_int rem - 1 + sizeof_manifest) div 4096;
               (f1, nes) =
                 (if ws \<ge> next_erase_sector (stat s1) then
                    (ota_storage_erase_sector (er E) (FlashAddr c2 - sizeof_manifest + ws * 4096) (flash s1),
                     next_erase_sector (stat s1) + 1)
                  else (flash s1, next_erase_sector (stat s1)))
           in do {
             (_, f2) \<leftarrow> ota_storage_write (tx E) (FlashAddr c2 + of_int (psize (stat s1)))
                (bref_at s1 buf, bref_bytes s1 buf) (of_int len) f1;
             Some (s1\<lparr>flash := f2,
               stat := (stat s1)\<lparr>write_sector := ws, next_erase_sector := nes,
                                 psize := psize (stat s1) + len\<rparr>\<rparr>)
           })"

text \<open>The value returned is the static \<open>size\<close> afterwards.\<close>

definition download_packet_process ::
  "'w ota_env \<Rightarrow> 'w ota \<Rightarrow> bufref \<Rightarrow> int \<Rightarrow> (int \<times> 'w ota) option" where
  "download_packet_process E s buf len = do {
     s1 \<leftarrow>
       (if IsDnldInit (ctrl s) = 0 then do {
          s' \<leftarrow> download_parameter_init E s;
          Some (s'\<lparr>ctrl := (ctrl s')\<lparr>IsDnldInit := 1\<rparr>,
                   stat := (stat s')\<lparr>manifest := unat (index (ctrl s')), write_sector := 0,
                                     next_erase_sector := 0, psize := 0\<rparr>\<rparr>)
        }
        else Some s);
     let s2 = s1\<lparr>ctrl := (ctrl s1)\<lparr>ReadBytes := ReadBytes (ctrl s1) + len\<rparr>\<rparr>;
     (case packet_manifest s2 buf len of
        (s3, None) \<Rightarrow> Some (psize (stat s3), s3)
      | (s3, Some (buf', len')) \<Rightarrow> do {
          s4 \<leftarrow> packet_write E s3 buf' len';
          Some (psize (stat s4), s4)
        })
   }"

section \<open>The file header in the stream\<close>

text \<open>\<open>temp\<close> holds \<open>NextImgBuf\<close> (if it is in use) and the packet, and has room for the largest header. The
  packet itself is the first \<open>n\<close> bytes of the receive buffer.\<close>

definition ota_core_parse_header :: "'w ota_env \<Rightarrow> 'w ota \<Rightarrow> nat \<Rightarrow> (int \<times> 'w ota) option" where
  "ota_core_parse_header E s n =
     (let c = ctrl s;
          pre = (if NextImgFg c = 1 then take (nat (NextImgLen c)) (NextImgBuf c) else []);
          writelen = (if NextImgFg c = 1 then n + nat (NextImgLen c) else n);
          MaxHdrLen = OTA_HEADER_LEN + OTA_SUB_HEADER_LEN * OTA_IMGID_MAX
      in case op_malloc (net E) (writelen + MaxHdrLen) (world s) of
           (False, w) \<Rightarrow> Some (OTA_ERR, s\<lparr>world := w\<rparr>)
         | (True, w) \<Rightarrow> do {
             let temp = list_blit (replicate (writelen + MaxHdrLen) 0) 0 (pre @ take n (rbuf s));
             (e1, temp1, RecvHdrLen, s1) \<leftarrow>
                ota_core_recv_header (cfg E) (net E) (s\<lparr>world := w\<rparr>) temp writelen;
             if e1 \<noteq> OTA_OK then Some (OTA_ERR, s1)
             else do {
               (e2, s2) \<leftarrow> ota_core_get_target_header s1 temp1 RecvHdrLen;
               if e2 \<noteq> OTA_OK then Some (OTA_ERR, s2)
               else do {
                 (e3, T) \<leftarrow> ota_storage_check_layout (rsip E) (hdr s2) (img s2);
                 let s3 = s2\<lparr>img := T\<rparr>;
                 if e3 \<noteq> OTA_OK then Some (OTA_ERR, s3)
                 else if writelen \<le> unat RecvHdrLen then
                   Some (OTA_OK, s3\<lparr>ctrl := (ctrl s3)\<lparr>IsGetOTAHdr := 1\<rparr>\<rparr>)
                 else
                   let c3 = ctrl s3; hl = unat RecvHdrLen in
                   if NextImgFg c3 \<noteq> 0 then
                     if int hl < NextImgLen c3 then
                       Some (int n, s3\<lparr>ctrl := c3\<lparr>IsGetOTAHdr := 1,
                         NextImgBuf := list_blit (NextImgBuf c3) 0
                           (take (nat (NextImgLen c3) - hl) (drop hl (NextImgBuf c3))),
                         NextImgLen := NextImgLen c3 - int hl\<rparr>\<rparr>)
                     else
                       let k = hl - nat (NextImgLen c3) in
                       Some (int (n - k), s3\<lparr>ctrl := c3\<lparr>IsGetOTAHdr := 1, NextImgFg := 0\<rparr>,
                         rbuf := list_blit (rbuf s3) 0 (take (n - k) (drop k (rbuf s3)))\<rparr>)
                   else
                     Some (int (n - hl), s3\<lparr>ctrl := c3\<lparr>IsGetOTAHdr := 1\<rparr>,
                       rbuf := list_blit (rbuf s3) 0 (take (n - hl) (drop hl (rbuf s3)))\<rparr>)
               }
             }
           })"

text \<open>The packet in the receive buffer: with its header parsed, what was kept from the last packet is
  processed first, then the packet.\<close>

definition ota_fw_program :: "'w ota_env \<Rightarrow> 'w ota \<Rightarrow> nat \<Rightarrow> (int \<times> 'w ota) option" where
  "ota_fw_program E s n = do {
     (e, s1) \<leftarrow> (if IsGetOTAHdr (ctrl s) = 0 then ota_core_parse_header E s n else Some (int n, s));
     if IsGetOTAHdr (ctrl s) = 0 \<and> e \<le> 0 then Some (e, s1)
     else do {
       s2 \<leftarrow>
         (if NextImgFg (ctrl s1) = 1 then do {
            (_, s') \<leftarrow> download_packet_process E s1 (Next 0) (NextImgLen (ctrl s1));
            Some (s'\<lparr>ctrl := (ctrl s')\<lparr>NextImgFg := 0\<rparr>\<rparr>)
          }
          else Some s1);
       (sz, s3) \<leftarrow> download_packet_process E s2 (Recv 0) e;
       s4 \<leftarrow> download_percentage s3 sz (sint (ImageLen (ctrl s3)));
       if RemainBytes (ctrl s4) \<le> 0 then do {
         s5 \<leftarrow> download_percentage s4 (sz + sizeof_manifest) (sint (ImageLen (ctrl s4)));
         download_finish E s5 (sz + sizeof_manifest)
       }
       else Some (OTA_OK, s4)
     }
   }"

section \<open>The process\<close>

text \<open>The \<open>while (1)\<close> loop of \<open>ota_core_process\<close>. None is a fault or a loop that does not end.\<close>

partial_function (option) process_loop :: "'w ota_env \<Rightarrow> 'w ota \<Rightarrow> (int \<times> 'w ota) option" where
  "process_loop E s =
     (case ota_transport_read (cfg E) (net E) s OTA_BUF_SIZE of (r, bs, s1) \<Rightarrow>
        if OTA_BUF_SIZE < r then None
        else
          let s2 = s1\<lparr>rbuf := list_blit (replicate OTA_BUF_SIZE 0) 0 (take (nat r) bs)\<rparr> in
          if r = 0 then Some (OTA_OK, s2)
          else if r < 0 then Some (OTA_ERR, s2)
          else do {
            (ret, s3) \<leftarrow> ota_fw_program E s2 (nat r);
            if ret = OTA_FINISH then Some (OTA_OK, s3)
            else if ret = OTA_ERR then Some (OTA_ERR, s3)
            else
              process_loop E (case yield_func s3 of Some y \<Rightarrow> s3\<lparr>world := y (world s3)\<rparr> | None \<Rightarrow> s3)
          })"

definition ota_core_process :: "'w ota_env \<Rightarrow> 'w ota \<Rightarrow> (int \<times> 'w ota) option" where
  "ota_core_process E s =
     (case op_malloc (net E) OTA_BUF_SIZE (world s) of
        (False, w) \<Rightarrow> Some (OTA_ERR, s\<lparr>world := w\<rparr>)
      | (True, w) \<Rightarrow>
          process_loop E (s\<lparr>world := w,
            ctrl := (ctrl s)\<lparr>index := 0, IsGetOTAHdr := 0, IsDnldInit := 0\<rparr>\<rparr>))"

text \<open>After a failed connect the code looks at \<open>redirect->port\<close>, also for the transports that have no
  redirect structure.\<close>

definition ota_core_prepare :: "'w ota_env \<Rightarrow> 'w ota \<Rightarrow> (int \<times> 'w ota) option" where
  "ota_core_prepare E s = do {
     (ret, s1) \<leftarrow> ota_transport_connect (cfg E) (net E) s;
     if ret \<noteq> OTA_OK then
       (case redirect s1 of
          None \<Rightarrow> None
        | Some r \<Rightarrow>
            if rport r \<noteq> 0 then ota_transport_connect (cfg E) (net E) s1
            else Some (ret, s1))
     else Some (ret, s1)
   }"

definition ota_start :: "'w ota_env \<Rightarrow> 'w ota \<Rightarrow> (int \<times> 'w ota) option" where
  "ota_start E s = do {
     (e1, s1) \<leftarrow> ota_core_prepare E s;
     if e1 \<noteq> OTA_OK then Some (OTA_ERR, ota_transport_disconnect (cfg E) (net E) s1)
     else do {
       (e2, s2) \<leftarrow> ota_core_process E s1;
       let s3 = ota_transport_disconnect (cfg E) (net E) s2;
       Some (if e2 \<noteq> OTA_OK then OTA_ERR else OTA_OK, s3)
     }
   }"

section \<open>Setting up and tearing down\<close>

definition zero_ctrl :: ota_download_ctrl where
  "zero_ctrl = \<lparr>NextImgFg = 0, NextImgBuf = replicate OTA_BUF_SIZE 0, NextImgLen = 0, ReadBytes = 0,
     RemainBytes = 0, ImgId = 0, ImgOffset = 0, ImageLen = 0, FlashAddr = 0, SigCnt = 0, SigFg = 0,
     SkipBootOTAFg = 0, IsGetOTAHdr = 0, IsDnldInit = 0, slotIdx = 0, index = 0\<rparr>"

definition zero_sub_hdr :: ota_sub_hdr where
  "zero_sub_hdr = \<lparr>Signature = [0, 0, 0, 0], ImgHdrLen = 0, Checksum = 0, ImgLen = 0, Offset = 0, ImgID = 0\<rparr>"

definition zero_hdr :: ota_hdr_manager where
  "zero_hdr = \<lparr>FwVer = 0, HdrNum = 0, FileImgHdr = replicate OTA_IMGID_MAX zero_sub_hdr,
     Manifest = replicate OTA_IMGID_MAX (replicate sizeof_manifest 0), ValidImgCnt = 0\<rparr>"

text \<open>The blocks a context can own. \<open>ota_deinit\<close> frees those whose pointer is not NULL and leaves the
  pointers as they are, so its effect is the list of blocks it frees.\<close>

datatype ota_block = HostBlock | ResourceBlock | RedirectBlock | CaBlock | ClientBlock | KeyBlock
  | CtrlBlock | HdrBlock

definition ota_deinit :: "'w ota \<Rightarrow> ota_block list" where
  "ota_deinit s =
     (if host s \<noteq> None then [HostBlock] else []) @
     (if resource s \<noteq> None then [ResourceBlock] else []) @
     (if redirect s \<noteq> None then [RedirectBlock] else []) @
     (if ca_cert s \<noteq> None then [CaBlock] else []) @
     (if client_cert s \<noteq> None then [ClientBlock] else []) @
     (if private_key s \<noteq> None then [KeyBlock] else []) @
     (if otaCtrl s \<noteq> 0 then [CtrlBlock] else []) @
     (if otaHdrManager s \<noteq> 0 then [HdrBlock] else [])"

text \<open>\<open>zmalloc\<close> gives an address or 0; \<open>za\<close> and \<open>zb\<close> are its two answers. The result is the return value,
  the context and the blocks that were freed.\<close>

definition ota_init ::
  "'w ota_env \<Rightarrow> 'w ota \<Rightarrow> u32 \<Rightarrow> u32 \<Rightarrow> u8 list option \<Rightarrow> int \<Rightarrow> u8 list option \<Rightarrow> u8
     \<Rightarrow> (int \<times> 'w ota \<times> ota_block list) option" where
  "ota_init E s za zb hst prt res type = do {
     let s0 = s\<lparr>host := None, port := 0, resource := None, ca_cert := None, client_cert := None,
       private_key := None, fd := 0, ttype := type, tls := False, redirect := None,
       progress_cb := False, user_read_func := None, user_open_func := None, user_close_func := None,
       yield_func := None, otaCtrl := 0, otaHdrManager := 0\<rparr>;
     (e1, T) \<leftarrow> ota_storage_init (img s0);
     let s1 = s0\<lparr>img := T\<rparr>;
     if e1 \<noteq> OTA_OK then Some (OTA_ERR, s1, ota_deinit s1)
     else
       (case ota_transport_init (net E) s1 hst prt res of (e2, s2) \<Rightarrow>
          if e2 \<noteq> OTA_OK then Some (OTA_ERR, s2, ota_deinit s2)
          else
            let s3 = s2\<lparr>otaCtrl := za, ctrl := zero_ctrl, otaHdrManager := zb, hdr := zero_hdr\<rparr> in
            if za = 0 \<or> zb = 0 then Some (OTA_ERR, s3, ota_deinit s3) else Some (OTA_OK, s3, []))
   }"

definition ota_register_progress_cb :: "bool \<Rightarrow> 'w ota option \<Rightarrow> int \<times> 'w ota option" where
  "ota_register_progress_cb cb ctx =
     (case ctx of None \<Rightarrow> (OTA_ERR, None) | Some s \<Rightarrow> (OTA_OK, Some (s\<lparr>progress_cb := cb\<rparr>)))"

definition ota_register_user_read_func ::
  "(int \<Rightarrow> 'w \<Rightarrow> int \<times> u8 list \<times> 'w) option \<Rightarrow> 'w ota option \<Rightarrow> int \<times> 'w ota option" where
  "ota_register_user_read_func func ctx =
     (case ctx of None \<Rightarrow> (OTA_ERR, None) | Some s \<Rightarrow> (OTA_OK, Some (s\<lparr>user_read_func := func\<rparr>)))"

definition ota_register_user_open_func ::
  "('w \<Rightarrow> int \<times> 'w) option \<Rightarrow> 'w ota option \<Rightarrow> int \<times> 'w ota option" where
  "ota_register_user_open_func func ctx =
     (case ctx of None \<Rightarrow> (OTA_ERR, None) | Some s \<Rightarrow> (OTA_OK, Some (s\<lparr>user_open_func := func\<rparr>)))"

definition ota_register_user_close_func ::
  "('w \<Rightarrow> 'w) option \<Rightarrow> 'w ota option \<Rightarrow> int \<times> 'w ota option" where
  "ota_register_user_close_func func ctx =
     (case ctx of None \<Rightarrow> (OTA_ERR, None) | Some s \<Rightarrow> (OTA_OK, Some (s\<lparr>user_close_func := func\<rparr>)))"

definition ota_register_yield_func ::
  "('w \<Rightarrow> 'w) option \<Rightarrow> 'w ota option \<Rightarrow> int \<times> 'w ota option" where
  "ota_register_yield_func func ctx =
     (case ctx of None \<Rightarrow> (OTA_ERR, None) | Some s \<Rightarrow> (OTA_OK, Some (s\<lparr>yield_func := func\<rparr>)))"

end
