(* ===== verification/Ota_Download.thy ===== *)
theory Ota_Download
  imports Ota_Core
begin

text \<open>
  The download of one image, packet by packet: the invariant that relates the state of
  \<open>download_packet_process\<close> to the part of the image received so far, that every packet keeps it, and
  what follows for the flash when the image is complete and when it is finished.
\<close>

section \<open>The flash during a download\<close>

text \<open>
  \<open>base\<close> is the flash offset of the slot, \<open>im\<close> the image, \<open>n\<close> the number of its bytes received and \<open>N\<close> the
  number of sectors erased. The first 24 bytes, the manifest, stay erased.
\<close>

definition dl_flash :: "memory \<Rightarrow> u32 \<Rightarrow> u8 list \<Rightarrow> nat \<Rightarrow> nat \<Rightarrow> memory" where
  "dl_flash f0 base im n N = (\<lambda>x.
     let off = unat (x - base) in
     if off < 4096 * N then if 24 \<le> off \<and> off < n then im ! off else 0xFF else f0 x)"

definition sectors :: "nat \<Rightarrow> nat" where
  "sectors m = (if m \<le> 24 then 0 else (m + 23) div 4096 + 1)"

lemma dl_flash_erase:
  assumes "4096 * Suc N \<le> 4294967296" and "n \<le> 4096 * N"
  shows "flash_wipe (dl_flash f0 base im n N) (base + of_nat (4096 * N)) 4096 =
    dl_flash f0 base im n (Suc N)"
proof (rule ext)
  fix x
  have "4096 * N < 4294967296" using assms(1) by simp
  from unat_shift [OF this, of x base]
  show "flash_wipe (dl_flash f0 base im n N) (base + of_nat (4096 * N)) 4096 x =
      dl_flash f0 base im n (Suc N) x"
    using assms(2) unat_lt_space [of "x - base"] assms(1)
    by (auto simp: flash_wipe_def dl_flash_def Let_def simp del: of_nat_mult)
qed

lemma dl_flash_prog:
  assumes "n' \<le> 4096 * N" and "4096 * N \<le> 4294967296" and "n' \<le> length im" and "a = max n 24" and "a < n'"
  shows "flash_prog (dl_flash f0 base im n N) (base + of_nat a) (take (n' - a) (drop a im)) =
    dl_flash f0 base im n' N"
proof (rule ext)
  fix x
  let ?bs = "take (n' - a) (drop a im)"
  have len: "length ?bs = n' - a" using assms(3) by simp
  have "a < 4294967296" using assms by simp
  note sh = unat_shift [OF this, of x base]
  show "flash_prog (dl_flash f0 base im n N) (base + of_nat a) ?bs x = dl_flash f0 base im n' N x"
  proof (cases "a \<le> unat (x - base) \<and> unat (x - base) < n'")
    case True
    then have "unat (x - (base + of_nat a)) = unat (x - base) - a" using sh by simp
    moreover have "dl_flash f0 base im n N x = 0xFF"
      using True assms by (auto simp: dl_flash_def Let_def)
    moreover have "unat (x - base) - a < n' - a" using True by linarith
    ultimately show ?thesis
      using True len assms by (auto simp: flash_prog_def dl_flash_def Let_def)
  next
    case False
    then have "n' - a \<le> unat (x - (base + of_nat a))"
      using sh assms unat_lt_space [of "x - base"] by auto
    then show ?thesis
      using False len assms by (auto simp: flash_prog_outside dl_flash_def Let_def)
  qed
qed

section \<open>The invariant\<close>

text \<open>
  \<open>n\<close> bytes of the image are in, and \<open>e\<close> bytes after its end came with the last packet. The
  manifest cache, the counters, the flash and the buffer for the next image agree with that.
\<close>

definition dl_inv :: "'w ota \<Rightarrow> u32 \<Rightarrow> u8 list \<Rightarrow> memory \<Rightarrow> nat \<Rightarrow> nat \<Rightarrow> bool" where
  "dl_inv s base im f0 n e \<longleftrightarrow>
     (let c = ctrl s; L = length im; k = manifest (stat s) in
      IsDnldInit c = 1 \<and> SkipBootOTAFg c = 0 \<and> ImageLen c = of_nat L \<and> ImgOffset c = 0 \<and>
      FlashAddr c = base + 24 \<and> n \<le> L \<and> (e = 0 \<or> n = L) \<and>
      ReadBytes c = int (n + e) \<and> SigFg c = (if n = 0 then 0 else 1) \<and> SigCnt c = int (min n 24) \<and>
      RemainBytes c = int L - int (max n 24) - int e \<and> psize (stat s) = int (n - 24) \<and>
      next_erase_sector (stat s) = of_nat (sectors (n + e)) \<and>
      k < length (Manifest (hdr s)) \<and> length (Manifest (hdr s) ! k) = 24 \<and>
      take (min n 24) (Manifest (hdr s) ! k) = take (min n 24) im \<and>
      length (NextImgBuf c) = 2048 \<and>
      flash s = dl_flash f0 base im n (sectors (n + e)))"

text \<open>What the slot and the image have to satisfy: a slot that starts on a sector, an image that has
  more than a manifest, and a chip that holds it and the sector after it.\<close>

definition slot_ok :: "nat \<Rightarrow> u32 \<Rightarrow> nat \<Rightarrow> bool" where
  "slot_ok fsize base L \<longleftrightarrow> unat base mod 4096 = 0 \<and> 24 < L \<and> L < 2147483648 \<and>
     unat base + L + 8192 \<le> fsize \<and> fsize \<le> 134217728"

lemma slot_okD:
  assumes "slot_ok fsize base L"
  shows "unat base mod 4096 = 0" and "24 < L" and "L < 2147483648"
    and "unat base + L + 8192 \<le> fsize" and "fsize \<le> 134217728"
  using assms by (simp_all add: slot_ok_def)

text \<open>A buffer in RAM: no address of it is NULL or in the flash window.\<close>

definition ram_ok :: "u32 \<Rightarrow> nat \<Rightarrow> bool" where
  "ram_ok p n \<longleftrightarrow> (\<forall>i \<in> set [0..<n]. p + of_nat i \<noteq> 0 \<and> \<not> IS_FLASH_ADDR (p + of_nat i))"

text \<open>The parts of the state a packet leaves alone.\<close>

definition same_frame :: "'w ota \<Rightarrow> 'w ota \<Rightarrow> bool" where
  "same_frame s s' \<longleftrightarrow>
     img s' = img s \<and> world s' = world s \<and> rbuf s' = rbuf s \<and> rbuf_at s' = rbuf_at s \<and>
     otaCtrl s' = otaCtrl s \<and> otaHdrManager s' = otaHdrManager s \<and>
     slotIdx (ctrl s') = slotIdx (ctrl s) \<and> index (ctrl s') = index (ctrl s) \<and>
     IsGetOTAHdr (ctrl s') = IsGetOTAHdr (ctrl s) \<and>
     FileImgHdr (hdr s') = FileImgHdr (hdr s) \<and> ValidImgCnt (hdr s') = ValidImgCnt (hdr s) \<and>
     length (Manifest (hdr s')) = length (Manifest (hdr s)) \<and>
     manifest (stat s') = manifest (stat s) \<and>
     progress_cb s' = progress_cb s \<and> yield_func s' = yield_func s \<and> ttype s' = ttype s \<and>
     fd s' = fd s \<and> user_read_func s' = user_read_func s"

lemma same_frame_trans: "same_frame a b \<Longrightarrow> same_frame b c \<Longrightarrow> same_frame a c"
  by (simp add: same_frame_def)

section \<open>One packet\<close>

lemma bref_add_add: "0 \<le> a \<Longrightarrow> bref_add buf a = (case buf of Recv j \<Rightarrow> Recv (j + nat a) | Next j \<Rightarrow> Next (j + nat a))"
  by (cases buf) (simp_all add: nat_add_distrib)

lemma bref_bytes_add: "0 \<le> a \<Longrightarrow> bref_bytes s (bref_add buf a) = drop (nat a) (bref_bytes s buf)"
  by (cases buf) (simp_all add: nat_add_distrib add.commute)

lemma bref_at_add: "0 \<le> a \<Longrightarrow> bref_at s (bref_add buf a) = bref_at s buf + of_nat (nat a)"
  by (cases buf) (simp_all add: nat_add_distrib add.assoc)

text \<open>The manifest part, when \<open>n\<close> bytes are in and \<open>k\<close> arrive.\<close>

definition after_manifest :: "'w ota \<Rightarrow> nat \<Rightarrow> nat \<Rightarrow> u8 list \<Rightarrow> 'w ota" where
  "after_manifest s n k pk =
     (let j = manifest (stat s) in
      s\<lparr>ctrl := (ctrl s)\<lparr>ReadBytes := int (n + k), SigFg := 1, SigCnt := int (min (n + k) 24)\<rparr>,
        hdr := (hdr s)\<lparr>Manifest :=
          (Manifest (hdr s))[j := list_blit (Manifest (hdr s) ! j) (min n 24) (take (24 - n) pk)]\<rparr>\<rparr>)"

lemma bref_add_0 [simp]: "bref_add buf 0 = buf"
  by (cases buf) simp_all

lemma packet_manifest_step:
  assumes inv: "dl_inv s base im f0 n 0" and n: "n < length im" and k: "0 < k" "k \<le> 2048"
    and L: "length im + 2048 < 2147483648" and pk: "pk = bref_read s buf (int k)"
  shows "packet_manifest (s\<lparr>ctrl := (ctrl s)\<lparr>ReadBytes := ReadBytes (ctrl s) + int k\<rparr>\<rparr>) buf (int k) =
    (after_manifest s n k pk,
     if n + k \<le> 24 then None
     else Some (bref_add buf (int (24 - n)), int (n + k - max n 24)))"
proof -
  note I = inv [unfolded dl_inv_def Let_def]
  let ?s = "s\<lparr>ctrl := (ctrl s)\<lparr>ReadBytes := ReadBytes (ctrl s) + int k\<rparr>\<rparr>"
  have rd: "bref_read ?s buf (int j) = take j pk" if "j \<le> k" for j
    using that by (cases buf) (simp_all add: pk bref_read_def min_def)
  consider (zero) "n = 0" | (mid) "0 < n" "n < 24" | (full) "24 \<le> n" by linarith
  then show ?thesis
  proof cases
    case zero
    have s: "sint (of_int (int k) :: u32) = int k" using n k L by simp
    show ?thesis
    proof (cases "k < 24")
      case True
      then show ?thesis
        using I zero k s rd [of k]
        by (simp add: packet_manifest_def Let_def manifest_write_def after_manifest_def min_def pk bref_read_def)
    next
      case False
      then show ?thesis
        using I zero k s rd [of 24]
        by (auto simp: packet_manifest_def Let_def manifest_write_def after_manifest_def min_def)
    qed
  next
    case mid
    show ?thesis
    proof (cases "n + k < 24")
      case True
      then show ?thesis
        using I mid k rd [of k]
        by (simp add: packet_manifest_def Let_def manifest_write_def after_manifest_def min_def pk bref_read_def)
    next
      case False
      then show ?thesis
        using I mid k rd [of "24 - n"]
        by (auto simp: packet_manifest_def Let_def manifest_write_def after_manifest_def min_def max_def
            of_nat_diff)
    qed
  next
    case full
    then show ?thesis
      using I k by (simp add: packet_manifest_def Let_def after_manifest_def min_def max_def)
  qed
qed

text \<open>The sector count grows by at most one per packet, and only when no byte of the new sector is
  written yet.\<close>

lemma sectors_step:
  assumes "k \<le> 2048" and "24 < n + k"
  shows "sectors (n + k) = (n + k + 23) div 4096 + 1"
    and "sectors n = (n + k + 23) div 4096 \<or> sectors n = sectors (n + k)"
    and "sectors n = (n + k + 23) div 4096 \<Longrightarrow> 24 < n \<Longrightarrow> n \<le> 4096 * sectors n"
    and "n + k \<le> 4096 * sectors (n + k)"
  using assms by (simp_all add: sectors_def) (linarith | presburger)+

lemma write_sector_word:
  assumes "m + 23 < 4294967296"
  shows "((of_nat m :: u32) - 1 + 24) div 4096 = of_nat ((m + 23) div 4096)"
proof -
  have eq: "(of_nat m :: u32) - 1 + 24 = of_nat (m + 23)" by simp
  have "unat (of_nat (m + 23) div 4096 :: u32) = (m + 23) div 4096"
    unfolding unat_div_distrib unat_of_nat_u32 [OF assms] by simp
  moreover have "unat (of_nat ((m + 23) div 4096) :: u32) = (m + 23) div 4096"
    using assms by (intro unat_of_nat_u32) linarith
  ultimately show ?thesis
    unfolding eq word_unat_eq_iff by (simp only:)
qed

lemma sector_aligned:
  assumes "unat base mod 4096 = 0" and "unat base + 4096 * W < 4294967296"
  shows "(base + of_nat (4096 * W)) AND NOT 0xFFF = (base + of_nat (4096 * W) :: u32)"
proof -
  have "unat (base + of_nat (4096 * W)) = unat base + 4096 * W"
    using assms(2) by (intro unat_add_of_nat_no_wrap) simp
  moreover obtain q where q: "unat base = 4096 * q"
    using assms(1) by (auto simp: mod_eq_0_iff_dvd elim: dvdE)
  have "(unat base + 4096 * W) div 4096 * 4096 = unat base + 4096 * W"
    unfolding q by simp
  ultimately show ?thesis
    by (simp only: word_unat_eq_iff unat_align)
qed

text \<open>The data part: \<open>n\<close> bytes were in before, \<open>k\<close> arrived and the manifest is complete.\<close>

definition after_write :: "'w ota \<Rightarrow> u32 \<Rightarrow> u8 list \<Rightarrow> memory \<Rightarrow> nat \<Rightarrow> nat \<Rightarrow> u8 list \<Rightarrow> 'w ota" where
  "after_write s base im f0 n k pk =
     (let L = length im; n' = min (n + k) L; e = n + k - L; c = ctrl s;
          c1 = c\<lparr>RemainBytes := int L - int (n + k)\<rparr>
      in s\<lparr>ctrl := (if e = 0 then c1
                   else c1\<lparr>NextImgLen := int e, NextImgFg := 1,
                           NextImgBuf := list_blit (NextImgBuf c) 0 (drop (L - n) pk)\<rparr>),
           flash := dl_flash f0 base im n' (sectors (n + k)),
           stat := (stat s)\<lparr>write_sector := of_nat ((n + k + 23) div 4096),
             next_erase_sector := of_nat (sectors (n + k)), psize := int (n' - 24)\<rparr>\<rparr>)"

lemma erase_step:
  assumes nf: "nor_flash txf erf fsize" and slot: "slot_ok fsize base L"
    and k: "0 < k" "k \<le> 2048" "24 < n + k" and n: "n < L"
  defines "W \<equiv> (n + k + 23) div 4096"
  shows "(if (of_nat W :: u32) \<ge> of_nat (sectors n)
          then (ota_storage_erase_sector erf (base + of_nat W * 4096) (dl_flash f0 base im n (sectors n)),
                of_nat (sectors n) + 1)
          else (dl_flash f0 base im n (sectors n), of_nat (sectors n))) =
    (dl_flash f0 base im n (sectors (n + k)), of_nat (sectors (n + k)) :: u32)"
proof -
  note S = sectors_step [OF k(2,3), folded W_def]
  note O = slot_okD [OF slot]
  have Wm: "4096 * W \<le> n + k + 23" unfolding W_def by simp
  have W: "unat base + (4096 * W + 4096) \<le> fsize"
    using O(4) k(2) n Wm by linarith
  then have W': "unat base + 4096 * W < 4294967296"
    using O(5) by linarith
  have "W < 4294967296" using W' by linarith
  moreover have "sectors n < 4294967296"
    using S(1,2) W O(5) by linarith
  ultimately have ge: "(of_nat W :: u32) \<ge> of_nat (sectors n) \<longleftrightarrow> sectors n \<le> W"
    by (simp only: word_le_nat_alt unat_of_nat_u32)
  show ?thesis
  proof (cases "sectors n \<le> W")
    case True
    then have eq: "sectors n = W" using S(1,2) by linarith
    have a: "base + of_nat W * 4096 = base + of_nat (4096 * W)" by simp
    have "unat (base + of_nat (4096 * W)) < fsize"
      unfolding unat_add_of_nat_no_wrap [OF W'] using W by linarith
    then have "ota_storage_erase_sector erf (base + of_nat (4096 * W)) (dl_flash f0 base im n W) =
        flash_wipe (dl_flash f0 base im n W) (base + of_nat (4096 * W)) 4096"
      unfolding ota_storage_erase_sector_def
      by (simp only: nor_flash.erase_sector [OF nf] sector_aligned [OF O(1) W'])
    also have "\<dots> = dl_flash f0 base im n (Suc W)"
    proof (cases "24 < n")
      case True
      then show ?thesis
        using W O(5) S(3) eq by (intro dl_flash_erase) simp_all
    next
      case False
      have "dl_flash f0 base im n N = dl_flash f0 base im 0 N" for N
        using False by (auto simp: dl_flash_def Let_def fun_eq_iff)
      then show ?thesis
        using W O(5) dl_flash_erase [of W 0 f0 base im] by simp
    qed
    finally have "ota_storage_erase_sector erf (base + of_nat W * 4096) (dl_flash f0 base im n (sectors n)) =
        dl_flash f0 base im n (sectors (n + k))"
      unfolding a eq S(1) by simp
    then show ?thesis
      unfolding if_P [OF ge [THEN iffD2, OF True]] by (simp add: S(1) eq)
  next
    case False
    then have "\<not> (of_nat W :: u32) \<ge> of_nat (sectors n)" using ge by simp
    moreover have "sectors n = sectors (n + k)" using False S(2) by linarith
    ultimately show ?thesis by (simp only: if_False)
  qed
qed

lemma write_step:
  assumes nf: "nor_flash txf erf fsize" and slot: "slot_ok fsize base (length im)"
    and a: "a = max n 24" and n': "a < n'" "n' \<le> length im" "n' \<le> 4096 * N" and N: "4096 * N \<le> 4294967296"
    and p: "p \<noteq> 0" "\<not> IS_FLASH_ADDR p" and bs: "take (n' - a) bs = take (n' - a) (drop a im)"
  shows "ota_storage_write txf (base + 24 + of_int (int (n - 24))) (p, bs) (of_int (int (n' - a)))
      (dl_flash f0 base im n N) = Some (OTA_OK, dl_flash f0 base im n' N)"
proof -
  note O = slot_okD [OF slot]
  have addr: "base + 24 + of_int (int (n - 24)) = base + of_nat a"
    unfolding a by (cases "n \<le> 24") (simp_all add: of_nat_diff)
  have small: "n' - a < 4294967296" "0 < n' - a" using n' O(3) by linarith+
  then have len: "unat (of_nat (n' - a) :: u32) = n' - a" by (intro unat_of_nat_u32)
  then have nz: "(of_nat (n' - a) :: u32) \<noteq> 0" using small(2) by (metis unat_0 less_irrefl)
  have lbs: "n' - a \<le> length bs"
    using arg_cong [OF bs, of length] n'(2) small(2) by simp
  have "unat (base + of_nat a) = unat base + a"
    using O(4,5) n' by (intro unat_add_of_nat_no_wrap) linarith
  then have fits: "unat (base + of_nat a) + unat (of_nat (n' - a) :: u32) \<le> fsize"
    unfolding len using O(4) n' by linarith
  have "flash_stream_write txf (base + of_nat a) (of_nat (n' - a)) (p, bs) (dl_flash f0 base im n N) =
      Some (1, flash_prog (dl_flash f0 base im n N) (base + of_nat a) (take (n' - a) bs))"
    using nor_flash.stream_write [OF nf nz fits p(2)] lbs unfolding len by simp
  also have "\<dots> = Some (1, dl_flash f0 base im n' N)"
    unfolding bs using dl_flash_prog [OF n'(3) N n'(2) a n'(1)] by simp
  finally show ?thesis
    unfolding addr ota_storage_write_def using p(1) nz by (simp only: of_int_of_nat_eq) simp
qed

text \<open>\<open>packet_write\<close> with its local variables as parameters, for a packet that is written.\<close>

lemma packet_write_eq:
  assumes rem: "RemainBytes (ctrl s) - len0 = rem" "- rem \<le> 2048"
    and len: "(if rem < 0 then len0 - (- rem) else len0) = len"
    and c2: "(if rem < 0
       then ((ctrl s)\<lparr>RemainBytes := rem\<rparr>)\<lparr>NextImgLen := - rem, NextImgFg := 1,
               NextImgBuf := list_blit (NextImgBuf (ctrl s)) 0 (bref_read s (bref_add buf len) (- rem))\<rparr>
       else (ctrl s)\<lparr>RemainBytes := rem\<rparr>) = c2"
    and skip: "SkipBootOTAFg c2 \<noteq> 1"
    and ws: "(ImageLen c2 - of_int rem - 1 + 24) div 4096 = ws"
    and er: "(if ws \<ge> next_erase_sector (stat s)
       then (ota_storage_erase_sector (er E) (FlashAddr c2 - 24 + ws * 4096) (flash s),
             next_erase_sector (stat s) + 1)
       else (flash s, next_erase_sector (stat s))) = (f1, nes)"
    and wr: "ota_storage_write (tx E) (FlashAddr c2 + of_int (psize (stat s)))
       (bref_at (s\<lparr>ctrl := c2\<rparr>) buf, bref_bytes (s\<lparr>ctrl := c2\<rparr>) buf) (of_int len) f1 = Some (r, f2)"
  shows "packet_write E s buf len0 =
    Some (s\<lparr>ctrl := c2, flash := f2, stat := (stat s)\<lparr>write_sector := ws, next_erase_sector := nes,
       psize := psize (stat s) + len\<rparr>\<rparr>)"
proof -
  have nrem: "\<not> 2048 < - rem" using rem(2) by simp
  have nb: "NextImgBuf ((ctrl s)\<lparr>RemainBytes := rem\<rparr>) = NextImgBuf (ctrl s)" by simp
  have st: "stat (s\<lparr>ctrl := c2\<rparr>) = stat s" "flash (s\<lparr>ctrl := c2\<rparr>) = flash s" by simp_all
  show ?thesis
    unfolding packet_write_def Let_def rem(1) nb len c2 ws st er
    using skip nrem by (simp add: wr)
qed

lemma packet_write_step:
  assumes nf: "nor_flash (tx E) (er E) fsize" and slot: "slot_ok fsize base (length im)"
    and inv: "dl_inv s base im f0 n 0" and n: "n < length im" and k: "0 < k" "k \<le> 2048" "24 < n + k"
    and bytes: "k \<le> length (bref_bytes s buf)"
      "take (min k (length im - n)) (bref_bytes s buf) = take (min k (length im - n)) (drop n im)"
    and ram: "ram_ok (bref_at s buf) k" and dest: "n + k \<le> length im \<or> (\<exists>j. buf = Recv j)"
    and pk: "pk = bref_read s buf (int k)"
  shows "packet_write E (after_manifest s n k pk) (bref_add buf (int (24 - n))) (int (n + k - max n 24)) =
    Some (after_write (after_manifest s n k pk) base im f0 n k pk)"
proof -
  let ?L = "length im"
  define a where "a = max n 24"
  define n' where "n' = min (n + k) ?L"
  define s3 where "s3 = after_manifest s n k pk"
  define buf' where "buf' = bref_add buf (int (24 - n))"
  note I = inv [unfolded dl_inv_def Let_def]
  note O = slot_okD [OF slot]
  have c3: "RemainBytes (ctrl s3) = int ?L - int a" "SkipBootOTAFg (ctrl s3) = 0"
    "ImageLen (ctrl s3) = of_nat ?L" "FlashAddr (ctrl s3) = base + 24"
    "flash s3 = dl_flash f0 base im n (sectors n)" "psize (stat s3) = int (n - 24)"
    "next_erase_sector (stat s3) = of_nat (sectors n)"
    using I by (simp_all add: s3_def after_manifest_def a_def Let_def)
  have bb: "bref_bytes s3 b = bref_bytes s b" "bref_at s3 b = bref_at s b" for b
    by (cases b; simp add: s3_def after_manifest_def Let_def)+
  have an: "a < n'" "n' \<le> ?L" "n' \<le> n + k"
    using n k O(2) by (auto simp: a_def n'_def)
  define c2 where "c2 = ctrl (after_write s3 base im f0 n k pk)"
  have c2: "SkipBootOTAFg c2 = 0" "ImageLen c2 = of_nat ?L" "FlashAddr c2 = base + 24"
    using c3 by (simp_all add: c2_def after_write_def Let_def)
  have buf2: "bref_bytes (s3\<lparr>ctrl := c2\<rparr>) buf' = drop (24 - n) (bref_bytes s buf)"
    "bref_at (s3\<lparr>ctrl := c2\<rparr>) buf' = bref_at s buf + of_nat (24 - n)"
  proof -
    have "NextImgBuf c2 = NextImgBuf (ctrl s3)" if "n + k \<le> ?L"
      using that by (simp add: c2_def after_write_def Let_def)
    then have "bref_bytes (s3\<lparr>ctrl := c2\<rparr>) buf = bref_bytes s3 buf"
      using dest by (cases buf) auto
    moreover have "bref_at (s3\<lparr>ctrl := c2\<rparr>) buf = bref_at s3 buf" by (cases buf) simp_all
    ultimately show "bref_bytes (s3\<lparr>ctrl := c2\<rparr>) buf' = drop (24 - n) (bref_bytes s buf)"
      "bref_at (s3\<lparr>ctrl := c2\<rparr>) buf' = bref_at s buf + of_nat (24 - n)"
      by (simp_all add: buf'_def bref_bytes_add bref_at_add bb)
  qed
  have rem: "RemainBytes (ctrl s3) - int (n + k - max n 24) = int ?L - int (n + k)"
    unfolding c3(1) using k a_def by (auto simp: max_def of_nat_diff)
  have rem2: "- (int ?L - int (n + k)) \<le> 2048" using n k(2) by simp
  have len: "(if int ?L - int (n + k) < 0
      then int (n + k - max n 24) - (- (int ?L - int (n + k))) else int (n + k - max n 24)) = int (n' - a)"
    using k(3) O(2) n by (auto simp: n'_def a_def max_def min_def of_nat_diff)
  have ctrl2: "(if int ?L - int (n + k) < 0
      then ((ctrl s3)\<lparr>RemainBytes := int ?L - int (n + k)\<rparr>)\<lparr>NextImgLen := - (int ?L - int (n + k)), NextImgFg := 1,
         NextImgBuf := list_blit (NextImgBuf (ctrl s3)) 0
           (bref_read s3 (bref_add buf' (int (n' - a))) (- (int ?L - int (n + k))))\<rparr>
      else (ctrl s3)\<lparr>RemainBytes := int ?L - int (n + k)\<rparr>) = c2"
  proof (cases "n + k \<le> ?L")
    case True
    then show ?thesis by (simp add: c2_def after_write_def Let_def)
  next
    case False
    have i: "n' - a + (24 - n) = ?L - n" "nat (int (n + k) - int ?L) = n + k - ?L"
      "?L - n + (n + k - ?L) = k"
      using False n O(2) by (auto simp: n'_def a_def)
    have "bref_read s3 (bref_add buf' (int (n' - a))) (int (n + k) - int ?L) = drop (?L - n) pk"
      unfolding bref_read_def buf'_def pk i(2)
      using i(1,3) drop_take [of "?L - n" k "bref_bytes s buf"]
      by (simp add: bref_bytes_add bb add.commute [of k n])
    then show ?thesis
      using False by (simp add: c2_def after_write_def Let_def of_nat_diff)
  qed
  have ws: "(ImageLen c2 - of_int (int ?L - int (n + k)) - 1 + 24) div 4096 =
      (of_nat ((n + k + 23) div 4096) :: u32)"
  proof -
    have "ImageLen c2 - of_int (int ?L - int (n + k)) = (of_nat (n + k) :: u32)"
      unfolding c2 by simp
    then show ?thesis
      using write_sector_word [of "n + k"] n k(2) O(3) by (simp only:)
  qed
  have fa: "FlashAddr c2 - 24 = base" unfolding c2 by simp
  have wr: "ota_storage_write (tx E) (FlashAddr c2 + of_int (psize (stat s3)))
      (bref_at (s3\<lparr>ctrl := c2\<rparr>) buf', bref_bytes (s3\<lparr>ctrl := c2\<rparr>) buf') (of_int (int (n' - a)))
      (dl_flash f0 base im n (sectors (n + k))) = Some (OTA_OK, dl_flash f0 base im n' (sectors (n + k)))"
    unfolding c2 c3 buf2
  proof (rule write_step [OF nf slot a_def an(1,2)])
    note S = sectors_step(1,4) [OF k(2,3)]
    show "n' \<le> 4096 * sectors (n + k)" using S(2) an(3) by linarith
    define W where "W = (n + k + 23) div 4096"
    have "4096 * W \<le> n + k + 23" unfolding W_def by simp
    then show "4096 * sectors (n + k) \<le> 4294967296"
      unfolding S(1) W_def [symmetric] using n k(2) O(4,5) by simp
    show "bref_at s buf + of_nat (24 - n) \<noteq> 0" "\<not> IS_FLASH_ADDR (bref_at s buf + of_nat (24 - n))"
      using ram k(1,3) unfolding ram_ok_def by auto
    have i: "min k (?L - n) = (24 - n) + (n' - a)" "n + (24 - n) = a"
      using n k O(2) by (auto simp: n'_def a_def)
    have "drop (24 - n) (take ((24 - n) + (n' - a)) (bref_bytes s buf)) =
        drop (24 - n) (take ((24 - n) + (n' - a)) (drop n im))"
      using bytes(2) unfolding i(1) by simp
    then show "take (n' - a) (drop (24 - n) (bref_bytes s buf)) = take (n' - a) (drop a im)"
      using i(2) by (simp add: drop_take add.commute [of "24 - n" n])
  qed
  have "packet_write E s3 buf' (int (n + k - max n 24)) = Some (s3\<lparr>ctrl := c2,
      flash := dl_flash f0 base im n' (sectors (n + k)),
      stat := (stat s3)\<lparr>write_sector := of_nat ((n + k + 23) div 4096),
        next_erase_sector := of_nat (sectors (n + k)), psize := psize (stat s3) + int (n' - a)\<rparr>\<rparr>)"
    by (rule packet_write_eq [OF rem rem2 len ctrl2 _ ws _ wr])
       (simp add: c2, unfold c3 fa, rule erase_step [OF nf slot k n])
  moreover have "psize (stat s3) + int (n' - a) = int (n' - 24)"
    unfolding c3 using an by (auto simp: a_def max_def of_nat_diff split: if_splits)
  ultimately show ?thesis
    unfolding s3_def [symmetric] buf'_def [symmetric]
    by (simp add: after_write_def Let_def c2_def n'_def)
qed

text \<open>One packet of the image (the last one may carry bytes of what comes after it).\<close>

lemma packet_step:
  assumes nf: "nor_flash (tx E) (er E) fsize" and slot: "slot_ok fsize base (length im)"
    and inv: "dl_inv s base im f0 n 0" and n: "n < length im" and k: "0 < k" "k \<le> 2048"
    and bytes: "k \<le> length (bref_bytes s buf)"
      "take (min k (length im - n)) (bref_bytes s buf) = take (min k (length im - n)) (drop n im)"
    and ram: "ram_ok (bref_at s buf) k" and dest: "n + k \<le> length im \<or> (\<exists>j. buf = Recv j)"
  defines "n' \<equiv> min (n + k) (length im)" and "e \<equiv> n + k - length im"
  shows "\<exists>s'. download_packet_process E s buf (int k) = Some (int (n' - 24), s') \<and>
    dl_inv s' base im f0 n' e \<and> same_frame s s' \<and>
    (if e = 0 then NextImgFg (ctrl s') = NextImgFg (ctrl s) \<and> NextImgLen (ctrl s') = NextImgLen (ctrl s) \<and>
                   NextImgBuf (ctrl s') = NextImgBuf (ctrl s)
     else NextImgFg (ctrl s') = 1 \<and> NextImgLen (ctrl s') = int e \<and>
          take e (NextImgBuf (ctrl s')) = drop (length im - n) (bref_read s buf (int k)))"
proof -
  define pk where "pk = bref_read s buf (int k)"
  let ?s3 = "after_manifest s n k pk" and ?j = "manifest (stat s)"
  note I = inv [unfolded dl_inv_def Let_def]
  note O = slot_okD [OF slot]
  have pm: "packet_manifest (s\<lparr>ctrl := (ctrl s)\<lparr>ReadBytes := ReadBytes (ctrl s) + int k\<rparr>\<rparr>) buf (int k) =
      (?s3, if n + k \<le> 24 then None else Some (bref_add buf (int (24 - n)), int (n + k - max n 24)))"
    using O by (intro packet_manifest_step [OF inv n k _ pk_def]) linarith
  have lpk: "length pk = k" using bytes(1) by (simp add: pk_def bref_read_def)
  have mf: "take (min n' 24) (Manifest (hdr ?s3) ! ?j) = take (min n' 24) im"
    "length (Manifest (hdr ?s3) ! ?j) = 24" "?j < length (Manifest (hdr ?s3))"
  proof -
    let ?old = "Manifest (hdr s) ! ?j"
    have new: "Manifest (hdr ?s3) ! ?j = list_blit ?old (min n 24) (take (24 - n) pk)"
      using I by (simp add: after_manifest_def Let_def)
    show "length (Manifest (hdr ?s3) ! ?j) = 24" "?j < length (Manifest (hdr ?s3))"
      using I lpk by (simp_all add: new) (simp_all add: after_manifest_def Let_def)
    have "take (24 - n) pk = take (min k (24 - n)) (drop n im)"
      using arg_cong [OF bytes(2), of "take (24 - n)"] O(2) n
      by (auto simp: pk_def bref_read_def min_def split: if_splits)
    moreover have "take (min n 24) ?old = take (min n 24) im" "length ?old = 24" using I by simp_all
    moreover have "min n' 24 = min (n + k) 24" using O(2) by (simp add: n'_def)
    ultimately show "take (min n' 24) (Manifest (hdr ?s3) ! ?j) = take (min n' 24) im"
      unfolding new using n O(2) lpk
      by (cases "n < 24") (auto simp: list_blit_def min_def take_add simp flip: take_add)
  qed
  have frame: "same_frame s ?s3"
    using I by (simp add: same_frame_def after_manifest_def Let_def)
  show ?thesis
  proof (cases "n + k \<le> 24")
    case True
    then have e: "e = 0" "n' = n + k" "n' \<le> 24" "sectors n' = 0" "sectors n = 0"
      using O(2) by (auto simp: e_def n'_def sectors_def)
    have "download_packet_process E s buf (int k) = Some (psize (stat ?s3), ?s3)"
      using I pm True by (simp add: download_packet_process_def)
    moreover have "dl_inv ?s3 base im f0 n' 0"
      using I mf k e O(2) n
      by (auto simp: dl_inv_def after_manifest_def Let_def dl_flash_def)
    moreover have "psize (stat ?s3) = int (n' - 24)"
      using I e by (simp add: after_manifest_def Let_def)
    ultimately show ?thesis
      using frame e by (auto simp: after_manifest_def Let_def)
  next
    case False
    then have k3: "24 < n + k" by simp
    let ?s4 = "after_write ?s3 base im f0 n k pk"
    have "download_packet_process E s buf (int k) = Some (psize (stat ?s4), ?s4)"
      using I pm False packet_write_step [OF nf slot inv n k k3 bytes ram dest pk_def]
      by (simp add: download_packet_process_def)
    moreover have "psize (stat ?s4) = int (n' - 24)"
      by (simp add: after_write_def Let_def n'_def)
    moreover have "dl_inv ?s4 base im f0 n' e"
    proof -
      have "n' + e = n + k" "24 < n'" "int (length im) - int (max n' 24) - int e = int (length im) - int (n + k)"
        using k3 O(2) by (auto simp: n'_def e_def)
      then show ?thesis
        using I mf O(2) lpk k n unfolding dl_inv_def
        by (auto simp: after_write_def after_manifest_def Let_def n'_def e_def)
    qed
    moreover have "same_frame s ?s4"
      using frame by (simp add: same_frame_def after_write_def Let_def)
    moreover have "if e = 0 then NextImgFg (ctrl ?s4) = NextImgFg (ctrl s) \<and>
          NextImgLen (ctrl ?s4) = NextImgLen (ctrl s) \<and> NextImgBuf (ctrl ?s4) = NextImgBuf (ctrl s)
        else NextImgFg (ctrl ?s4) = 1 \<and> NextImgLen (ctrl ?s4) = int e \<and>
          take e (NextImgBuf (ctrl ?s4)) = drop (length im - n) pk"
      using lpk n by (auto simp: after_write_def after_manifest_def Let_def e_def list_blit_def)
    ultimately show ?thesis
      unfolding pk_def [symmetric] by (intro exI [of _ ?s4]) (simp only:)
  qed
qed

end
