(* ===== verification/Ota_Image.thy ===== *)
theory Ota_Image
  imports Ota_Download
begin

text \<open>
  From packets to an updated slot: an image that is complete is checked against its checksum and only
  then gets its manifest; the loop of \<open>ota_core_process\<close> over the packets of a file.
\<close>

section \<open>The finished slot\<close>

definition dl_done :: "memory \<Rightarrow> u32 \<Rightarrow> u8 list \<Rightarrow> nat \<Rightarrow> memory" where
  "dl_done f0 base im N = (\<lambda>x.
     let off = unat (x - base) in
     if off < 4096 * N then if off < length im then im ! off else 0xFF else f0 x)"

text \<open>What the state has to say about the image that is being downloaded.\<close>

definition img_inv :: "'w ota \<Rightarrow> u32 \<Rightarrow> u8 list \<Rightarrow> u32 \<Rightarrow> bool" where
  "img_inv s base im ck \<longleftrightarrow>
     (let i = unat (index (ctrl s)) in
      i < length (FileImgHdr (hdr s)) \<and> manifest (stat s) = i \<and>
      ImgLen (FileImgHdr (hdr s) ! i) = of_nat (length im) \<and> Checksum (FileImgHdr (hdr s) ! i) = ck \<and>
      tab_get (img s) (unat (ImgID (FileImgHdr (hdr s) ! i))) (unat (slotIdx (ctrl s))) =
        Some (base + SPI_FLASH_BASE) \<and>
      ram_ok (manifest_at s i) 24)"

lemma img_inv_frame: "img_inv s base im ck \<Longrightarrow> same_frame s s' \<Longrightarrow> img_inv s' base im ck"
  by (simp add: img_inv_def same_frame_def Let_def manifest_at_def)

lemma dl_done_prog:
  assumes "M = take 24 im" and "24 < length im" and "0 < N" and "4096 * N \<le> 4294967296"
    and "length im \<le> 4096 * N"
  shows "flash_prog (flash_prog (dl_flash f0 base im (length im) N) (base + 8) (drop 8 M)) base (take 8 M) =
    dl_done f0 base im N"
proof (rule ext)
  fix x
  have "unat (x - (base + of_nat 8)) = (if 8 \<le> unat (x - base) then unat (x - base) - 8
      else unat (x - base) + 4294967296 - 8)"
    by (rule unat_shift) simp
  then have sh: "unat (x - (base + 8)) = (if 8 \<le> unat (x - base) then unat (x - base) - 8
      else unat (x - base) + 4294967296 - 8)" by simp
  consider "unat (x - base) < 8" | "8 \<le> unat (x - base)" "unat (x - base) < 24" | "24 \<le> unat (x - base)"
    by linarith
  then show "flash_prog (flash_prog (dl_flash f0 base im (length im) N) (base + 8) (drop 8 M)) base (take 8 M) x =
      dl_done f0 base im N x"
    using assms by cases (auto simp: flash_prog_def dl_flash_def dl_done_def Let_def sh)
qed

lemma manifest_cached:
  assumes "dl_inv s base im f0 (length im) e" and "24 < length im"
  shows "Manifest (hdr s) ! manifest (stat s) = take 24 im" and "manifest (stat s) < length (Manifest (hdr s))"
  using assms by (auto simp: dl_inv_def Let_def)

section \<open>Checking and finishing\<close>

lemma flash_window:
  assumes "unat base + i < 134217728"
  shows "IS_FLASH_ADDR (base + SPI_FLASH_BASE + of_nat i)"
proof -
  have "unat (base + SPI_FLASH_BASE) = unat base + 134217728"
    using assms by (subst unat_add_no_wrap) simp_all
  then have "unat (base + SPI_FLASH_BASE + of_nat i) = unat base + 134217728 + i"
    using assms by (subst unat_add_of_nat_no_wrap) simp_all
  then show ?thesis
    using assms unfolding IS_FLASH_ADDR_def word_le_nat_alt by simp
qed

lemma verify_checksum_eq:
  assumes slot: "slot_ok fsize base (length im)" and inv: "dl_inv s base im f0 (length im) e"
    and im: "img_inv s base im ck"
  shows "ota_storage_verify_checksum b (img s) (hdr s) (slotIdx (ctrl s)) (unat (index (ctrl s))) (flash s) =
    Some (if add_bytes 0 im \<noteq> ck then OTA_ERR else OTA_OK)"
proof -
  let ?L = "length im" and ?a = "base + SPI_FLASH_BASE"
  note O = slot_okD [OF slot]
  note M = manifest_cached [OF inv O(2)]
  note J = im [unfolded img_inv_def Let_def]
  have S: "?L \<le> 4096 * sectors (?L + e)"
    using O(2) by (simp add: sectors_def)
  have byte: "bus_read b (flash s) (?a + of_nat i + 24) = im ! (24 + i)" if i: "i < ?L - 24" for i
  proof -
    have eq: "?a + of_nat i + 24 = ?a + of_nat (24 + i)" by simp
    have w: "IS_FLASH_ADDR (?a + of_nat (24 + i))"
      using i O(4,5) by (intro flash_window) linarith
    have "unat (of_nat (24 + i) :: u32) = 24 + i"
      using i O(3) by (intro unat_of_nat_u32) linarith
    then show ?thesis
      unfolding eq bus_read_def using w inv i S
      by (auto simp: dl_inv_def Let_def dl_flash_def)
  qed
  have len: "unat (of_nat ?L - 24 :: u32) = ?L - 24"
    using O(2,3) by (subst unat_sub_no_wrap) simp_all
  have "map (\<lambda>i. bus_read b (flash s) (?a + of_nat i + 24)) [0..<?L - 24] =
      map (\<lambda>i. im ! (24 + i)) [0..<?L - 24]"
    by (rule map_cong [OF refl]) (rule byte, simp)
  also have "\<dots> = drop 24 im"
    by (rule nth_equalityI) simp_all
  finally have "map (\<lambda>i. bus_read b (flash s) (?a + of_nat i + 24)) [0..<?L - 24] = drop 24 im" .
  moreover have "add_bytes (add_bytes 0 (take 24 im)) (drop 24 im) = add_bytes 0 im"
    unfolding add_bytes_def by (simp flip: foldl_append)
  ultimately show ?thesis
    using J M len by (simp add: ota_storage_verify_checksum_def nth_opt_def)
qed

lemma storage_write_prog:
  assumes "nor_flash txf erf fsize" and "bs \<noteq> []" and "unat a + length bs \<le> fsize"
    and "fsize \<le> 134217728" and "p \<noteq> 0" and "\<not> IS_FLASH_ADDR p"
  shows "ota_storage_write txf a (p, bs) (of_nat (length bs)) f = Some (OTA_OK, flash_prog f a bs)"
proof -
  have u: "unat (of_nat (length bs) :: u32) = length bs" using assms(3,4) by simp
  then have nz: "(of_nat (length bs) :: u32) \<noteq> 0" using assms(2) by (metis length_0_conv unat_0)
  have "flash_stream_write txf a (of_nat (length bs)) (p, bs) f = Some (1, flash_prog f a bs)"
    using nor_flash.stream_write [OF assms(1) nz, of a p bs f] assms(3,6) u by simp
  then show ?thesis
    using assms(5) nz by (simp add: ota_storage_write_def)
qed

text \<open>The manifest is written in two pieces, the pattern last.\<close>

lemma update_manifest_eq:
  assumes nf: "nor_flash txf erf fsize" and slot: "slot_ok fsize base (length im)"
    and inv: "dl_inv s base im f0 (length im) e" and im: "img_inv s base im ck" and e: "e \<le> 2048"
  shows "ota_storage_update_manifest False txf (manifest_at s (unat (index (ctrl s)))) sp (img s) (hdr s)
      (slotIdx (ctrl s)) (index (ctrl s)) (flash s) =
    Some (OTA_OK, dl_done f0 base im (sectors (length im + e)))"
proof -
  let ?M = "take 24 im" and ?f = "flash s" and ?p = "manifest_at s (unat (index (ctrl s)))"
  note O = slot_okD [OF slot]
  note M = manifest_cached [OF inv O(2)]
  note J = im [unfolded img_inv_def Let_def]
  have ram: "?p + of_nat i \<noteq> 0 \<and> \<not> IS_FLASH_ADDR (?p + of_nat i)" if "i < 24" for i
    using J that unfolding ram_ok_def by auto
  have u8: "unat (base + 8) = unat base + 8"
    using O(4,5) by (subst unat_add_no_wrap) simp_all
  have l: "length (drop 8 ?M) = 16" "length (take 8 ?M) = 8" using O(2) by simp_all
  have w1: "ota_storage_write txf (base + 8) (?p + 8, drop 8 ?M) 16 ?f =
      Some (OTA_OK, flash_prog ?f (base + 8) (drop 8 ?M))"
    using storage_write_prog [OF nf, of "drop 8 ?M" "base + 8" "?p + 8" ?f] l u8 O(4,5) ram [of 8] by force
  have w2: "ota_storage_write txf base (?p, take 8 ?M) 8 g = Some (OTA_OK, flash_prog g base (take 8 ?M))" for g
    using storage_write_prog [OF nf, of "take 8 ?M" base ?p g] l O(4,5) ram [of 0] by force
  have S: "length im \<le> 4096 * sectors (length im + e)" "0 < sectors (length im + e)"
    using O(2) by (simp_all add: sectors_def)
  have "4096 * sectors (length im + e) \<le> 4294967296"
    using O e by (simp add: sectors_def)
  then have "flash_prog (flash_prog ?f (base + 8) (drop 8 ?M)) base (take 8 ?M) =
      dl_done f0 base im (sectors (length im + e))"
    using dl_done_prog [OF refl O(2) S(2) _ S(1)] inv by (simp add: dl_inv_def Let_def)
  then show ?thesis
    using J M w1 [unfolded add.commute [of base 8]] w2
    by (simp add: ota_storage_update_manifest_def nth_opt_def add.commute [of 8 base])
qed

lemma download_finish_eq:
  assumes nf: "nor_flash (tx E) (er E) fsize" and slot: "slot_ok fsize base (length im)"
    and inv: "dl_inv s base im f0 (length im) e" and im: "img_inv s base im ck" and e: "e \<le> 2048"
    and cfg: "\<not> SWITCH_BY_VALID_HEADER (cfg E)"
  shows "download_finish E s (int (length im)) =
    (if add_bytes 0 im \<noteq> ck then Some (OTA_ERR, s)
     else
       let s1 = s\<lparr>flash := dl_done f0 base im (sectors (length im + e))\<rparr> in
       if uint (index (ctrl s)) < uint (ValidImgCnt (hdr s)) - 1
       then Some (OTA_OK, s1\<lparr>ctrl := (ctrl s)\<lparr>index := index (ctrl s) + 1, IsDnldInit := 0\<rparr>\<rparr>)
       else Some (OTA_FINISH, s1))"
  using inv update_manifest_eq [OF nf slot inv im e] verify_checksum_eq [OF slot inv im] cfg
  by (simp add: download_finish_def dl_inv_def Let_def OTA_ERR_def OTA_OK_def)

section \<open>Packets through \<open>ota_fw_program\<close>\<close>

text \<open>The progress report changes nothing the download depends on.\<close>

definition same_download :: "'w ota \<Rightarrow> 'w ota \<Rightarrow> bool" where
  "same_download s s' \<longleftrightarrow> same_frame s s' \<and> ctrl s' = ctrl s \<and> hdr s' = hdr s \<and> flash s' = flash s \<and>
     psize (stat s') = psize (stat s) \<and> next_erase_sector (stat s') = next_erase_sector (stat s)"

lemma percentage_same:
  assumes "0 < t"
  shows "\<exists>s'. download_percentage s c t = Some s' \<and> same_download s s'"
  using assms
  by (auto simp: download_percentage_def Let_def same_download_def same_frame_def)

lemma dl_inv_same: "dl_inv s base im f0 n e \<Longrightarrow> same_download s s' \<Longrightarrow> dl_inv s' base im f0 n e"
  by (simp add: dl_inv_def same_download_def same_frame_def Let_def)

lemma same_download_trans: "same_download a b \<Longrightarrow> same_download b c \<Longrightarrow> same_download a c"
  by (auto simp: same_download_def intro: same_frame_trans)

text \<open>A packet in the receive buffer that does not reach the end of the image.\<close>

lemma fw_program_middle:
  assumes nf: "nor_flash (tx E) (er E) fsize" and slot: "slot_ok fsize base (length im)"
    and inv: "dl_inv s base im f0 n 0" and k: "0 < k" "k \<le> 2048" and n: "n + k < length im"
    and pk: "k \<le> length (rbuf s)" "take k (rbuf s) = take k (drop n im)" and ram: "ram_ok (rbuf_at s) k"
    and fl: "IsGetOTAHdr (ctrl s) \<noteq> 0" "NextImgFg (ctrl s) \<noteq> 1"
  shows "\<exists>s'. ota_fw_program E s k = Some (OTA_OK, s') \<and> dl_inv s' base im f0 (n + k) 0 \<and>
    same_frame s s' \<and> NextImgFg (ctrl s') \<noteq> 1"
proof -
  note O = slot_okD [OF slot]
  have m: "min k (length im - n) = k" "min (n + k) (length im) = n + k" "n + k - length im = 0" "n < length im"
    using n by auto
  have "\<exists>s1. download_packet_process E s (Recv 0) (int k) = Some (int (n + k - 24), s1) \<and>
      dl_inv s1 base im f0 (n + k) 0 \<and> same_frame s s1 \<and> NextImgFg (ctrl s1) = NextImgFg (ctrl s)"
    using packet_step [OF nf slot inv m(4) k, of "Recv 0"] pk ram unfolding m by auto
  then obtain s1 where s1: "download_packet_process E s (Recv 0) (int k) = Some (int (n + k - 24), s1)"
    "dl_inv s1 base im f0 (n + k) 0" "same_frame s s1" "NextImgFg (ctrl s1) = NextImgFg (ctrl s)"
    by blast
  have il: "sint (ImageLen (ctrl s1)) = int (length im)"
    using s1(2) O(3) by (simp add: dl_inv_def Let_def)
  obtain s2 where s2: "download_percentage s1 (int (n + k - 24)) (int (length im)) = Some s2" "same_download s1 s2"
    using percentage_same [of "int (length im)"] O(2) by fastforce
  have inv2: "dl_inv s2 base im f0 (n + k) 0" using dl_inv_same [OF s1(2) s2(2)] .
  then have rem: "\<not> RemainBytes (ctrl s2) \<le> 0" using n O(2) by (simp add: dl_inv_def Let_def)
  have "ota_fw_program E s k = Some (OTA_OK, s2)"
    using fl s1(1) il s2(1) rem by (simp add: ota_fw_program_def)
  moreover have "same_frame s s2" "NextImgFg (ctrl s2) \<noteq> 1"
    using s1(3,4) s2(2) fl(2) by (auto simp: same_download_def intro: same_frame_trans)
  ultimately show ?thesis using inv2 by blast
qed

text \<open>The packet that ends the image, possibly with bytes after it.\<close>

lemma fw_program_last:
  assumes nf: "nor_flash (tx E) (er E) fsize" and slot: "slot_ok fsize base (length im)"
    and inv: "dl_inv s base im f0 n 0" and im: "img_inv s base im ck" and cfg: "\<not> SWITCH_BY_VALID_HEADER (cfg E)"
    and k: "0 < k" "k \<le> 2048" and n: "n < length im" "length im \<le> n + k"
    and pk: "k \<le> length (rbuf s)" "take (length im - n) (rbuf s) = drop n im" and ram: "ram_ok (rbuf_at s) k"
    and fl: "IsGetOTAHdr (ctrl s) \<noteq> 0" "NextImgFg (ctrl s) \<noteq> 1"
  shows "\<exists>s'. dl_inv s' base im f0 (length im) (n + k - length im) \<and> same_frame s s' \<and>
    ota_fw_program E s k = download_finish E s' (int (length im))"
proof -
  note O = slot_okD [OF slot]
  have m: "min k (length im - n) = length im - n" "min (n + k) (length im) = length im" using n by auto
  have "\<exists>s1. download_packet_process E s (Recv 0) (int k) = Some (int (length im - 24), s1) \<and>
      dl_inv s1 base im f0 (length im) (n + k - length im) \<and> same_frame s s1"
    using packet_step [OF nf slot inv n(1) k, of "Recv 0"] pk ram unfolding m by auto
  then obtain s1 where s1: "download_packet_process E s (Recv 0) (int k) = Some (int (length im - 24), s1)"
    "dl_inv s1 base im f0 (length im) (n + k - length im)" "same_frame s s1" by blast
  have il: "sint (ImageLen (ctrl s')) = int (length im)" if "ctrl s' = ctrl s1" for s'
    using s1(2) O(3) that by (simp add: dl_inv_def Let_def)
  have t: "0 < int (length im)" using O(2) by linarith
  obtain s2 where s2: "download_percentage s1 (int (length im - 24)) (int (length im)) = Some s2" "same_download s1 s2"
    using percentage_same [OF t] by blast
  obtain s3 where s3: "download_percentage s2 (int (length im - 24) + 24) (int (length im)) = Some s3" "same_download s2 s3"
    using percentage_same [OF t] by blast
  have same: "same_download s1 s3" using s2(2) s3(2) by (rule same_download_trans)
  have c: "ctrl s2 = ctrl s1" using s2(2) by (simp add: same_download_def)
  have rem: "RemainBytes (ctrl s2) \<le> 0" using s1(2) O(2) c by (simp add: dl_inv_def Let_def)
  have sz: "int (length im - 24) + 24 = int (length im)" using O(2) by simp
  have "ota_fw_program E s k = download_finish E s3 (int (length im))"
    using fl s1(1) il [OF refl] il [OF c] s2(1) s3(1) rem sz by (simp add: ota_fw_program_def)
  moreover have "dl_inv s3 base im f0 (length im) (n + k - length im)" "same_frame s s3"
    using dl_inv_same [OF s1(2) same] s1(3) same by (auto simp: same_download_def intro: same_frame_trans)
  ultimately show ?thesis by blast
qed

section \<open>The loop over the packets\<close>

text \<open>A user's read function that delivers the packets one after the other.\<close>

fun delivers :: "(int \<Rightarrow> 'w \<Rightarrow> int \<times> u8 list \<times> 'w) \<Rightarrow> 'w \<Rightarrow> u8 list list \<Rightarrow> bool" where
  "delivers f w [] \<longleftrightarrow> True"
| "delivers f w (p # ps) \<longleftrightarrow>
     (case f OTA_BUF_SIZE w of (r, bs, w') \<Rightarrow>
        r = int (length p) \<and> bs = p \<and> p \<noteq> [] \<and> length p \<le> OTA_BUF_SIZE \<and> delivers f w' ps)"

definition user_ready :: "(int \<Rightarrow> 'w \<Rightarrow> int \<times> u8 list \<times> 'w) \<Rightarrow> 'w ota \<Rightarrow> bool" where
  "user_ready f s \<longleftrightarrow> ttype s = OTA_USER \<and> fd s \<noteq> -1 \<and> user_read_func s = Some f \<and>
     yield_func s = None \<and> ram_ok (rbuf_at s) OTA_BUF_SIZE"

definition last_image :: "'w ota \<Rightarrow> bool" where
  "last_image s \<longleftrightarrow> \<not> uint (index (ctrl s)) < uint (ValidImgCnt (hdr s)) - 1"

text \<open>The body of the loop after a read of \<open>k\<close> bytes.\<close>

definition after_read :: "'w ota_env \<Rightarrow> 'w ota \<Rightarrow> nat \<Rightarrow> (int \<times> 'w ota) option" where
  "after_read E s k = do {
     (ret, s3) \<leftarrow> ota_fw_program E s k;
     if ret = OTA_FINISH then Some (OTA_OK, s3)
     else if ret = OTA_ERR then Some (OTA_ERR, s3)
     else
       process_loop E (case yield_func s3 of Some y \<Rightarrow> s3\<lparr>world := y (world s3)\<rparr> | None \<Rightarrow> s3)
   }"

lemma process_loop_user:
  assumes "user_ready f s" and "f 2048 (world s) = (int (length p), p, w')" and "p \<noteq> []" and "length p \<le> 2048"
  shows "process_loop E s =
    after_read E (s\<lparr>world := w', rbuf := p @ replicate (2048 - length p) 0\<rparr>) (length p)"
  using assms
  by (subst process_loop.simps)
     (simp add: user_ready_def ota_transport_read_def OTA_USER_def OTA_WHC_def OTA_HTTP_def OTA_HTTPS_def
       OTA_VFS_def after_read_def Let_def list_blit_def)

lemma frame_ready:
  assumes "same_frame s s'"
  shows "user_ready f s \<Longrightarrow> user_ready f s'" and "last_image s \<Longrightarrow> last_image s'"
  using assms by (simp_all add: same_frame_def user_ready_def last_image_def)

lemma ram_ok_mono: "ram_ok p n \<Longrightarrow> k \<le> n \<Longrightarrow> ram_ok p k"
  by (auto simp: ram_ok_def)

text \<open>The result of the download: the slot holds the image, or everything of it but the manifest.\<close>

definition dl_result :: "memory \<Rightarrow> u32 \<Rightarrow> u8 list \<Rightarrow> u32 \<Rightarrow> nat \<Rightarrow> memory" where
  "dl_result f0 base im ck e =
     (if add_bytes 0 im = ck then dl_done f0 base im (sectors (length im + e))
      else dl_flash f0 base im (length im) (sectors (length im + e)))"

lemma run_last:
  assumes nf: "nor_flash (tx E) (er E) fsize" and slot: "slot_ok fsize base (length im)"
    and cfg: "\<not> SWITCH_BY_VALID_HEADER (cfg E)"
    and rd: "user_ready f s" "last_image s" "img_inv s base im ck"
    and inv: "dl_inv s base im f0 n 0" and fl: "IsGetOTAHdr (ctrl s) \<noteq> 0" "NextImgFg (ctrl s) \<noteq> 1"
    and k: "0 < k" "k \<le> 2048" "k \<le> length (rbuf s)" and n: "n < length im" "length im \<le> n + k"
    and pk: "take (length im - n) (rbuf s) = drop n im"
  shows "\<exists>s' e. e < 2048 \<and>
      after_read E s k = Some (if add_bytes 0 im = ck then OTA_OK else OTA_ERR, s') \<and>
      flash s' = dl_result f0 base im ck e"
proof -
  have ram: "ram_ok (rbuf_at s) k" using rd(1) k(2) by (auto simp: user_ready_def intro: ram_ok_mono)
  obtain s' where s': "dl_inv s' base im f0 (length im) (n + k - length im)" "same_frame s s'"
    "ota_fw_program E s k = download_finish E s' (int (length im))"
    using fw_program_last [OF nf slot inv rd(3) cfg k(1,2) n k(3) pk ram fl] by blast
  have "n + k - length im < 2048" using n k by linarith
  moreover from this have "n + k - length im \<le> 2048" by simp
  note fin = download_finish_eq [OF nf slot s'(1) img_inv_frame [OF rd(3) s'(2)] this cfg]
  have "\<not> uint (index (ctrl s')) < uint (ValidImgCnt (hdr s')) - 1"
    using frame_ready(2) [OF s'(2) rd(2)] by (simp add: last_image_def)
  ultimately show ?thesis
    using s'(1)
    by (intro exI [of _ "if add_bytes 0 im = ck
          then s'\<lparr>flash := dl_done f0 base im (sectors (length im + (n + k - length im)))\<rparr> else s'"]
        exI [of _ "n + k - length im"])
       (simp add: after_read_def s'(3) fin dl_result_def OTA_OK_def OTA_ERR_def OTA_FINISH_def
         dl_inv_def Let_def)
qed

lemma run_packets:
  assumes nf: "nor_flash (tx E) (er E) fsize" and slot: "slot_ok fsize base (length im)"
    and cfg: "\<not> SWITCH_BY_VALID_HEADER (cfg E)"
  shows "\<lbrakk>user_ready f s; last_image s; img_inv s base im ck; dl_inv s base im f0 n 0; n < length im;
      IsGetOTAHdr (ctrl s) \<noteq> 0; NextImgFg (ctrl s) \<noteq> 1;
      rbuf s = p @ pad; p \<noteq> []; length p \<le> 2048; delivers f (world s) ps;
      take (length im - n) (p @ concat ps) = drop n im\<rbrakk> \<Longrightarrow>
    \<exists>s' e. e < 2048 \<and>
      after_read E s (length p) = Some (if add_bytes 0 im = ck then OTA_OK else OTA_ERR, s') \<and>
      flash s' = dl_result f0 base im ck e"
proof (induction ps arbitrary: s n p pad)
  case Nil
  have "length (take (length im - n) p) = length im - n" using Nil.prems(12) by simp
  then have tk: "length im \<le> n + length p" "take (length im - n) (rbuf s) = drop n im"
    using Nil.prems(5,8,12) by auto
  then show ?case
    using Nil.prems by (intro run_last [OF nf slot cfg]) auto
next
  case (Cons q qs)
  note P = Cons.prems
  let ?k = "length p"
  show ?case
  proof (cases "length im \<le> n + ?k")
    case True
    then show ?thesis
      using P by (intro run_last [OF nf slot cfg]) auto
  next
    case False
    then have sm: "n + ?k < length im" "0 < ?k" using P(9) by auto
    have "take ?k (take (length im - n) (p @ concat (q # qs))) = p" using sm by simp
    then have pk: "take ?k (rbuf s) = take ?k (drop n im)" unfolding P(8,12) by simp
    have "drop ?k (p @ concat (q # qs)) = q @ concat qs" by simp
    then have "drop ?k (take (length im - n) (p @ concat (q # qs))) =
        take (length im - (n + ?k)) (q @ concat qs)" by (simp only: drop_take diff_diff_left)
    then have rest: "take (length im - (n + ?k)) (q @ concat qs) = drop (n + ?k) im"
      unfolding P(12) by (simp add: add.commute)
    have ram: "ram_ok (rbuf_at s) ?k" using P(1,10) by (auto simp: user_ready_def intro: ram_ok_mono)
    obtain s1 where s1: "ota_fw_program E s ?k = Some (OTA_OK, s1)" "dl_inv s1 base im f0 (n + ?k) 0"
      "same_frame s s1" "NextImgFg (ctrl s1) \<noteq> 1"
      using fw_program_middle [OF nf slot P(4) sm(2) P(10) sm(1) _ pk ram P(6,7)] P(8) by auto
    obtain w' where w': "f 2048 (world s1) = (int (length q), q, w')" "q \<noteq> []" "length q \<le> 2048" "delivers f w' qs"
      using P(11) s1(3) by (auto simp: same_frame_def split: prod.splits)
    note ready = frame_ready [OF s1(3)]
    have "after_read E s ?k = process_loop E s1"
      using ready(1) [OF P(1)] by (simp add: after_read_def s1(1) user_ready_def OTA_OK_def OTA_ERR_def OTA_FINISH_def)
    also have "\<dots> = after_read E (s1\<lparr>world := w', rbuf := q @ replicate (2048 - length q) 0\<rparr>) (length q)"
      by (rule process_loop_user [OF ready(1) [OF P(1)] w'(1-3)])
    finally show ?thesis
      using Cons.IH [of "s1\<lparr>world := w', rbuf := q @ replicate (2048 - length q) 0\<rparr>" "n + ?k" q]
        ready(1) [OF P(1)] ready(2) [OF P(2)] img_inv_frame [OF P(3) s1(3)] s1 w' sm rest P(6)
      by (simp add: user_ready_def last_image_def img_inv_def dl_inv_def Let_def manifest_at_def same_frame_def)
  qed
qed

end
