(* ===== verification/Ota_Update.thy ===== *)
theory Ota_Update
  imports Ota_Image
begin

text \<open>
  The update of the application as a whole, for a file with one image: the header in the first packet
  is parsed and checked against the layout, the slot that is not running is chosen, the packets are
  processed and the image is finished. The table of the slots is the one of the layout.
\<close>

section \<open>The file\<close>

definition file_header :: "u32 \<Rightarrow> u32 \<Rightarrow> u8 list \<Rightarrow> u32 \<Rightarrow> u32 \<Rightarrow> u32 \<Rightarrow> u32 \<Rightarrow> u32 \<Rightarrow> u8 list" where
  "file_header ver num sg hl ck ln off iid =
     le32_bytes ver @ le32_bytes num @ sg @ le32_bytes hl @ le32_bytes ck @ le32_bytes ln @
     le32_bytes off @ le32_bytes iid"

lemma length_file_header [simp]: "length sg = 4 \<Longrightarrow> length (file_header ver num sg hl ck ln off iid) = 32"
  by (simp add: file_header_def le32_bytes_def)

lemma read_file_header:
  assumes "length sg = 4"
  shows "le32 (file_header ver num sg hl ck ln off iid @ r) = ver"
    and "le32 (drop 4 (file_header ver num sg hl ck ln off iid @ r)) = num"
    and "read_sub_hdr (drop 8 (file_header ver num sg hl ck ln off iid @ r)) =
      \<lparr>Signature = sg, ImgHdrLen = hl, Checksum = ck, ImgLen = ln, Offset = off, ImgID = iid\<rparr>"
    and "take 4 (drop 8 (file_header ver num sg hl ck ln off iid @ r)) = sg"
proof -
  have l: "length (le32_bytes w) = 4" for w by (simp add: le32_bytes_def)
  show "le32 (file_header ver num sg hl ck ln off iid @ r) = ver"
    by (simp add: file_header_def)
  show "le32 (drop 4 (file_header ver num sg hl ck ln off iid @ r)) = num"
    by (simp add: file_header_def l)
  have d8: "drop 8 (file_header ver num sg hl ck ln off iid @ r) =
      sg @ le32_bytes hl @ le32_bytes ck @ le32_bytes ln @ le32_bytes off @ le32_bytes iid @ r"
    by (simp add: file_header_def l)
  show "take 4 (drop 8 (file_header ver num sg hl ck ln off iid @ r)) = sg"
    unfolding d8 using assms by simp
  show "read_sub_hdr (drop 8 (file_header ver num sg hl ck ln off iid @ r)) =
      \<lparr>Signature = sg, ImgHdrLen = hl, Checksum = ck, ImgLen = ln, Offset = off, ImgID = iid\<rparr>"
    unfolding d8 read_sub_hdr_def using assms by (simp add: l)
qed

section \<open>The slots\<close>

definition img_table0 :: img_table where
  "img_table0 = [[0x08000000, 0x08200000], [0x08014000, 0x08214000]]"

lemmas layout_defs = Flash_Layout_def IMG_BOOT_def IMG_BOOT_OTA2_def IMG_APP_OTA1_def IMG_APP_OTA2_def
  VFS1_def VFS2_def USER_def flash_get_layout_info_def

lemma img_addr_load_table: "img_addr_load [[a, b], [c, d]] = img_table0"
  by (simp add: img_addr_load_def layout_start_into_def layout_defs tab_set_def img_table0_def)

lemma tab_get_table0 [simp]:
  "tab_get img_table0 0 0 = Some 0x08000000" "tab_get img_table0 0 (Suc 0) = Some 0x08200000"
  "tab_get img_table0 (Suc 0) 0 = Some 0x08014000" "tab_get img_table0 (Suc 0) (Suc 0) = Some 0x08214000"
  by (simp_all add: tab_get_def img_table0_def)

lemma layout_ends [simp]:
  "layout_end_into IMG_BOOT e = 0x08013FFF" "layout_end_into IMG_BOOT_OTA2 e = 0x08213FFF"
  "layout_end_into IMG_APP_OTA1 e = 0x081FFFFF" "layout_end_into IMG_APP_OTA2 e = 0x083DCFFF"
  by (simp_all add: layout_end_into_def layout_defs)

text \<open>The slot the remap register says the application runs from, and the slot an update goes to.\<close>

definition running_app :: "u32 \<Rightarrow> u8" where
  "running_app reg =
     (if reg AND 1 \<noteq> 0 \<and> push_bit 5 (drop_bit 9 reg) - 0x2000 \<noteq> 0x08014000 then 1 else 0)"

definition app_base :: "u8 \<Rightarrow> u32" where
  "app_base running = (if running = 0 then 0x214000 else 0x14000)"

definition app_room :: "u8 \<Rightarrow> nat" where
  "app_room running = (if running = 0 then 0x1C8FFF else 0x1EBFFF)"

lemma cur_index_app:
  "1 < length RSIP \<Longrightarrow> ota_get_cur_index RSIP 1 img_table0 = Some (running_app (RSIP ! 1), img_table0)"
  by (simp add: ota_get_cur_index_def nth_opt_def running_app_def Let_def)

lemma running_app_cases: "running_app reg = 0 \<or> running_app reg = 1"
  by (simp add: running_app_def)

lemma check_layout_app:
  assumes "1 < length RSIP" and "ValidImgCnt hm = 1" and "FileImgHdr hm = h # hs" and "ImgID h = 1"
    and "unat (ImgLen h) \<le> app_room (running_app (RSIP ! 1))"
  shows "ota_storage_check_layout RSIP hm img_table0 = Some (OTA_OK, img_table0)"
proof -
  have done1: "check_layout_loop RSIP hm 1 e sl img_table0 = Some (OTA_OK, img_table0)" for e sl
    using assms(2) by (subst check_layout_loop.simps) simp
  show ?thesis
    using running_app_cases [of "RSIP ! 1"] assms done1
    unfolding ota_storage_check_layout_def
    by (subst check_layout_loop.simps)
       (auto simp: cur_index_app [simplified] nth_opt_def Let_def app_room_def word_less_nat_alt)
qed

section \<open>The header in the first packet\<close>

definition parsed_hdr :: "ota_hdr_manager \<Rightarrow> u32 \<Rightarrow> ota_sub_hdr \<Rightarrow> ota_hdr_manager" where
  "parsed_hdr hm ver h = hm\<lparr>FwVer := ver, HdrNum := 1, FileImgHdr := (FileImgHdr hm)[0 := h], ValidImgCnt := 1\<rparr>"

lemma target_header_one:
  assumes "le32 (drop 4 buf) = 1" and "is_ota_signature (take 4 (drop 8 buf))" and "length (FileImgHdr (hdr s)) = 2"
    and "HdrNum (hdr s) = 1"
  shows "ota_core_get_target_header s buf 32 =
    Some (OTA_OK, s\<lparr>hdr := (hdr s)\<lparr>FileImgHdr := (FileImgHdr (hdr s))[0 := read_sub_hdr (drop 8 buf)], ValidImgCnt := 1\<rparr>\<rparr>)"
proof -
  let ?hm = "(hdr s)\<lparr>ValidImgCnt := 0\<rparr>"
  let ?hm1 = "(hdr s)\<lparr>FileImgHdr := (FileImgHdr (hdr s))[0 := read_sub_hdr (drop 8 buf)], ValidImgCnt := 1\<rparr>"
  have "target_header_loop buf 1 1 ?hm1 = Some (OTA_OK, ?hm1)"
    by (subst target_header_loop.simps) simp
  moreover have "target_header_loop buf 1 0 ?hm = target_header_loop buf 1 1 ?hm1"
    using assms(2,3) by (subst target_header_loop.simps) simp
  ultimately show ?thesis
    using assms(1,4) by (simp add: ota_core_get_target_header_def hdr_total_def Let_def)
qed

lemma parse_header_one:
  assumes pk: "rbuf s = p @ pad" "p = file_header ver 1 sg hl ck ln off iid @ q" "length sg = 4" "q \<noteq> []"
    and sg: "is_ota_signature sg" and hm: "length (FileImgHdr (hdr s)) = 2" and fg: "NextImgFg (ctrl s) = 0"
    and mal: "op_malloc (net E) (length p + 56) (world s) = (True, w)"
    and h: "h = \<lparr>Signature = sg, ImgHdrLen = hl, Checksum = ck, ImgLen = ln, Offset = off, ImgID = iid\<rparr>"
    and lay: "ota_storage_check_layout (rsip E) (parsed_hdr (hdr s) ver h) (img s) = Some (OTA_OK, T)"
  shows "ota_core_parse_header E s (length p) =
    Some (int (length q), s\<lparr>world := w, hdr := parsed_hdr (hdr s) ver h, img := T,
      ctrl := (ctrl s)\<lparr>IsGetOTAHdr := 1\<rparr>, rbuf := list_blit (rbuf s) 0 q\<rparr>)"
proof -
  define temp where "temp = list_blit (replicate (length p + 56) 0) 0 p"
  have lp: "length p = 32 + length q" "0 < length q" using pk by simp_all
  have temp: "temp = file_header ver 1 sg hl ck ln off iid @ (q @ replicate 56 0)"
    by (simp add: temp_def list_blit_def pk(2))
  note R = read_file_header [OF pk(3), of ver 1 hl ck ln off iid "q @ replicate 56 0", folded h temp]
  have rh: "ota_core_recv_header C N s' temp (length p) =
      Some (OTA_OK, temp, 32, s'\<lparr>hdr := (hdr s')\<lparr>FwVer := ver, HdrNum := 1\<rparr>\<rparr>)" for C N and s' :: "'a ota"
    using lp by (simp add: ota_core_recv_header_def R hdr_total_def Let_def)
  have th: "ota_core_get_target_header (s\<lparr>world := w, hdr := (hdr s)\<lparr>FwVer := ver, HdrNum := 1\<rparr>\<rparr>) temp 32 =
      Some (OTA_OK, s\<lparr>world := w, hdr := parsed_hdr (hdr s) ver h\<rparr>)"
    using hm sg by (subst target_header_one) (simp_all add: R parsed_hdr_def)
  have q: "take (length q) (drop 32 (rbuf s)) = q" "take (length p) (rbuf s) = p"
    using pk by simp_all
  have t: "list_blit (replicate (88 + length q) 0) 0 p = temp"
    using lp by (simp add: temp_def)
  show ?thesis
    using rh th mal fg lay lp q
    by (simp add: ota_core_parse_header_def Let_def t)
qed

text \<open>The first packet sets up the download of the image and then is like any other packet.\<close>

lemma first_packet:
  assumes pk: "rbuf s = p @ pad" "p = file_header ver 1 sg hl ck (of_nat (length im)) off 1 @ q" "length sg = 4" "q \<noteq> []"
    and sg: "is_ota_signature sg" and hm: "length (FileImgHdr (hdr s)) = 2" "length (Manifest (hdr s)) = 2"
      "length (Manifest (hdr s) ! 0) = 24"
    and c: "NextImgFg (ctrl s) = 0" "length (NextImgBuf (ctrl s)) = 2048" "IsGetOTAHdr (ctrl s) = 0"
      "IsDnldInit (ctrl s) = 0" "index (ctrl s) = 0"
    and mal: "op_malloc (net E) (length p + 56) (world s) = (True, world s)"
    and rs: "1 < length (rsip E)" "running = running_app (rsip E ! 1)" "img s = img_table0"
    and im: "24 < length im" "length im \<le> app_room running" and ram: "ram_ok (manifest_at s 0) 24"
  shows "\<exists>s1. ota_fw_program E s (length p) = ota_fw_program E s1 (length q) \<and>
    dl_inv s1 (app_base running) im (flash s) 0 0 \<and> img_inv s1 (app_base running) im ck \<and> last_image s1 \<and>
    IsGetOTAHdr (ctrl s1) \<noteq> 0 \<and> NextImgFg (ctrl s1) \<noteq> 1 \<and>
    (\<forall>f. user_ready f s \<longrightarrow> user_ready f s1) \<and> world s1 = world s \<and> (\<exists>pad'. rbuf s1 = q @ pad')"
proof -
  define h where "h = \<lparr>Signature = sg, ImgHdrLen = hl, Checksum = ck, ImgLen = of_nat (length im), Offset = off, ImgID = 1\<rparr>"
  let ?hm = "parsed_hdr (hdr s) ver h"
  obtain h0 h1 where hh: "FileImgHdr (hdr s) = [h0, h1]"
    using hm(1) by (metis (no_types, lifting) One_nat_def Suc_1 length_0_conv length_Suc_conv)
  have L: "unat (of_nat (length im) :: u32) = length im" "length im < 2147483648"
    using im(2) running_app_cases [of "rsip E ! 1"] by (auto simp: app_room_def rs(2))
  have lay: "ota_storage_check_layout (rsip E) ?hm (img s) = Some (OTA_OK, img_table0)"
    unfolding rs(3) using rs im(2) L hh
    by (intro check_layout_app [of _ _ h "[h1]"]) (simp_all add: parsed_hdr_def h_def)
  define s0 where "s0 = s\<lparr>world := world s, hdr := ?hm, img := img_table0,
      ctrl := (ctrl s)\<lparr>IsGetOTAHdr := 1\<rparr>, rbuf := list_blit (rbuf s) 0 q\<rparr>"
  have ph: "ota_core_parse_header E s (length p) = Some (int (length q), s0)"
    unfolding s0_def by (rule parse_header_one [OF pk(1,2,3,4) sg hm(1) c(1) mal h_def lay])
  define slot :: u8 where "slot = (if running = 0 then 1 else 0)"
  define s1 where "s1 = s0\<lparr>ctrl := (ctrl s0)\<lparr>ImgId := 1, slotIdx := slot, SigFg := 0, SigCnt := 0, SkipBootOTAFg := 0,
        ImageLen := of_nat (length im), ImgOffset := 0, ReadBytes := 0, RemainBytes := int (length im) - 24,
        FlashAddr := app_base running + 24, IsDnldInit := 1\<rparr>,
      stat := (stat s0)\<lparr>manifest := 0, write_sector := 0, next_erase_sector := 0, psize := 0\<rparr>\<rparr>"
  have rem: "sint (of_nat (length im) - 24 :: u32) = int (length im) - 24"
  proof -
    have eq: "of_nat (length im) - 24 = (of_nat (length im - 24) :: u32)" using im(1) by (simp add: of_nat_diff)
    have "sint (of_nat (length im - 24) :: u32) = int (length im - 24)" using L(2) by (intro sint_of_nat_u32) linarith
    also have "\<dots> = int (length im) - 24" using im(1) by linarith
    finally show ?thesis unfolding eq .
  qed
  have r01: "running = 0 \<or> running = 1" unfolding rs(2) by (rule running_app_cases)
  have init: "download_parameter_init E s0 = Some (s0\<lparr>ctrl := (ctrl s1)\<lparr>IsDnldInit := 0\<rparr>\<rparr>)"
  proof -
    have h0: "nth_opt (FileImgHdr (hdr s0)) (unat (index (ctrl s0))) = Some h" and i0: "img s0 = img_table0"
      using c(5) hh by (simp_all add: s0_def parsed_hdr_def nth_opt_def)
    have h1: "ImgID h = 1" "ImgLen h = of_nat (length im)" by (simp_all add: h_def)
    note cur = cur_index_app [OF rs(1), folded rs(2)]
    have ad: "ota_storage_get_image_addr img_table0 1 slot = Some (app_base running + SPI_FLASH_BASE)"
      using r01 by (auto simp: ota_storage_get_image_addr_def slot_def app_base_def word_le_nat_alt)
    have "(if running = 0 then 1 else 0) = slot" by (simp add: slot_def)
    then show ?thesis
      unfolding download_parameter_init_def Let_def h0 i0 bind.bind_lunit
      using cur ad rem c(4) by (simp add: h1 s1_def) (simp add: s0_def)
  qed
  have dp: "download_packet_process E s0 b n = download_packet_process E s1 b n" for b n
    using init c by (simp add: download_packet_process_def s0_def s1_def)
  have "ota_fw_program E s (length p) = ota_fw_program E s1 (length q)"
    using ph dp c pk(4) by (simp add: ota_fw_program_def) (simp add: s0_def s1_def)
  moreover have "dl_inv s1 (app_base running) im (flash s) 0 0"
    using hm c im(1) by (auto simp: dl_inv_def Let_def s1_def s0_def parsed_hdr_def sectors_def dl_flash_def)
  moreover have "img_inv s1 (app_base running) im ck"
    using r01 c hh ram
    by (auto simp: img_inv_def Let_def s1_def s0_def parsed_hdr_def h_def slot_def app_base_def manifest_at_def)
  moreover have "last_image s1" using c by (simp add: last_image_def s1_def s0_def parsed_hdr_def)
  moreover have "rbuf s1 = q @ drop (length q) (rbuf s)" by (simp add: s1_def s0_def list_blit_def)
  ultimately show ?thesis
    using c by (intro exI [of _ s1]) (auto simp: s1_def s0_def user_ready_def)
qed

section \<open>The whole update\<close>

text \<open>A context as \<open>ota_init\<close> leaves it for a user-defined transport, with the read function registered.\<close>

definition ota_fresh :: "(int \<Rightarrow> 'w \<Rightarrow> int \<times> u8 list \<times> 'w) \<Rightarrow> 'w ota \<Rightarrow> bool" where
  "ota_fresh f s \<longleftrightarrow> user_ready f s \<and> img s = img_table0 \<and> NextImgFg (ctrl s) = 0 \<and>
     length (NextImgBuf (ctrl s)) = OTA_BUF_SIZE \<and> length (FileImgHdr (hdr s)) = 2 \<and>
     length (Manifest (hdr s)) = 2 \<and> length (Manifest (hdr s) ! 0) = 24 \<and> ram_ok (manifest_at s 0) 24"

lemma app_slot_ok:
  assumes "r = 0 \<or> r = 1" and "24 < L" and "L \<le> app_room r" and "4059136 \<le> fsize" and "fsize \<le> 134217728"
  shows "slot_ok fsize (app_base r) L"
  using assms by (auto simp: slot_ok_def app_base_def app_room_def)

lemma ram_okI:
  assumes "268435456 \<le> unat p" and "unat p + n \<le> 4294967296"
  shows "ram_ok p n"
proof -
  have "unat (p + of_nat i) = unat p + i" if "i < n" for i
    using that assms(2) by (intro unat_add_of_nat_no_wrap) linarith
  then have "268435456 \<le> unat (p + of_nat i)" if "i < n" for i
    using that assms(1) by simp
  moreover have "x \<noteq> 0 \<and> \<not> IS_FLASH_ADDR x" if "268435456 \<le> unat x" for x :: u32
    using that by (auto simp: IS_FLASH_ADDR_def word_le_nat_alt)
  ultimately show ?thesis by (simp add: ram_ok_def)
qed

lemma dl_result_facts:
  assumes "slot_ok fsize base (length im)" and "e < 2048"
  shows "add_bytes 0 im = ck \<Longrightarrow> mem_read (dl_result f0 base im ck e) base (length im) = im"
    and "add_bytes 0 im \<noteq> ck \<Longrightarrow> erased (dl_result f0 base im ck e) base 24"
    and "length im + 6167 \<le> unat (x - base) \<Longrightarrow> dl_result f0 base im ck e x = f0 x"
proof -
  note O = slot_okD [OF assms(1)]
  define W where "W = (length im + e + 23) div 4096"
  have S: "sectors (length im + e) = W + 1" using O(2) by (simp add: sectors_def W_def)
  have W: "4096 * W \<le> length im + e + 23" "length im + e + 23 < 4096 * W + 4096"
    unfolding W_def by simp_all
  show "mem_read (dl_result f0 base im ck e) base (length im) = im" if "add_bytes 0 im = ck"
    using that O(3) W S by (intro nth_equalityI) (auto simp: dl_result_def dl_done_def Let_def)
  show "erased (dl_result f0 base im ck e) base 24" if "add_bytes 0 im \<noteq> ck"
    using that S by (auto simp: erased_def dl_result_def dl_flash_def Let_def)
  show "dl_result f0 base im ck e x = f0 x" if "length im + 6167 \<le> unat (x - base)"
  proof -
    have "\<not> unat (x - base) < 4096 * (W + 1)" using that W(1) assms(2) by simp
    then show ?thesis unfolding dl_result_def dl_done_def dl_flash_def Let_def S by simp
  qed
qed

text \<open>The state after the process, for a file with one image of the application.\<close>

lemma update_result:
  assumes "nor_flash (tx E) (er E) fsize" and "4059136 \<le> fsize" and "\<not> SWITCH_BY_VALID_HEADER (cfg E)"
    and "\<forall>n w. op_malloc (net E) n w = (True, w)" and "1 < length (rsip E)" and "r = running_app (rsip E ! 1)"
    and "ota_fresh f s" and "delivers f (world s) (p # ps)" and "32 < length p"
    and "length sg = 4" and "is_ota_signature sg" and "24 < length im" and "length im \<le> app_room r"
    and "take (32 + length im) (p @ concat ps) =
      file_header ver 1 sg hl ck (of_nat (length im)) off 1 @ im"
  shows "\<exists>s' e. e < 2048 \<and>
    ota_core_process E s = Some (if add_bytes 0 im = ck then OTA_OK else OTA_ERR, s') \<and>
    flash s' = dl_result (flash s) (app_base r) im ck e \<and> slot_ok fsize (app_base r) (length im)"
proof -
  note F = assms(7) [unfolded ota_fresh_def]
  have slot: "slot_ok fsize (app_base r) (length im)"
    using assms(2,6,12,13) running_app_cases nor_flash.fsize [OF assms(1)] by (intro app_slot_ok) auto
  define s0 where "s0 = s\<lparr>ctrl := (ctrl s)\<lparr>index := 0, IsGetOTAHdr := 0, IsDnldInit := 0\<rparr>\<rparr>"
  obtain w' where w': "f 2048 (world s) = (int (length p), p, w')" "p \<noteq> []" "length p \<le> 2048" "delivers f w' ps"
    using assms(8) by (auto split: prod.splits)
  have start: "ota_core_process E s = process_loop E s0"
    using assms(4) by (simp add: ota_core_process_def s0_def)
  define s2 where "s2 = s0\<lparr>world := w', rbuf := p @ replicate (2048 - length p) 0\<rparr>"
  have rd: "user_ready f s0" using F by (simp add: user_ready_def s0_def)
  have loop: "process_loop E s0 = after_read E s2 (length p)"
    unfolding s2_def using w' by (intro process_loop_user [OF rd]) (simp_all add: s0_def)
  let ?fh = "file_header ver 1 sg hl ck (of_nat (length im)) off 1"
  define q where "q = drop 32 p"
  have fh: "length ?fh = 32" using assms(10) by simp
  have "take 32 (take (32 + length im) (p @ concat ps)) = take 32 p" using assms(9) by simp
  then have pq: "p = ?fh @ q" "q \<noteq> []"
    using fh assms(9) unfolding assms(14) q_def by (simp_all add: append_eq_conv_conj)
  have "drop 32 (p @ concat ps) = q @ concat ps" using assms(9) by (simp add: q_def)
  then have "drop 32 (take (32 + length im) (p @ concat ps)) = take (length im) (q @ concat ps)"
    by (simp only: drop_take diff_add_inverse)
  then have rest: "take (length im) (q @ concat ps) = im" unfolding assms(14) using fh by simp
  obtain s1 where s1: "ota_fw_program E s2 (length p) = ota_fw_program E s1 (length q)"
    "dl_inv s1 (app_base r) im (flash s2) 0 0" "img_inv s1 (app_base r) im ck" "last_image s1"
    "IsGetOTAHdr (ctrl s1) \<noteq> 0" "NextImgFg (ctrl s1) \<noteq> 1" "user_ready f s1" "world s1 = world s2"
    "\<exists>pad. rbuf s1 = q @ pad"
    using first_packet [of s2 p "replicate (2048 - length p) 0" ver sg hl ck im off q E r] pq assms rd F
    by (auto simp: s2_def s0_def manifest_at_def user_ready_def)
  obtain pad where pad: "rbuf s1 = q @ pad" using s1(9) by blast
  have "length q \<le> 2048" "0 < length im" using w'(3) assms(12) by (auto simp: q_def)
  then obtain s' e where fin: "e < 2048"
    "after_read E s1 (length q) = Some (if add_bytes 0 im = ck then OTA_OK else OTA_ERR, s')"
    "flash s' = dl_result (flash s) (app_base r) im ck e"
    using run_packets [OF assms(1) slot assms(3) s1(7,4,3,2) _ s1(5,6) pad pq(2), of ps] w' rest s1(8)
    by (auto simp: s2_def s0_def)
  have "after_read E s2 (length p) = after_read E s1 (length q)"
    by (simp only: after_read_def s1(1))
  then show ?thesis
    unfolding start loop using fin slot by auto
qed


section \<open>A run of the update\<close>

text \<open>A user's transport that reads a byte string in pieces of at most 2048 bytes.\<close>

definition mem_source :: "int \<Rightarrow> u8 list \<Rightarrow> int \<times> u8 list \<times> u8 list" where
  "mem_source n w = (int (min (nat n) (length w)), take (nat n) w, drop (nat n) w)"

function chunks :: "u8 list \<Rightarrow> u8 list list" where
  "chunks w = (if w = [] then [] else take 2048 w # chunks (drop 2048 w))"
  by pat_completeness auto

termination
  by (relation "measure length") auto

declare chunks.simps [simp del]

lemma concat_chunks: "concat (chunks w) = w"
  by (induction w rule: chunks.induct) (subst chunks.simps, simp)

lemma delivers_chunks: "delivers mem_source w (chunks w)"
proof (induction w rule: chunks.induct)
  case (1 w)
  then show ?case
    by (subst chunks.simps) (auto simp: mem_source_def [of _ w] min.commute)
qed

lemma add_bytes_zeros: "add_bytes a (replicate n 0) = a"
  by (induction n) (simp_all add: add_bytes_def)

definition run_net :: "u8 list net_ops" where
  "run_net = \<lparr>op_malloc = \<lambda>_ w. (True, w), op_read = \<lambda>_ _ w. (0, [], w), op_write = \<lambda>_ _ w. (0, w),
     op_socket = \<lambda>w. (0, w), op_gethostbyname = \<lambda>_ w. (None, w), op_connect = \<lambda>_ _ _ w. (0, w),
     op_close = \<lambda>_ w. w, op_tls_alloc = \<lambda>w. (True, w), op_tls_config = \<lambda>w. (0, w), op_tls_setup = \<lambda>w. (0, w),
     op_tls_parse = \<lambda>_ w. (0, w), op_tls_handshake = \<lambda>_ _ w. (0, w), op_tls_read = \<lambda>_ w. (0, [], w),
     op_tls_write = \<lambda>_ w. (0, w), op_tls_free = \<lambda>w. w, op_fopen = \<lambda>_ w. (0, w),
     op_fread = \<lambda>_ _ w. (0, [], w), op_fclose = \<lambda>_ w. w, op_whc_read = \<lambda>_ w. (0, [], w), op_whc_close = \<lambda>w. w\<rparr>"

text \<open>The remap register with which the application runs from slot 1 or slot 2.\<close>

definition run_env :: "u32 \<Rightarrow> u8 list ota_env" where
  "run_env reg = \<lparr>cfg = \<lparr>WHC_INTF_IPC = True, WHC_CMD_PATH = False, SWITCH_BY_VALID_HEADER = False\<rparr>, net = run_net,
     tx = chip_tx, er = chip_er, rsip = [0, reg, 0, 0, 0, 0, 0, 0], sec_ota_addr = 0xFFFF, bus = \<lambda>_. 0, sig_at = 0x30001000\<rparr>"

definition run_state :: "u8 list \<Rightarrow> u8 list ota" where
  "run_state file = \<lparr>host = None, port = 0, resource = None, ca_cert = None, client_cert = None, private_key = None,
     fd = 0, ttype = OTA_USER, tls = False, redirect = None, progress_cb = False, user_read_func = Some mem_source,
     user_open_func = None, user_close_func = None, yield_func = None, otaCtrl = 0x30002000,
     otaHdrManager = 0x30003000, ctrl = zero_ctrl, hdr = zero_hdr, rbuf_at = 0x30004000, rbuf = replicate 2048 0,
     stat = \<lparr>manifest = 0, write_sector = 0, next_erase_sector = 0, psize = 0, percent_bak = -1\<rparr>,
     img = img_table0, flash = \<lambda>_. 0, progress = [], world = file\<rparr>"

lemma run_fresh: "ota_fresh mem_source (run_state file)"
proof -
  have "ram_ok 0x30004000 2048" "ram_ok 0x30003038 24" by (rule ram_okI; simp)+
  then show ?thesis
    by (simp add: ota_fresh_def user_ready_def run_state_def zero_ctrl_def zero_hdr_def manifest_at_def
        OTA_USER_def)
qed

text \<open>The conditions of the theorem for a file that is delivered in pieces.\<close>

lemma run_delivers:
  assumes "length sg = 4" and "file = file_header ver 1 sg hl ck (of_nat (length im)) off 1 @ im" and "24 < length im"
  shows "\<exists>p ps. chunks file = p # ps \<and> delivers mem_source (world (run_state file)) (p # ps) \<and> 32 < length p \<and>
    take (32 + length im) (p @ concat ps) = file"
proof -
  have len: "length file = 32 + length im" using assms by simp
  then have "file \<noteq> []" by force
  then have "chunks file = take 2048 file # chunks (drop 2048 file)" by (subst chunks.simps) simp
  moreover have "take (32 + length im) (concat (chunks file)) = file" using len by (simp add: concat_chunks)
  moreover have "delivers mem_source file (chunks file)" by (rule delivers_chunks)
  moreover have "32 < length (take 2048 file)" using len assms(3) by fastforce
  ultimately show ?thesis by (simp add: run_state_def)
qed


section \<open>The sector behind the slot\<close>

lemma dl_result_erases:
  assumes "24 < length im" and "length im \<le> 4096 * k" and "4096 * k \<le> length im + 23" and "4096 * k + 4096 \<le> 4294967296"
  shows "erased (dl_result f0 base im ck e) (base + 4096 * of_nat k) 4096"
proof -
  have off: "unat (base + 4096 * of_nat k + of_nat i - base) = 4096 * k + i" if "i < 4096" for i
  proof -
    have "base + 4096 * of_nat k + of_nat i - base = of_nat (4096 * k + i)" by simp
    then show ?thesis using that assms(4) by (simp add: unat_of_nat del: of_nat_add of_nat_mult)
  qed
  have "k \<le> (length im + e + 23) div 4096" using assms(3) by (simp add: less_eq_div_iff_mult_less_eq)
  then have "4096 * k + 4096 \<le> 4096 * sectors (length im + e)" using assms(1) by (simp add: sectors_def)
  then show ?thesis
    using assms(2) off by (auto simp: erased_def dl_result_def dl_done_def dl_flash_def Let_def)
qed

text \<open>
  C29. The sector that is erased for a packet is computed from a position that counts the manifest twice,
  so an image that fills all but the last bytes of the first slot makes the update erase the first
  sector of the region behind it, where the second copy of the boot loader is.
\<close>

theorem ota_update_erases_boot2:
  assumes "nor_flash (tx E) (er E) fsize" and "4059136 \<le> fsize" and "\<not> SWITCH_BY_VALID_HEADER (cfg E)"
    and "\<forall>n w. op_malloc (net E) n w = (True, w)" and "1 < length (rsip E)" and "r = running_app (rsip E ! 1)"
    and "ota_fresh f s" and "delivers f (world s) (p # ps)" and "32 < length p"
    and "length sg = 4" and "is_ota_signature sg" and "r = 1" and "0x1EBFE9 \<le> length im" and "length im \<le> app_room r"
    and "take (32 + length im) (p @ concat ps) =
      file_header ver 1 sg hl ck (of_nat (length im)) off 1 @ im"
  shows "\<exists>s' e. ota_core_process E s = Some (e, s') \<and> erased (flash s') 0x200000 4096 \<and>
    fst (flash_get_layout_info IMG_BOOT_OTA2 (Some 0) None) = Some (SPI_FLASH_BASE + 0x200000)"
proof -
  have im: "24 < length im" and L: "length im \<le> 0x1EBFFF" using assms(12-14) by (simp_all add: app_room_def)
  obtain s' e where fin: "ota_core_process E s = Some (if add_bytes 0 im = ck then OTA_OK else OTA_ERR, s')"
    "flash s' = dl_result (flash s) (app_base r) im ck e"
    using update_result [OF assms(1-11) im assms(14,15)] by blast
  have "erased (flash s') (app_base r + 4096 * of_nat 0x1EC) 4096"
    unfolding fin(2) by (rule dl_result_erases) (use assms(13) L im in simp_all)
  then show ?thesis using fin(1) assms(12) by (auto simp: app_base_def flash_get_layout_info_def layout_defs)
qed

theorem ota_update_erases_boot2_witness:
  "\<exists>s' e. ota_core_process (run_env 0x82160001)
       (run_state (file_header 1 1 (bytes ''OTA '') 24 0 0x1EBFF0 32 1 @ replicate 0x1EBFF0 0)) = Some (e, s') \<and>
     erased (flash s') 0x200000 4096"
proof -
  let ?im = "replicate 0x1EBFF0 (0 :: u8)"
  let ?file = "file_header 1 1 (bytes ''OTA '') 24 0 0x1EBFF0 32 1 @ ?im"
  have sg: "length (bytes ''OTA '') = 4" "is_ota_signature (bytes ''OTA '')"
    by (simp_all add: bytes_def is_ota_signature_def)
  have r: "running_app 0x82160001 = 1" by (simp add: running_app_def)
  obtain p ps where d: "delivers mem_source (world (run_state ?file)) (p # ps)" "32 < length p"
    "take (32 + length ?im) (p @ concat ps) = file_header 1 1 (bytes ''OTA '') 24 0 (of_nat (length ?im)) 32 1 @ ?im"
    using run_delivers [OF sg(1), of ?file 1 24 0 ?im 32] by force
  have "\<exists>s' e. ota_core_process (run_env 0x82160001) (run_state ?file) = Some (e, s') \<and> erased (flash s') 0x200000 4096 \<and>
      fst (flash_get_layout_info IMG_BOOT_OTA2 (Some 0) None) = Some (SPI_FLASH_BASE + 0x200000)"
    by (rule ota_update_erases_boot2 [where fsize = chip_size and r = 1, OF _ _ _ _ _ _ run_fresh d(1,2) sg(1,2) _ _ _ d(3)])
       (simp_all add: run_env_def run_net_def chip.nor_flash_axioms [unfolded chip_size_def] chip_size_def r app_room_def)
  then show ?thesis by blast
qed

end
