(* ===== verification/Ota_Safety.thy ===== *)
theory Ota_Safety
  imports Ota_Update
begin

text \<open>
  Properties of the firmware update besides the run that succeeds: what a refused file leaves behind,
  what the check of the layout guarantees, urls, and the error paths of connecting and of setting up a
  context.
\<close>

section \<open>Parsing leaves the flash alone\<close>

definition keeps :: "'w ota \<Rightarrow> 'w ota \<Rightarrow> bool" where
  "keeps s s' \<longleftrightarrow> flash s' = flash s \<and> img s' = img s \<and> ctrl s' = ctrl s \<and> rbuf s' = rbuf s \<and> progress s' = progress s"

lemma keeps_refl [simp, intro]: "keeps s s"
  by (simp add: keeps_def)

lemma keeps_trans [trans]: "keeps s1 s2 \<Longrightarrow> keeps s2 s3 \<Longrightarrow> keeps s1 s3"
  by (simp add: keeps_def)

lemma keeps_updates [simp]:
  "keeps s (s'\<lparr>hdr := h\<rparr>) = keeps s s'" "keeps s (s'\<lparr>world := w\<rparr>) = keeps s s'"
  "keeps (s\<lparr>hdr := h\<rparr>) s' = keeps s s'" "keeps (s\<lparr>world := w\<rparr>) s' = keeps s s'"
  by (simp_all add: keeps_def)

lemma transport_read_keeps:
  assumes "ota_transport_read C N s n = (r, bs, s1)"
  shows "keeps s s1"
  using assms
  by (auto simp: ota_transport_read_def ota_http_read_def ota_vfs_read_def ota_whc_read_def
      split: if_splits prod.splits option.splits)

lemma recv_loop_keeps:
  assumes "recv_loop C N s buf pos k = Some (ok, buf', m, s')"
  shows "keeps s s' \<and> m \<le> k"
  using assms
proof (induction C N s buf pos k arbitrary: ok buf' m s' rule: recv_loop.induct)
  case (1 C N s buf pos k)
  obtain r bs s1 where rd: "ota_transport_read C N s (int k) = (r, bs, s1)" by (metis prod_cases3)
  have fr: "keeps s s1" by (rule transport_read_keeps [OF rd])
  show ?case
  proof (cases "k = 0 \<or> r \<le> 0 \<or> int k < r")
    case True
    then show ?thesis using "1.prems" fr by (subst (asm) recv_loop.simps) (auto simp: rd split: if_splits)
  next
    case False
    then obtain m' where rec: "recv_loop C N s1 (list_blit buf pos (take (nat r) bs)) (pos + nat r) (k - nat r) =
        Some (ok, buf', m', s')" "m = nat r + m'"
      using "1.prems" by (subst (asm) recv_loop.simps) (auto simp: rd)
    have "keeps s1 s'" "m' \<le> k - nat r"
      using "1.IH" [OF _ rd [symmetric] refl _ _ _ rec(1)] False by auto
    then show ?thesis using keeps_trans [OF fr] rec(2) False by auto
  qed
qed

lemma recv_part_keeps:
  "(if c then recv_loop C N s buf p k else Some (True, buf, 0, s)) = Some (ok, b, m, s') \<Longrightarrow> keeps s s'"
  by (auto split: if_splits dest: recv_loop_keeps)

lemma recv_header_keeps:
  assumes "ota_core_recv_header C N s buf k = Some (e, buf', l, s')"
  shows "keeps s s'"
proof -
  obtain ok1 buf1 n1 s1 where 1: "(if k < 8 then recv_loop C N s buf k (8 - k) else Some (True, buf, 0, s)) =
      Some (ok1, buf1, n1, s1)"
    using assms unfolding ota_core_recv_header_def by (elim bind_eq_Some_conv [THEN iffD1, THEN exE]) force
  have k1: "keeps s s1" by (rule recv_part_keeps [OF 1])
  let ?num = "le32 (drop 4 buf1)"
  let ?s2 = "s1\<lparr>hdr := (hdr s1)\<lparr>FwVer := le32 buf1, HdrNum := ?num\<rparr>\<rparr>"
  let ?r = "(if k + n1 < unat (hdr_total ?num) then recv_loop C N ?s2 buf1 (k + n1) (unat (hdr_total ?num) - (k + n1))
     else Some (True, buf1, 0, ?s2))"
  have step: "keeps s s3" if "?r = Some (ok2, buf2, m, s3)" for ok2 buf2 m s3
    using k1 recv_part_keeps [OF that] by (simp add: keeps_def)
  show ?thesis
    using assms k1 step unfolding ota_core_recv_header_def 1 bind.bind_lunit
    by (cases ?r) (auto simp: Let_def split: if_splits)
qed

lemma target_header_keeps:
  assumes "ota_core_get_target_header s buf l = Some (e, s')"
  shows "keeps s s'"
  using assms by (auto simp: ota_core_get_target_header_def Let_def split: if_splits)

text \<open>What follows the header is accepted: only the table, the flags and the buffers change.\<close>

lemma parse_header_flash:
  assumes "ota_core_parse_header E s n = Some (e, s')"
  shows "flash s' = flash s"
proof -
  let ?c = "ctrl s"
  define wl where "wl = (if NextImgFg ?c = 1 then n + nat (NextImgLen ?c) else n)"
  define temp where "temp = list_blit (replicate (wl + 56) 0) 0
    ((if NextImgFg ?c = 1 then take (nat (NextImgLen ?c)) (NextImgBuf ?c) else []) @ take n (rbuf s))"
  obtain ok w where mal: "op_malloc (net E) (wl + 56) (world s) = (ok, w)" by fastforce
  note def = ota_core_parse_header_def [of E s n, unfolded Let_def, folded wl_def]
  show ?thesis
  proof (cases ok)
    case False
    then show ?thesis using assms mal unfolding def by (auto simp: wl_def)
  next
    case True
    obtain e1 t1 l s1 where 1: "ota_core_recv_header (cfg E) (net E) (s\<lparr>world := w\<rparr>) temp wl = Some (e1, t1, l, s1)"
      using assms mal True unfolding def temp_def
      by (cases "ota_core_recv_header (cfg E) (net E) (s\<lparr>world := w\<rparr>) temp wl") (auto simp: temp_def)
    have k1: "keeps s s1" using recv_header_keeps [OF 1] by simp
    show ?thesis
    proof (cases "ota_core_get_target_header s1 t1 l")
      case None
      then show ?thesis
        using assms mal True 1 k1 unfolding def by (auto simp: temp_def keeps_def split: if_splits)
    next
      case (Some r)
      obtain e2 s2 where r: "r = (e2, s2)" by fastforce
      have "flash s2 = flash s" "flash s1 = flash s"
        using k1 target_header_keeps [OF Some [unfolded r]] by (simp_all add: keeps_def)
      then show ?thesis
        using assms mal True 1 Some r unfolding def
        by (cases "ota_storage_check_layout (rsip E) (hdr s2) (img s2)") (auto simp: temp_def split: if_splits)
    qed
  qed
qed

section \<open>A refused file\<close>

text \<open>The header cannot be used: it names no image or too many of them, or the first sub header does not have
  the signature.\<close>

definition bad_header :: "u8 list \<Rightarrow> bool" where
  "bad_header p \<longleftrightarrow> (let num = le32 (drop 4 p) in
     num = 0 \<or> 2 < num \<or> (8 + 24 * unat num \<le> length p \<and> \<not> is_ota_signature (take 4 (drop 8 p))))"

lemma le32_append: "8 \<le> length p \<Longrightarrow> le32 (drop 4 p @ q) = le32 (drop 4 p)"
  by (simp add: le32_def nth_append)

lemma small_word_cases: "x = 0 \<or> x = 1 \<or> x = 2 \<or> 2 < x" for x :: u32
proof -
  have "unat x = 0 \<or> unat x = 1 \<or> unat x = 2 \<or> 2 < unat x" by arith
  then show ?thesis by (auto simp: word_less_nat_alt word_unat_eq_iff)
qed

lemma recv_header_many:
  assumes "8 \<le> k" and "2 < le32 (drop 4 buf)"
  shows "\<exists>l s'. ota_core_recv_header C N s buf k = Some (OTA_ERR, buf, l, s')"
  using assms by (simp add: ota_core_recv_header_def Let_def)

lemma recv_header_ready:
  assumes "8 \<le> k" and "num = le32 (drop 4 buf)" and "\<not> 2 < num" and "unat (hdr_total num) \<le> k"
  shows "ota_core_recv_header C N s buf k =
    Some (OTA_OK, buf, hdr_total num, s\<lparr>hdr := (hdr s)\<lparr>FwVer := le32 buf, HdrNum := num\<rparr>\<rparr>)"
  using assms by (simp add: ota_core_recv_header_def Let_def)

lemma target_header_refused:
  assumes "HdrNum (hdr s) = le32 (drop 4 buf)"
    and "le32 (drop 4 buf) = 0 \<or> ((le32 (drop 4 buf) = 1 \<or> le32 (drop 4 buf) = 2) \<and> \<not> is_ota_signature (take 4 (drop 8 buf)))"
  shows "\<exists>s'. ota_core_get_target_header s buf (hdr_total (le32 (drop 4 buf))) = Some (OTA_ERR, s')"
proof -
  have loop: "\<exists>hm'. target_header_loop buf (unat (le32 (drop 4 buf))) 0 (hm\<lparr>ValidImgCnt := 0\<rparr>) = Some (OTA_ERR, hm')" for hm
    using assms(2) by (subst target_header_loop.simps) (auto simp: Let_def)
  then show ?thesis
    using assms loop [of "hdr s"] by (auto simp: ota_core_get_target_header_def Let_def hdr_total_def)
qed

lemma bad_header_parse:
  assumes p: "bad_header p" "8 \<le> length p" "rbuf s = p @ pad" and fg: "NextImgFg (ctrl s) \<noteq> 1"
    and mal: "\<forall>n w. op_malloc (net E) n w = (True, w)"
  shows "\<exists>s'. ota_core_parse_header E s (length p) = Some (OTA_ERR, s')"
proof -
  define temp where "temp = p @ replicate 56 (0 :: u8)"
  have temp: "list_blit (replicate (length p + 56) 0) 0 p = temp" by (simp add: temp_def list_blit_def)
  have num: "le32 (drop 4 temp) = le32 (drop 4 p)" using p(2) by (simp add: temp_def le32_append)
  let ?num = "le32 (drop 4 p)"
  have sig: "?num = 1 \<or> ?num = 2 \<Longrightarrow> \<not> is_ota_signature (take 4 (drop 8 temp))"
    using p(1) by (auto simp: bad_header_def Let_def temp_def)
  show ?thesis
  proof (cases "2 < ?num")
    case True
    then show ?thesis
      using recv_header_many [of "length p" temp "cfg E" "net E" s] p fg mal
      by (auto simp: ota_core_parse_header_def temp num OTA_OK_def OTA_ERR_def Let_def)
  next
    case False
    have "unat (hdr_total ?num) \<le> length p"
      using False p(1,2) small_word_cases [of ?num] by (auto simp: hdr_total_def bad_header_def Let_def)
    then have "ota_core_recv_header (cfg E) (net E) s temp (length p) =
        Some (OTA_OK, temp, hdr_total ?num, s\<lparr>hdr := (hdr s)\<lparr>FwVer := le32 temp, HdrNum := ?num\<rparr>\<rparr>)"
      by (rule recv_header_ready [OF p(2) num [symmetric] False])
    then show ?thesis
      using target_header_refused [of "s\<lparr>hdr := (hdr s)\<lparr>FwVer := le32 temp, HdrNum := ?num\<rparr>\<rparr>" temp]
        p fg mal sig num False small_word_cases [of ?num]
      by (auto simp: ota_core_parse_header_def temp OTA_OK_def OTA_ERR_def Let_def)
  qed
qed

text \<open>
  C17. A file that cannot be used is refused before anything is written: when the first packet of the file
  names no image, more images than there are, or a first image without the signature, the process ends
  with an error and the flash is what it was.
\<close>

theorem ota_bad_header_refused:
  assumes "user_ready f s" and "f 2048 (world s) = (int (length p), p, w)" and "8 \<le> length p" and "length p \<le> 2048"
    and "bad_header p" and "NextImgFg (ctrl s) \<noteq> 1" and "\<forall>n w. op_malloc (net E) n w = (True, w)"
  shows "\<exists>s'. ota_core_process E s = Some (OTA_ERR, s') \<and> flash s' = flash s"
proof -
  let ?s = "s\<lparr>ctrl := (ctrl s)\<lparr>index := 0, IsGetOTAHdr := 0, IsDnldInit := 0\<rparr>\<rparr>"
  let ?s2 = "?s\<lparr>world := w, rbuf := p @ replicate (2048 - length p) 0\<rparr>"
  have p: "p \<noteq> []" using assms(3) by auto
  have "user_ready f ?s" using assms(1) by (simp add: user_ready_def)
  from process_loop_user [OF this _ p assms(4)] assms(2)
  have loop: "process_loop E ?s = after_read E ?s2 (length p)" by simp
  obtain s' where pa: "ota_core_parse_header E ?s2 (length p) = Some (OTA_ERR, s')"
    using bad_header_parse [OF assms(5,3), of ?s2 "replicate (2048 - length p) 0" E] assms(6,7) by auto
  have "after_read E ?s2 (length p) = Some (OTA_ERR, s')"
    using pa by (simp add: after_read_def ota_fw_program_def OTA_ERR_def OTA_FINISH_def)
  then show ?thesis
    using loop assms(7) parse_header_flash [OF pa] by (simp add: ota_core_process_def)
qed

theorem ota_bad_header_refused_witness:
  "\<exists>s'. ota_core_process (run_env 0) (run_state (le32_bytes 1 @ le32_bytes 3)) = Some (OTA_ERR, s') \<and>
     flash s' = flash (run_state (le32_bytes 1 @ le32_bytes 3))"
proof -
  let ?p = "le32_bytes 1 @ le32_bytes 3"
  have 1: "user_ready mem_source (run_state ?p)" using run_fresh [of ?p] by (simp add: ota_fresh_def)
  have 2: "mem_source 2048 (world (run_state ?p)) = (int (length ?p), ?p, [])"
    by (simp add: mem_source_def run_state_def)
  have 3: "bad_header ?p"
    using le32_roundtrip [of 3 "[]"] by (simp add: bad_header_def Let_def)
  have 4: "NextImgFg (ctrl (run_state ?p)) \<noteq> 1" by (simp add: run_state_def zero_ctrl_def)
  have 5: "\<forall>n w. op_malloc (net (run_env 0)) n w = (True, w)" by (simp add: run_env_def run_net_def)
  show ?thesis by (rule ota_bad_header_refused [OF 1 2 _ _ 3 4 5]) simp_all
qed

section \<open>The check of the layout\<close>

text \<open>The room of the slot an image goes to.\<close>

definition slot_room :: "u32 list \<Rightarrow> u32 \<Rightarrow> nat" where
  "slot_room RSIP iid = (if iid = 0 then 0x13FFF else app_room (running_app (RSIP ! 1)))"

lemma cur_index_table0:
  assumes "ota_get_cur_index RSIP i img_table0 = Some (cur, T)"
  shows "T = img_table0 \<and> (cur = 0 \<or> cur = 1) \<and> (i = 1 \<longrightarrow> cur = running_app (RSIP ! 1))"
  using assms
  by (auto simp: ota_get_cur_index_def nth_opt_def tab_get_def running_app_def Let_def
      img_addr_load_table [unfolded img_table0_def] img_table0_def split: if_splits Option.bind_splits)

lemma tab_get_table0_Some:
  assumes "tab_get img_table0 i j = Some a"
  shows "(i = 0 \<or> i = 1) \<and> (j = 0 \<or> j = 1)"
  using assms by (auto simp: tab_get_def img_table0_def less_Suc_eq split: if_splits)

text \<open>One round of the loop that does not refuse the image.\<close>

lemma check_layout_round:
  assumes "check_layout_loop RSIP hm k e sl img_table0 = Some (OTA_OK, T)" and "k < unat (ValidImgCnt hm)"
    and "sl = 0 \<or> sl = 1"
  shows "\<exists>h e' sl'. nth_opt (FileImgHdr hm) k = Some h \<and> (ImgID h = 0 \<or> ImgID h = 1) \<and>
    unat (ImgLen h) \<le> slot_room RSIP (ImgID h) \<and> (sl' = 0 \<or> sl' = 1) \<and>
    check_layout_loop RSIP hm (k + 1) e' sl' img_table0 = Some (OTA_OK, T)"
proof -
  obtain h where h: "nth_opt (FileImgHdr hm) k = Some h"
    using assms(1,2) by (subst (asm) check_layout_loop.simps) (auto split: Option.bind_splits)
  obtain cur where cur: "ota_get_cur_index RSIP (ucast (ImgID h)) img_table0 = Some (cur, img_table0)"
    "cur = 0 \<or> cur = 1" "ucast (ImgID h) = (1 :: u8) \<longrightarrow> cur = running_app (RSIP ! 1)"
    using assms(1,2) h
    by (subst (asm) check_layout_loop.simps) (auto split: Option.bind_splits dest: cur_index_table0)
  define slot where "slot = (if cur = 0 then 1 else sl)"
  obtain start where st: "tab_get img_table0 (unat (ImgID h)) (unat slot) = Some start"
    using assms(1,2) h cur(1) unfolding slot_def
    by (subst (asm) check_layout_loop.simps) (auto simp: Let_def split: Option.bind_splits)
  have iid: "ImgID h = 0 \<or> ImgID h = 1"
    using tab_get_table0_Some [OF st] by (auto simp: unat_eq_1 unat_eq_0)
  have slot: "slot = 0 \<or> slot = 1" using assms(3) by (simp add: slot_def)
  define e' where "e' = (if ImgID h = 0 then if slot = 0 then 0x08013FFF else 0x08213FFF
    else if slot = 0 then 0x081FFFFF else 0x083DCFFF :: u32)"
  have "check_layout_loop RSIP hm k e sl img_table0 =
      (if e' - start < ImgLen h then Some (OTA_ERR, img_table0)
       else check_layout_loop RSIP hm (k + 1) e' slot img_table0)"
    using assms(2) h cur(1) st iid slot
    by (subst check_layout_loop.simps) (auto simp: Let_def slot_def e'_def)
  then have "\<not> e' - start < ImgLen h" "check_layout_loop RSIP hm (k + 1) e' slot img_table0 = Some (OTA_OK, T)"
    using assms(1) by (auto simp: OTA_OK_def OTA_ERR_def split: if_splits)
  moreover have "unat (e' - start) \<le> slot_room RSIP (ImgID h)"
    using iid slot st cur(3) by (auto simp: e'_def slot_room_def app_room_def slot_def split: if_splits)
  ultimately show ?thesis
    using h iid slot by (auto simp: word_less_nat_alt intro!: exI [of _ e'] exI [of _ slot])
qed

lemma check_layout_all:
  assumes "check_layout_loop RSIP hm k e sl img_table0 = Some (OTA_OK, T)" and "k \<le> i"
    and "i < unat (ValidImgCnt hm)" and "sl = 0 \<or> sl = 1"
  shows "\<exists>h. nth_opt (FileImgHdr hm) i = Some h \<and> (ImgID h = 0 \<or> ImgID h = 1) \<and>
    unat (ImgLen h) \<le> slot_room RSIP (ImgID h)"
  using assms
proof (induction "i - k" arbitrary: k e sl)
  case 0
  then show ?case using check_layout_round [OF "0.prems"(1), OF _ "0.prems"(4)] by auto
next
  case (Suc n)
  then have k: "k < unat (ValidImgCnt hm)" "k + 1 \<le> i" "n = i - (k + 1)" by auto
  from check_layout_round [OF Suc.prems(1) k(1) Suc.prems(4)]
  show ?case using Suc.hyps(1) [OF k(3) _ k(2) Suc.prems(3)] by blast
qed

text \<open>
  C18. A file that passes the check of the layout fits: every image it names is the boot loader or the
  application and is no longer than the slot the download will write it to.
\<close>

theorem ota_check_layout_sound:
  assumes "ota_storage_check_layout RSIP hm img_table0 = Some (OTA_OK, T)" and "i < unat (ValidImgCnt hm)"
  shows "\<exists>h. nth_opt (FileImgHdr hm) i = Some h \<and> (ImgID h = 0 \<or> ImgID h = 1) \<and>
    unat (ImgLen h) \<le> slot_room RSIP (ImgID h)"
  using assms check_layout_all [of RSIP hm 0 0 0 T i] by (simp add: ota_storage_check_layout_def)

definition sub_hdr :: "u32 \<Rightarrow> u32 \<Rightarrow> ota_sub_hdr" where
  "sub_hdr iid ln = \<lparr>Signature = bytes ''OTA '', ImgHdrLen = 24, Checksum = 0, ImgLen = ln, Offset = 0, ImgID = iid\<rparr>"

definition hdr_of :: "ota_sub_hdr list \<Rightarrow> ota_hdr_manager" where
  "hdr_of hs = \<lparr>FwVer = 1, HdrNum = of_nat (length hs), FileImgHdr = hs, Manifest = [], ValidImgCnt = of_nat (length hs)\<rparr>"

theorem ota_check_layout_sound_witness:
  "\<exists>h. nth_opt (FileImgHdr (hdr_of [sub_hdr 1 0x1EBFFF])) 0 = Some h \<and> (ImgID h = 0 \<or> ImgID h = 1) \<and>
     unat (ImgLen h) \<le> slot_room [0, 0x82160001] (ImgID h)"
proof (rule ota_check_layout_sound)
  show "ota_storage_check_layout [0, 0x82160001] (hdr_of [sub_hdr 1 0x1EBFFF]) img_table0 = Some (OTA_OK, img_table0)"
    by (rule check_layout_app [where h = "sub_hdr 1 0x1EBFFF" and hs = "[]"])
       (simp_all add: hdr_of_def sub_hdr_def running_app_def app_room_def)
qed (simp add: hdr_of_def)

text \<open>
  C37. The variable of the check that holds the slot is not reset between images. With the boot loader
  running from its first slot and the application from its second, a file with both images is refused for
  an application that fits the slot it would be written to; the same application alone is accepted.
\<close>

theorem ota_check_layout_stale_slot:
  assumes "1 < length RSIP" and "RSIP ! 0 AND 1 = 0" and "running_app (RSIP ! 1) = 1"
    and "FileImgHdr hm = [hb, ha]" and "ValidImgCnt hm = 2" and "FileImgHdr hm1 = [ha]" and "ValidImgCnt hm1 = 1"
    and "ImgID hb = 0" and "unat (ImgLen hb) \<le> 0x13FFF" and "ImgID ha = 1"
    and "app_room 0 < unat (ImgLen ha)" and "unat (ImgLen ha) \<le> slot_room RSIP (ImgID ha)"
  shows "ota_storage_check_layout RSIP hm img_table0 = Some (OTA_ERR, img_table0) \<and>
    ota_storage_check_layout RSIP hm1 img_table0 = Some (OTA_OK, img_table0)"
proof
  have c0: "ota_get_cur_index RSIP 0 img_table0 = Some (0, img_table0)"
    using assms(1,2) by (auto simp: ota_get_cur_index_def nth_opt_def Let_def)
  have c1: "ota_get_cur_index RSIP 1 img_table0 = Some (1, img_table0)"
    using assms(1,3) by (simp add: cur_index_app)
  have "check_layout_loop RSIP hm 0 0 0 img_table0 = check_layout_loop RSIP hm 1 0x08213FFF 1 img_table0"
    using assms c0 by (subst check_layout_loop.simps) (simp add: nth_opt_def Let_def word_less_nat_alt)
  moreover have "check_layout_loop RSIP hm 1 0x08213FFF 1 img_table0 = Some (OTA_ERR, img_table0)"
    using assms c1 by (subst check_layout_loop.simps) (simp add: nth_opt_def Let_def word_less_nat_alt app_room_def)
  ultimately show "ota_storage_check_layout RSIP hm img_table0 = Some (OTA_ERR, img_table0)"
    by (simp add: ota_storage_check_layout_def)
  show "ota_storage_check_layout RSIP hm1 img_table0 = Some (OTA_OK, img_table0)"
    by (rule check_layout_app) (use assms in \<open>simp_all add: slot_room_def\<close>)
qed

theorem ota_check_layout_stale_slot_witness:
  "ota_storage_check_layout [0, 0x82160001] (hdr_of [sub_hdr 0 0x10000, sub_hdr 1 0x1D0000]) img_table0 =
     Some (OTA_ERR, img_table0) \<and>
   ota_storage_check_layout [0, 0x82160001] (hdr_of [sub_hdr 1 0x1D0000]) img_table0 = Some (OTA_OK, img_table0)"
  by (rule ota_check_layout_stale_slot [where hb = "sub_hdr 0 0x10000" and ha = "sub_hdr 1 0x1D0000"])
     (simp_all add: hdr_of_def sub_hdr_def running_app_def app_room_def slot_room_def)

section \<open>Urls\<close>

lemma strstr_char:
  assumes "c \<notin> set xs"
  shows "strstr (xs @ c # ys) [c] = Some (length xs)"
  using assms by (induction xs) auto

lemma strstr_prefix: "strstr (pat @ ys) pat = Some 0"
  by (cases pat; cases ys) (auto simp: neq_Nil_conv)

lemma digits_until:
  assumes "\<forall>d \<in> set ds. is_digit d" and "\<not> is_digit c"
  shows "takeWhile is_digit (ds @ c # r) = ds"
  using assms by (induction ds) auto

lemma atoi_digits:
  assumes "\<forall>d \<in> set ds. is_digit d" and "ds \<noteq> []" and "\<not> is_digit c"
  shows "atoi (ds @ c # r) = digits_val ds"
proof (cases ds)
  case (Cons d ds')
  then have "\<not> is_space d" "d \<noteq> 0x2D" "d \<noteq> 0x2B"
    using assms(1) by (auto simp: is_digit_def is_space_def word_le_nat_alt)
  then show ?thesis
    using Cons digits_until [OF assms(1,3), of r] by (simp add: atoi_def)
qed (use assms in simp)

text \<open>
  C28. A url is taken apart into what it was put together from: the host, the port as a 16-bit number and
  the resource, for any host without a colon or a slash and any resource.
\<close>

theorem parser_url_roundtrip:
  assumes "0x3A \<notin> set h" and "0x2F \<notin> set h" and "\<forall>d \<in> set ds. is_digit d" and "ds \<noteq> []"
  shows "parser_url (Some (bytes ''http://'' @ h @ bytes '':'' @ ds @ bytes ''/'' @ r)) =
    Some (h, of_int (digits_val ds), r)"
proof -
  have b: "bytes '':'' = [0x3A]" "bytes ''/'' = [0x2F]" by (simp_all add: bytes_def)
  have l: "length (bytes ''http://'') = 7" by (simp add: bytes_def)
  let ?u = "h @ 0x3A # ds @ 0x2F # r"
  have "0x2F \<notin> set ds" using assms(3) by (auto simp: is_digit_def word_le_nat_alt)
  then have "strstr ((h @ 0x3A # ds) @ 0x2F # r) [0x2F] = Some (length (h @ 0x3A # ds))"
    using assms(2) by (intro strstr_char) auto
  moreover have "strstr ?u [0x3A] = Some (length h)" using assms(1) by (rule strstr_char)
  moreover have "atoi (ds @ 0x2F # r) = digits_val ds"
    using assms(3,4) by (intro atoi_digits) (auto simp: is_digit_def word_le_nat_alt)
  ultimately show ?thesis
    using strstr_prefix [of "bytes ''http://''" ?u] by (simp add: parser_url_def b l Let_def)
qed

theorem parser_url_roundtrip_witness:
  "parser_url (Some (bytes ''http://'' @ bytes ''a.de'' @ bytes '':'' @ bytes ''8082'' @ bytes ''/'' @ bytes ''fw/ota.bin'')) =
     Some (bytes ''a.de'', of_int (digits_val (bytes ''8082'')), bytes ''fw/ota.bin'') \<and>
   digits_val (bytes ''8082'') = 8082"
  using parser_url_roundtrip [of "bytes ''a.de''" "bytes ''8082''" "bytes ''fw/ota.bin''"]
  by (simp add: bytes_def is_digit_def digits_val_def word_le_nat_alt)

section \<open>Setting up\<close>

text \<open>
  C27. After power-up the calls an application makes for its own transport lead to the state the download
  starts from: \<open>ota_init\<close> loads the table of the slots and succeeds without freeing anything, the context
  with the read function registered is fresh, and \<open>ota_start\<close> on it is the process itself.
\<close>

theorem ota_session:
  assumes "img s = [[0, 0], [0, 0]]" and "za \<noteq> 0" and "zb \<noteq> 0" and "ram_ok (rbuf_at s) 2048" and "ram_ok (zb + 56) 24"
  shows "\<exists>s1 s2. ota_init E s za zb None 0 None OTA_USER = Some (OTA_OK, s1, []) \<and>
    ota_register_user_read_func (Some f) (Some s1) = (OTA_OK, Some s2) \<and>
    ota_fresh f s2 \<and> flash s2 = flash s \<and> world s2 = world s \<and>
    ota_start E s2 =
      map_option (\<lambda>(e, s3). (if e \<noteq> OTA_OK then OTA_ERR else OTA_OK,
        ota_transport_disconnect (cfg E) (net E) s3)) (ota_core_process E s2)"
proof -
  have T: "ota_storage_init [[0, 0], [0, 0]] = Some (OTA_OK, img_table0)"
    by (simp add: ota_storage_init_def tab_get_def img_addr_load_table)
  note types = OTA_USER_def OTA_WHC_def OTA_HTTP_def OTA_HTTPS_def OTA_VFS_def
  obtain s1 where s1: "ota_init E s za zb None 0 None OTA_USER = Some (OTA_OK, s1, [])"
    and f1: "ttype s1 = OTA_USER" "fd s1 = 0" "yield_func s1 = None" "user_open_func s1 = None" "rbuf_at s1 = rbuf_at s"
      "img s1 = img_table0" "ctrl s1 = zero_ctrl" "hdr s1 = zero_hdr" "otaHdrManager s1 = zb" "flash s1 = flash s" "world s1 = world s"
    using assms(1-3) T by (simp add: ota_init_def ota_transport_init_def Let_def)
  define s2 where "s2 = s1\<lparr>user_read_func := Some f\<rparr>"
  have reg: "ota_register_user_read_func (Some f) (Some s1) = (OTA_OK, Some s2)"
    by (simp add: ota_register_user_read_func_def s2_def)
  have fresh: "ota_fresh f s2"
    using assms(4,5) f1 by (simp add: s2_def ota_fresh_def user_ready_def zero_ctrl_def zero_hdr_def manifest_at_def)
  have "ota_transport_connect (cfg E) (net E) s2 = Some (OTA_OK, s2)"
    using f1 by (simp add: s2_def ota_transport_connect_def types)
  then have "ota_core_prepare E s2 = Some (OTA_OK, s2)" by (simp add: ota_core_prepare_def)
  then have "ota_start E s2 = map_option (\<lambda>(e, s3). (if e \<noteq> OTA_OK then OTA_ERR else OTA_OK,
        ota_transport_disconnect (cfg E) (net E) s3)) (ota_core_process E s2)"
    by (cases "ota_core_process E s2") (auto simp: ota_start_def Let_def)
  then show ?thesis using s1 reg fresh f1 by (intro exI [of _ s1] exI [of _ s2]) (simp add: s2_def)
qed

theorem ota_session_witness:
  "\<exists>s1 s2. ota_init (run_env 0) ((run_state [])\<lparr>img := [[0, 0], [0, 0]]\<rparr>) 0x30002000 0x30003000 None 0 None OTA_USER =
      Some (OTA_OK, s1, []) \<and>
    ota_register_user_read_func (Some mem_source) (Some s1) = (OTA_OK, Some s2) \<and> ota_fresh mem_source s2"
proof -
  have "ram_ok 0x30004000 2048" "ram_ok 0x30003038 24" by (rule ram_okI; simp)+
  then show ?thesis
    using ota_session [of "(run_state [])\<lparr>img := [[0, 0], [0, 0]]\<rparr>" "0x30002000" "0x30003000" "run_env 0" mem_source]
    by (auto simp: run_state_def)
qed



section \<open>Connecting\<close>

text \<open>
  When a connect fails the code looks for a redirect without a test that there is a redirect structure,
  which only the HTTP transports have: an update from a file that cannot be opened faults.
\<close>

theorem ota_prepare_null_redirect:
  assumes "ttype s = OTA_VFS" and "resource s = Some r" and "redirect s = None" and "op_fopen (net E) r (world s) = (0, w)"
  shows "ota_core_prepare E s = None"
  using assms
  by (simp add: ota_core_prepare_def ota_transport_connect_def ota_vfs_open_def OTA_VFS_def OTA_HTTP_def OTA_HTTPS_def
      OTA_WHC_def OTA_ERR_def OTA_OK_def)

theorem ota_prepare_null_redirect_witness:
  "ota_core_prepare (run_env 0) ((run_state [])\<lparr>ttype := OTA_VFS, resource := Some (bytes ''ota.bin'')\<rparr>) = None"
  by (rule ota_prepare_null_redirect [where r = "bytes ''ota.bin''" and w = "[]"])
     (simp_all add: run_state_def run_env_def run_net_def)

text \<open>A response of which the first read gives the status line but not the whole header.\<close>

lemma cstr_padded: "0 \<notin> set bs \<Longrightarrow> 0 < k \<Longrightarrow> cstr (bs @ replicate k 0) = Some bs"
  by (cases k) (auto simp: cstr_def, subst takeWhile_append2, auto)

lemma split_header_parse:
  assumes "redirect s = Some r" and "0 \<notin> set bs" and "0 < k" and "9 \<le> length bs" and "strstr bs CRLF \<noteq> None"
    and "strstr bs (CRLF @ CRLF) = None" and "atoi (drop 9 bs) = 200" and "header_bak res = None" and "parse_status res = 0"
  shows "ota_http_parse_response N s (bs @ replicate k 0) (length bs) res = None"
proof -
  have "0 \<notin> set (drop 9 bs)" using assms(2) by (meson in_set_dropD)
  then have "cstr (drop 9 (bs @ replicate k 0)) = Some (drop 9 bs)"
    using cstr_padded [of "drop 9 bs" k] assms(3,4) by simp
  moreover have "http_parse_length bs (bs @ replicate k 0) (length bs) (res\<lparr>status_code := 200, parse_status := 1\<rparr>) = None"
    using assms(6,8)
    by (auto simp: http_parse_length_def save_header_tail_def Let_def split: Option.bind_splits option.splits if_splits)
  ultimately show ?thesis
    using assms cstr_padded [OF assms(2,3)]
    by (auto simp: ota_http_parse_response_def http_parse_end_def Let_def)
qed


definition half_response :: "u8 list" where
  "half_response = bytes ''HTTP/1.1 200 OK'' @ CRLF @ bytes ''Content-Length: 10''"


section \<open>A header in two pieces\<close>

text \<open>
  When the first bytes of the file came with the HTTP response and the next read gives the rest of the
  header and nothing more, the header is accepted but the piece that was kept is still marked as data of
  the next image: the next packet will take these bytes of the header for the start of the image.
\<close>

theorem parse_header_stale_piece:
  assumes "file_header ver 1 sg hl ck ln off 1 = pre @ post" and "length sg = 4" and "is_ota_signature sg"
    and "NextImgFg (ctrl s) = 1" and "NextImgLen (ctrl s) = int (length pre)"
    and "take (length pre) (NextImgBuf (ctrl s)) = pre" and "rbuf s = post @ pad"
    and "op_malloc (net E) 88 (world s) = (True, w)" and "length (FileImgHdr (hdr s)) = 2" and "img s = img_table0"
    and "1 < length (rsip E)" and "unat ln \<le> app_room (running_app (rsip E ! 1))"
  shows "\<exists>s'. ota_core_parse_header E s (length post) = Some (OTA_OK, s') \<and> IsGetOTAHdr (ctrl s') = 1 \<and>
    NextImgFg (ctrl s') = 1 \<and> bref_read s' (Next 0) (NextImgLen (ctrl s')) = pre"
proof -
  let ?f = "file_header ver 1 sg hl ck ln off 1"
  define temp where "temp = ?f @ replicate 56 (0 :: u8)"
  note rd = read_file_header [OF assms(2), of ver 1 hl ck ln off 1 "replicate 56 0", folded temp_def]
  have len: "length post + length pre = 32"
    using assms(1,2) by (metis length_append length_file_header add.commute)
  have temp: "list_blit (replicate 88 0) 0 (pre @ post) = temp"
    using assms(1,2) by (simp add: temp_def list_blit_def flip: assms(1))
  let ?s1 = "s\<lparr>world := w, hdr := (hdr s)\<lparr>FwVer := le32 temp, HdrNum := 1\<rparr>\<rparr>"
  have 1: "ota_core_recv_header (cfg E) (net E) (s\<lparr>world := w\<rparr>) temp 32 = Some (OTA_OK, temp, 32, ?s1)"
    using recv_header_ready [of 32 1 temp "cfg E" "net E" "s\<lparr>world := w\<rparr>"] rd(2) by (simp add: hdr_total_def)
  let ?s2 = "?s1\<lparr>hdr := (hdr ?s1)\<lparr>FileImgHdr := (FileImgHdr (hdr ?s1))[0 := read_sub_hdr (drop 8 temp)], ValidImgCnt := 1\<rparr>\<rparr>"
  have 2: "ota_core_get_target_header ?s1 temp 32 = Some (OTA_OK, ?s2)"
    by (rule target_header_one) (use rd assms in simp_all)
  obtain hd tl where hs: "FileImgHdr (hdr s) = hd # tl" using assms(9) by (cases "FileImgHdr (hdr s)") auto
  have 3: "ota_storage_check_layout (rsip E) (hdr ?s2) img_table0 = Some (OTA_OK, img_table0)"
    by (rule check_layout_app [OF assms(11), where h = "read_sub_hdr (drop 8 temp)" and hs = tl])
       (use hs rd(3) assms(12) in simp_all)
  have "ota_core_parse_header E s (length post) =
      Some (OTA_OK, ?s2\<lparr>img := img_table0, ctrl := (ctrl s)\<lparr>IsGetOTAHdr := 1\<rparr>\<rparr>)"
    using 1 2 3 len temp assms(4-8,10) by (simp add: ota_core_parse_header_def Let_def)
  then show ?thesis using assms(4-6) by (simp add: bref_read_def)
qed

definition piece_header :: "u8 list" where
  "piece_header = file_header 1 1 (bytes ''OTA '') 24 0 0x1000 32 1"

definition piece_state :: "u8 list ota" where
  "piece_state = (run_state [])\<lparr>ctrl := zero_ctrl\<lparr>NextImgFg := 1, NextImgLen := 20,
     NextImgBuf := take 20 piece_header @ replicate 2028 0\<rparr>, rbuf := drop 20 piece_header @ replicate 2036 0\<rparr>"

theorem parse_header_stale_piece_witness:
  "\<exists>s'. ota_core_parse_header (run_env 0) piece_state 12 = Some (OTA_OK, s') \<and> IsGetOTAHdr (ctrl s') = 1 \<and>
     NextImgFg (ctrl s') = 1 \<and> bref_read s' (Next 0) (NextImgLen (ctrl s')) = take 20 piece_header"
proof -
  have sg: "length (bytes ''OTA '') = 4" "is_ota_signature (bytes ''OTA '')"
    by (simp_all add: bytes_def is_ota_signature_def)
  have l: "length piece_header = 32" using sg by (simp add: piece_header_def)
  have f: "file_header 1 1 (bytes ''OTA '') 24 0 0x1000 32 1 = take 20 piece_header @ drop 20 piece_header"
    by (simp add: piece_header_def)
  have "\<exists>s'. ota_core_parse_header (run_env 0) piece_state (length (drop 20 piece_header)) = Some (OTA_OK, s') \<and>
      IsGetOTAHdr (ctrl s') = 1 \<and> NextImgFg (ctrl s') = 1 \<and>
      bref_read s' (Next 0) (NextImgLen (ctrl s')) = take 20 piece_header"
    by (rule parse_header_stale_piece [OF f sg, where pad = "replicate 2036 0" and w = "[]"])
       (simp_all add: piece_state_def run_state_def run_env_def run_net_def zero_hdr_def l running_app_def app_room_def)
  then show ?thesis by (simp add: l)
qed

end
