(* ===== verification/Diag_Ring.thy ===== *)
theory Diag_Ring
  imports Prelude
begin

text \<open>
  The ring array of the diagnostics, \<open>src/component/soc/common/diagnose/ameba_diagnose_ring_array.c\<close>: a
  fixed number of slots of which the oldest is overwritten when all are in use. The queue of the
  diagnostics keeps its events and the record of deleted events in such arrays.

  A slot holds a value; \<open>ra_emplace\<close> says what is stored for the data that is handed in (with a NULL
  callback the pointer itself). The address an accessor returns stands for the value it points to. A
  handler that can be NULL is an option. None as the result of \<open>ra_push\<close> is the division by a capacity
  of zero.
\<close>

section \<open>Operations\<close>

definition RTK_SUCCESS :: int where "RTK_SUCCESS = 0"

definition RTK_ERR_BADARG :: int where "RTK_ERR_BADARG = 2"

record ('o, 'e) RingArray =
  ra_capacity :: u32
  ra_element_size :: u32
  ra_head :: u32
  ra_tail :: u32
  ra_count :: u32
  ra_emplace :: "'o \<Rightarrow> 'e"
  ra_data :: "'e list"

text \<open>\<open>ok\<close> is whether the allocation succeeded and \<open>junk\<close> what the memory held.\<close>

definition rtk_diag_ring_array_create ::
  "bool \<Rightarrow> 'e \<Rightarrow> u32 \<Rightarrow> u32 \<Rightarrow> ('o \<Rightarrow> 'e) \<Rightarrow> ('o, 'e) RingArray option" where
  "rtk_diag_ring_array_create ok junk capacity element_size emplace =
     (if \<not> ok then None
      else Some \<lparr>ra_capacity = capacity, ra_element_size = element_size, ra_head = 0, ra_tail = 0,
                 ra_count = 0, ra_emplace = emplace, ra_data = replicate (unat capacity) junk\<rparr>)"

text \<open>The result is the return code and whether the block is freed.\<close>

definition rtk_diag_ring_array_destroy :: "('o, 'e) RingArray option \<Rightarrow> int \<times> bool" where
  "rtk_diag_ring_array_destroy handler =
     (case handler of None \<Rightarrow> (RTK_ERR_BADARG, False) | Some _ \<Rightarrow> (RTK_SUCCESS, True))"

definition ra_clear :: "('o, 'e) RingArray \<Rightarrow> ('o, 'e) RingArray" where
  "ra_clear r = r\<lparr>ra_head := 0, ra_tail := 0, ra_count := 0\<rparr>"

definition rtk_diag_ring_array_clear ::
  "('o, 'e) RingArray option \<Rightarrow> int \<times> ('o, 'e) RingArray option" where
  "rtk_diag_ring_array_clear handler =
     (case handler of None \<Rightarrow> (RTK_ERR_BADARG, None) | Some r \<Rightarrow> (RTK_SUCCESS, Some (ra_clear r)))"

definition ra_push :: "('o, 'e) RingArray \<Rightarrow> 'o \<Rightarrow> ('o, 'e) RingArray option" where
  "ra_push r origin_data =
     (if ra_capacity r = 0 then None
      else
        let r1 = (if ra_count r = ra_capacity r
                  then r\<lparr>ra_head := (ra_head r + 1) mod ra_capacity r\<rparr>
                  else r\<lparr>ra_count := ra_count r + 1\<rparr>)
        in Some (r1\<lparr>ra_data := (ra_data r1)[unat (ra_tail r1) := ra_emplace r1 origin_data],
                    ra_tail := (ra_tail r1 + 1) mod ra_capacity r1\<rparr>))"

definition rtk_diag_ring_array_emplace_back ::
  "('o, 'e) RingArray option \<Rightarrow> 'o \<Rightarrow> ('o, 'e) RingArray option option" where
  "rtk_diag_ring_array_emplace_back handler origin_data =
     (case handler of None \<Rightarrow> Some None | Some r \<Rightarrow> map_option Some (ra_push r origin_data))"

definition rtk_diag_ring_array_size :: "('o, 'e) RingArray option \<Rightarrow> u32" where
  "rtk_diag_ring_array_size handler = (case handler of None \<Rightarrow> 0 | Some r \<Rightarrow> ra_count r)"

definition ra_get :: "('o, 'e) RingArray \<Rightarrow> u32 \<Rightarrow> 'e option" where
  "ra_get r i =
     (if i \<ge> ra_count r then None
      else Some (ra_data r ! unat ((ra_head r + i) mod ra_capacity r)))"

definition rtk_diag_ring_array_at :: "('o, 'e) RingArray option \<Rightarrow> u32 \<Rightarrow> 'e option" where
  "rtk_diag_ring_array_at handler i = (case handler of None \<Rightarrow> None | Some r \<Rightarrow> ra_get r i)"

definition rtk_diag_ring_array_view :: "('o, 'e) RingArray option \<Rightarrow> u32 \<Rightarrow> 'e option" where
  "rtk_diag_ring_array_view handler i = (case handler of None \<Rightarrow> None | Some r \<Rightarrow> ra_get r i)"

definition ra_pop :: "('o, 'e) RingArray \<Rightarrow> ('e \<times> ('o, 'e) RingArray) option" where
  "ra_pop r =
     (if ra_count r = 0 then None
      else Some (ra_data r ! unat (ra_head r),
                 r\<lparr>ra_head := (ra_head r + 1) mod ra_capacity r, ra_count := ra_count r - 1\<rparr>))"

definition rtk_diag_ring_array_pop ::
  "('o, 'e) RingArray option \<Rightarrow> 'e option \<times> ('o, 'e) RingArray option" where
  "rtk_diag_ring_array_pop handler =
     (case handler of
        None \<Rightarrow> (None, None)
      | Some r \<Rightarrow> (case ra_pop r of None \<Rightarrow> (None, Some r) | Some (x, r') \<Rightarrow> (Some x, Some r')))"

section \<open>The interface\<close>

text \<open>A queue with room for a fixed number of elements that forgets its oldest element when it is full.\<close>

locale overwriting_queue =
  fixes inv :: "'q \<Rightarrow> bool" and cap :: "'q \<Rightarrow> nat" and items :: "'q \<Rightarrow> 'e list"
    and stored :: "'q \<Rightarrow> 'o \<Rightarrow> 'e" and push :: "'q \<Rightarrow> 'o \<Rightarrow> 'q option" and pop :: "'q \<Rightarrow> ('e \<times> 'q) option"
  assumes bound: "inv q \<Longrightarrow> 0 < cap q \<and> length (items q) \<le> cap q"
    and push_ok: "inv q \<Longrightarrow> \<exists>q'. push q x = Some q' \<and> inv q' \<and> cap q' = cap q \<and> stored q' = stored q \<and>
      items q' = (if length (items q) = cap q then tl (items q) else items q) @ [stored q x]"
    and pop_empty: "inv q \<Longrightarrow> items q = [] \<Longrightarrow> pop q = None"
    and pop_ok: "inv q \<Longrightarrow> items q = y # ys \<Longrightarrow>
      \<exists>q'. pop q = Some (y, q') \<and> inv q' \<and> cap q' = cap q \<and> stored q' = stored q \<and> items q' = ys"

definition last_n :: "nat \<Rightarrow> 'a list \<Rightarrow> 'a list" where
  "last_n n xs = drop (length xs - n) xs"

text \<open>Handing in a list of elements one after the other, and taking out all there are.\<close>

fun push_all :: "('q \<Rightarrow> 'o \<Rightarrow> 'q option) \<Rightarrow> 'q \<Rightarrow> 'o list \<Rightarrow> 'q option" where
  "push_all push q [] = Some q"
| "push_all push q (x # xs) = (case push q x of None \<Rightarrow> None | Some q' \<Rightarrow> push_all push q' xs)"

fun pop_n :: "('q \<Rightarrow> ('e \<times> 'q) option) \<Rightarrow> nat \<Rightarrow> 'q \<Rightarrow> 'e list \<times> 'q" where
  "pop_n pop 0 q = ([], q)"
| "pop_n pop (Suc n) q =
     (case pop q of None \<Rightarrow> ([], q) | Some (x, q') \<Rightarrow> (case pop_n pop n q' of (xs, q'') \<Rightarrow> (x # xs, q'')))"

context overwriting_queue
begin

lemma push_items:
  assumes "inv q" and "push q x = Some q'"
  shows "inv q' \<and> cap q' = cap q \<and> stored q' = stored q \<and> items q' = last_n (cap q) (items q @ [stored q x])"
  using push_ok [OF assms(1), of x] bound [OF assms(1)] assms(2)
  by (cases "items q") (auto simp: last_n_def)

lemma push_all_items:
  assumes "inv q"
  shows "\<exists>q'. push_all push q xs = Some q' \<and> inv q' \<and> cap q' = cap q \<and>
    items q' = last_n (cap q) (items q @ map (stored q) xs)"
  using assms
proof (induction xs arbitrary: q)
  case Nil
  then show ?case using bound [of q] by (simp add: last_n_def)
next
  case (Cons x xs)
  obtain q1 where q1: "push q x = Some q1" using push_ok [OF Cons.prems] by blast
  note i = push_items [OF Cons.prems q1]
  obtain q' where q': "push_all push q1 xs = Some q'" "inv q'" "cap q' = cap q1"
    "items q' = last_n (cap q1) (items q1 @ map (stored q1) xs)"
    using Cons.IH i by blast
  have "last_n (cap q) (last_n (cap q) (items q @ [stored q x]) @ map (stored q) xs) =
      last_n (cap q) (items q @ map (stored q) (x # xs))"
    by (simp add: last_n_def drop_append) (simp add: drop_Cons' split: nat_diff_split)
  then show ?case using q1 q' i by simp
qed

lemma pop_all:
  assumes "inv q"
  shows "\<exists>q'. pop_n pop (length (items q)) q = (items q, q') \<and> inv q' \<and> items q' = []"
  using assms
proof (induction "items q" arbitrary: q)
  case Nil
  then show ?case by auto
next
  case (Cons y ys)
  obtain q1 where q1: "pop q = Some (y, q1)" "inv q1" "items q1 = ys"
    using pop_ok [OF Cons.prems Cons.hyps(2) [symmetric]] by blast
  then show ?case using Cons.hyps(1) [of q1] Cons.hyps(2) [symmetric] by auto
qed

end

section \<open>The ring array is such a queue\<close>

definition ra_inv :: "('o, 'e) RingArray \<Rightarrow> bool" where
  "ra_inv r \<longleftrightarrow>
     (let n = unat (ra_capacity r) in
      0 < n \<and> n < 2147483648 \<and> length (ra_data r) = n \<and> unat (ra_head r) < n \<and> unat (ra_count r) \<le> n \<and>
      unat (ra_tail r) = (unat (ra_head r) + unat (ra_count r)) mod n)"

definition ra_items :: "('o, 'e) RingArray \<Rightarrow> 'e list" where
  "ra_items r = map (\<lambda>i. ra_data r ! ((unat (ra_head r) + i) mod unat (ra_capacity r))) [0..<unat (ra_count r)]"

lemma length_ra_items [simp]: "length (ra_items r) = unat (ra_count r)"
  by (simp add: ra_items_def)

text \<open>Index arithmetic of the ring in 32 bits.\<close>

lemma unat_step:
  assumes "unat h < unat n" and "unat k \<le> unat n" and "unat n < 2147483648"
  shows "unat ((h + k) mod n :: u32) = (unat h + unat k) mod unat n"
proof -
  have "unat (h + k) = unat h + unat k" using assms by (intro unat_add_no_wrap) simp
  then show ?thesis by (simp add: unat_mod)
qed

lemma unat_step1:
  assumes "unat h < unat n" and "unat n < 2147483648"
  shows "unat ((h + 1) mod n :: u32) = (unat h + 1) mod unat n"
  using unat_step [of h n 1] assms by simp

lemma ra_items_nth: "i < unat (ra_count r) \<Longrightarrow>
    ra_items r ! i = ra_data r ! ((unat (ra_head r) + i) mod unat (ra_capacity r))"
  by (simp add: ra_items_def)

lemma ra_get_items:
  assumes "ra_inv r"
  shows "ra_get r i = (if unat i < length (ra_items r) then Some (ra_items r ! unat i) else None)"
proof (cases "unat i < unat (ra_count r)")
  case True
  then have "unat ((ra_head r + i) mod ra_capacity r) = (unat (ra_head r) + unat i) mod unat (ra_capacity r)"
    using assms by (intro unat_step) (auto simp: ra_inv_def Let_def)
  then show ?thesis using True by (simp add: ra_get_def ra_items_nth word_le_nat_alt)
qed (simp add: ra_get_def word_le_nat_alt)

lemma ring_index_inj:
  assumes "(h :: nat) < n" and "i < n" and "j < n" and "(h + i) mod n = (h + j) mod n"
  shows "i = j"
  using assms by (simp add: mod_wrap split: if_splits)

text \<open>The slot a new element goes to, seen from the (possibly moved) head.\<close>

lemma push_not_full:
  assumes inv: "ra_inv r" and c: "ra_count r \<noteq> ra_capacity r"
  shows "\<exists>r'. ra_push r x = Some r' \<and> ra_inv r' \<and> ra_capacity r' = ra_capacity r \<and> ra_emplace r' = ra_emplace r \<and>
    ra_items r' = ra_items r @ [ra_emplace r x]"
proof -
  define n h k where "n = unat (ra_capacity r)" and "h = unat (ra_head r)" and "k = unat (ra_count r)"
  have I: "0 < n" "n < 2147483648" "length (ra_data r) = n" "h < n" "k \<le> n" "unat (ra_tail r) = (h + k) mod n"
    using inv by (simp_all add: ra_inv_def Let_def n_def h_def k_def)
  have k: "k < n" using c I(5) by (simp add: k_def n_def word_unat_eq_iff)
  then have k1: "unat (ra_count r + 1) = Suc k"
    using I unat_add_no_wrap [of "ra_count r" 1] by (simp add: k_def)
  define r' where "r' = r\<lparr>ra_count := ra_count r + 1, ra_data := (ra_data r)[unat (ra_tail r) := ra_emplace r x],
    ra_tail := (ra_tail r + 1) mod ra_capacity r\<rparr>"
  have "ra_push r x = Some r'"
    using c I(1) by (auto simp: ra_push_def Let_def r'_def n_def)
  moreover have "unat ((ra_tail r + 1) mod ra_capacity r) = (unat (ra_tail r) + 1) mod n"
    using I unat_step1 [of "ra_tail r" "ra_capacity r"] by (simp add: n_def)
  then have "ra_inv r'"
    using I k by (simp add: ra_inv_def Let_def r'_def k1 mod_Suc_eq flip: n_def h_def)
  moreover have "ra_items r' = ra_items r @ [ra_emplace r x]"
  proof (rule nth_equalityI)
    fix i assume "i < length (ra_items r')"
    then have i: "i < Suc k" by (simp add: r'_def k1)
    have ne: "(h + i) mod n \<noteq> (h + k) mod n" if "i < k"
      using ring_index_inj [OF I(4), of i k] that k by auto
    show "ra_items r' ! i = (ra_items r @ [ra_emplace r x]) ! i"
      using i I ne by (auto simp: ra_items_nth r'_def k1 nth_append nth_list_update k_def less_Suc_eq simp flip: n_def h_def)
  qed (simp add: r'_def k1 k_def)
  ultimately show ?thesis by (intro exI [of _ r']) (simp add: r'_def)
qed

lemma push_full:
  assumes inv: "ra_inv r" and c: "ra_count r = ra_capacity r"
  shows "\<exists>r'. ra_push r x = Some r' \<and> ra_inv r' \<and> ra_capacity r' = ra_capacity r \<and> ra_emplace r' = ra_emplace r \<and>
    ra_items r' = tl (ra_items r) @ [ra_emplace r x]"
proof -
  define n h where "n = unat (ra_capacity r)" and "h = unat (ra_head r)"
  have I: "0 < n" "n < 2147483648" "length (ra_data r) = n" "h < n" "unat (ra_count r) = n" "unat (ra_tail r) = h"
    using inv by (simp_all add: ra_inv_def Let_def n_def h_def c)
  define r' where "r' = r\<lparr>ra_head := (ra_head r + 1) mod ra_capacity r, ra_data := (ra_data r)[h := ra_emplace r x],
    ra_tail := (ra_tail r + 1) mod ra_capacity r\<rparr>"
  have "ra_push r x = Some r'"
    using c I by (auto simp: ra_push_def Let_def r'_def n_def)
  moreover have s: "unat ((ra_head r + 1) mod ra_capacity r) = (h + 1) mod n" "unat ((ra_tail r + 1) mod ra_capacity r) = (h + 1) mod n"
    using I unat_step1 [of "ra_head r" "ra_capacity r"] unat_step1 [of "ra_tail r" "ra_capacity r"] by (simp_all add: n_def h_def)
  then have "ra_inv r'" using I by (simp add: ra_inv_def Let_def r'_def flip: n_def)
  moreover have "ra_items r' = tl (ra_items r) @ [ra_emplace r x]"
  proof (rule nth_equalityI)
    fix i assume "i < length (ra_items r')"
    then have i: "i < n" by (simp add: r'_def I)
    have sh: "((h + 1) mod n + i) mod n = (h + Suc i) mod n" by (simp add: mod_simps)
    have ne: "(h + Suc i) mod n \<noteq> h" if "Suc i < n"
      using ring_index_inj [OF I(4), of "Suc i" 0] that I(1,4) by auto
    have last: "(h + Suc i) mod n = h" if "\<not> Suc i < n"
    proof -
      have "Suc i = n" using that i by simp
      then show ?thesis using I(4) by simp
    qed
    show "ra_items r' ! i = (tl (ra_items r) @ [ra_emplace r x]) ! i"
      using i I s sh ne last
      by (cases "Suc i < n") (auto simp: ra_items_nth r'_def nth_append nth_tl nth_list_update simp flip: n_def h_def)
  qed (use I in \<open>simp add: r'_def\<close>)
  ultimately show ?thesis by (intro exI [of _ r']) (simp add: r'_def)
qed

lemma ra_pop_items:
  assumes inv: "ra_inv r" and it: "ra_items r = y # ys"
  shows "\<exists>r'. ra_pop r = Some (y, r') \<and> ra_inv r' \<and> ra_capacity r' = ra_capacity r \<and> ra_emplace r' = ra_emplace r \<and>
    ra_items r' = ys"
proof -
  define n h k where "n = unat (ra_capacity r)" and "h = unat (ra_head r)" and "k = unat (ra_count r)"
  have I: "0 < n" "n < 2147483648" "length (ra_data r) = n" "h < n" "k \<le> n" "unat (ra_tail r) = (h + k) mod n"
    using inv by (simp_all add: ra_inv_def Let_def n_def h_def k_def)
  have k: "k = Suc (length ys)" using arg_cong [OF it, of length] by (simp add: k_def)
  then have k1: "unat (ra_count r - 1) = k - 1" and c0: "ra_count r \<noteq> 0"
    using unat_sub_no_wrap [of 1 "ra_count r"] by (auto simp: k_def)
  define r' where "r' = r\<lparr>ra_head := (ra_head r + 1) mod ra_capacity r, ra_count := ra_count r - 1\<rparr>"
  have s: "unat ((ra_head r + 1) mod ra_capacity r) = (h + 1) mod n"
    using I unat_step1 [of "ra_head r" "ra_capacity r"] by (simp add: n_def h_def)
  have nth: "(y # ys) ! i = ra_data r ! ((h + i) mod n)" if "i < k" for i
    using that ra_items_nth [of i r] by (simp add: it k_def n_def h_def)
  have "ra_pop r = Some (y, r')"
    using c0 nth [of 0] k I(4) by (simp add: ra_pop_def r'_def h_def)
  moreover have "ra_inv r'"
    using I k k1 s by (simp add: ra_inv_def Let_def r'_def mod_simps flip: n_def)
  moreover have "ra_items r' = ys"
  proof (rule nth_equalityI)
    fix i assume "i < length (ra_items r')"
    then have i: "Suc i < k" using k k1 by (simp add: r'_def)
    have "((h + 1) mod n + i) mod n = (h + Suc i) mod n" by (simp add: mod_simps)
    then show "ra_items r' ! i = ys ! i"
      using i nth [OF i] k1 s by (simp add: ra_items_nth r'_def flip: n_def)
  qed (use k k1 in \<open>simp add: r'_def\<close>)
  ultimately show ?thesis by (intro exI [of _ r']) (simp add: r'_def)
qed

interpretation raq: overwriting_queue ra_inv "\<lambda>r. unat (ra_capacity r)" ra_items ra_emplace ra_push ra_pop
proof
  show "0 < unat (ra_capacity q) \<and> length (ra_items q) \<le> unat (ra_capacity q)" if "ra_inv q" for q :: "('a, 'b) RingArray"
    using that by (simp add: ra_inv_def Let_def)
  show "\<exists>q'. ra_push q x = Some q' \<and> ra_inv q' \<and> unat (ra_capacity q') = unat (ra_capacity q) \<and> ra_emplace q' = ra_emplace q \<and>
      ra_items q' = (if length (ra_items q) = unat (ra_capacity q) then tl (ra_items q) else ra_items q) @ [ra_emplace q x]"
    if "ra_inv q" for q :: "('a, 'b) RingArray" and x
    using push_full [OF that, of x] push_not_full [OF that, of x] by (auto simp: word_unat_eq_iff)
  show "ra_pop q = None" if "ra_inv q" "ra_items q = []" for q :: "('a, 'b) RingArray"
    using that(2) length_ra_items [of q] by (simp add: ra_pop_def unat_eq_0 del: length_ra_items)
  show "\<exists>q'. ra_pop q = Some (y, q') \<and> ra_inv q' \<and> unat (ra_capacity q') = unat (ra_capacity q) \<and> ra_emplace q' = ra_emplace q \<and>
      ra_items q' = ys" if "ra_inv q" "ra_items q = y # ys" for q :: "('a, 'b) RingArray" and y ys
    using ra_pop_items [OF that] by auto
qed

lemma create_inv:
  assumes "0 < unat n" and "unat n < 2147483648"
  shows "\<exists>r. rtk_diag_ring_array_create True junk n sz emp = Some r \<and> ra_inv r \<and> ra_items r = [] \<and>
    ra_capacity r = n \<and> ra_emplace r = emp"
  using assms by (simp add: rtk_diag_ring_array_create_def ra_inv_def ra_items_def)

section \<open>Properties\<close>

text \<open>
  C21. The ring array keeps the newest elements: after any sequence of elements was handed to a new array,
  the accessor gives exactly the last ones, as many as there are slots, oldest first, and taking them out
  one by one gives them in that order and leaves the array empty.
\<close>

theorem ring_array_keeps_newest:
  assumes "0 < unat n" and "unat n < 2147483648"
  shows "\<exists>r r' r''. rtk_diag_ring_array_create True junk n sz emp = Some r \<and> push_all ra_push r xs = Some r' \<and>
    (let ys = last_n (unat n) (map emp xs) in
     (\<forall>i. rtk_diag_ring_array_at (Some r') i = (if unat i < length ys then Some (ys ! unat i) else None)) \<and>
     pop_n ra_pop (unat (rtk_diag_ring_array_size (Some r'))) r' = (ys, r'') \<and> ra_items r'' = [])"
proof -
  obtain r where r: "rtk_diag_ring_array_create True junk n sz emp = Some r" "ra_inv r" "ra_items r = []"
    "ra_capacity r = n" "ra_emplace r = emp"
    using create_inv [OF assms, of junk sz emp] by (elim exE conjE)
  obtain r' where r': "push_all ra_push r xs = Some r'" "ra_inv r'" "ra_items r' = last_n (unat n) (map emp xs)"
    using raq.push_all_items [OF r(2), of xs, unfolded r(3-5) append_Nil] by (elim exE conjE)
  define ys where "ys = last_n (unat n) (map emp xs)"
  have len: "unat (ra_count r') = length ys" using length_ra_items [of r'] r'(3) by (simp add: ys_def)
  obtain r'' where pop: "pop_n ra_pop (length (ra_items r')) r' = (ra_items r', r'')" "ra_items r'' = []"
    using raq.pop_all [OF r'(2)] by blast
  have "rtk_diag_ring_array_at (Some r') i = (if unat i < length ys then Some (ys ! unat i) else None)" for i
    using ra_get_items [OF r'(2), of i] len r'(3) by (simp add: rtk_diag_ring_array_at_def ys_def)
  moreover have "pop_n ra_pop (unat (rtk_diag_ring_array_size (Some r'))) r' = (ys, r'')"
    using pop(1) len r'(3) by (simp add: rtk_diag_ring_array_size_def ys_def)
  ultimately show ?thesis
    using r(1) r'(1) pop(2) unfolding ys_def [symmetric] Let_def by blast
qed

theorem ring_array_keeps_newest_witness:
  "\<exists>r r' r''. rtk_diag_ring_array_create True 0 3 4 id = Some r \<and> push_all ra_push r [1, 2, 3, 4, 5 :: nat] = Some r' \<and>
    rtk_diag_ring_array_at (Some r') 0 = Some 3 \<and> pop_n ra_pop (unat (rtk_diag_ring_array_size (Some r'))) r' = ([3, 4, 5], r'')"
proof -
  let ?xs = "[1, 2, 3, 4, 5 :: nat]"
  have l: "last_n (unat (3 :: u32)) (map id ?xs) = [3, 4, 5]" by (simp add: last_n_def)
  obtain r r' r'' where 1: "rtk_diag_ring_array_create True 0 3 4 id = Some r" "push_all ra_push r ?xs = Some r'"
    and 2: "\<forall>i. rtk_diag_ring_array_at (Some r') i = (if unat i < length [3, 4, 5 :: nat] then Some ([3, 4, 5] ! unat i) else None)"
    and 3: "pop_n ra_pop (unat (rtk_diag_ring_array_size (Some r'))) r' = ([3, 4, 5], r'')"
    using ring_array_keeps_newest [of 3 0 4 id ?xs, unfolded Let_def l] by auto
  show ?thesis using 1 2 [rule_format, of 0] 3 by (intro exI conjI) simp_all
qed

end
