(* ===== verification/Diag_Heap.thy ===== *)
theory Diag_Heap
  imports Prelude "HOL-Library.Monad_Syntax"
begin

text \<open>
  The event heap of the diagnostics, \<open>src/component/soc/common/diagnose/ameba_diagnose_heap.c\<close>: blocks are
  taken from a pool in a circle and given back oldest first; when there is no room the oldest blocks are
  given up, and their owner is told before. The pool is used in one piece (head and tail are the same) or
  in two (the tail at the start of the pool, the head behind it, a hole at the end).

  Offsets into the pool are 32-bit numbers. The state of the owner is a parameter, with the two callbacks
  \<open>getter\<close> (the length of the block at an offset) and \<open>notice\<close> (the block at an offset is about to be given
  up; None is a fault). With \<open>dbg\<close> the assertions of \<open>DIAG_DEBUG_TEST\<close> are in the code and None is a failed
  one. A loop that does not end is None too.
\<close>

section \<open>Operations\<close>

record DiagHeap =
  magic :: u32
  hdr_ver :: u8
  build_time :: u32
  hp_capacity :: u32
  head_begin :: u32
  head_end :: u32
  tail_begin :: u32
  tail_end :: u32
  used_size :: u32

type_synonym 'q getter = "'q \<Rightarrow> u32 \<Rightarrow> u32"

type_synonym 'q notice = "u32 \<Rightarrow> 'q \<Rightarrow> 'q option"

definition RTK_DIAG_HEAP_SIZE_MIN :: u32 where "RTK_DIAG_HEAP_SIZE_MIN = 12 + 128"

text \<open>\<open>ok\<close> is whether the allocation of the handler and the pool succeeded.\<close>

definition rtk_diag_heap_create :: "bool \<Rightarrow> u32 \<Rightarrow> DiagHeap option" where
  "rtk_diag_heap_create ok capacity =
     (if capacity < RTK_DIAG_HEAP_SIZE_MIN then None
      else if \<not> ok then None
      else Some \<lparr>magic = 0x12345678, hdr_ver = 1, build_time = 0x20250102, hp_capacity = capacity,
                 head_begin = 0, head_end = 0, tail_begin = 0, tail_end = 0, used_size = 0\<rparr>)"

text \<open>The result is the return code and whether the block is freed.\<close>

definition rtk_diag_heap_destroy :: "DiagHeap option \<Rightarrow> int \<times> bool" where
  "rtk_diag_heap_destroy handler = (0, handler \<noteq> None)"

definition dbg_assert :: "bool \<Rightarrow> bool \<Rightarrow> unit option" where
  "dbg_assert dbg b = (if dbg \<and> \<not> b then None else Some ())"

text \<open>Give up the block at the head.\<close>

definition drop_head :: "'q getter \<Rightarrow> 'q notice \<Rightarrow> DiagHeap \<Rightarrow> 'q \<Rightarrow> (u32 \<times> DiagHeap \<times> 'q) option" where
  "drop_head getter notice h q = do {
     q1 \<leftarrow> notice (head_begin h) q;
     let len = getter q1 (head_begin h);
     Some (len, h\<lparr>head_begin := head_begin h + len, used_size := used_size h - len\<rparr>, q1)
   }"

partial_function (option) normal_loop ::
  "bool \<Rightarrow> 'q getter \<Rightarrow> 'q notice \<Rightarrow> u32 \<Rightarrow> u32 \<Rightarrow> DiagHeap \<Rightarrow> 'q \<Rightarrow> (DiagHeap \<times> 'q) option" where
  "normal_loop dbg getter notice len free_space h q =
     (if free_space < len then
        if head_begin h < head_end h then do {
          (l, h1, q1) \<leftarrow> drop_head getter notice h q;
          normal_loop dbg getter notice len (free_space + l) h1 q1
        }
        else do {
          _ \<leftarrow> dbg_assert dbg (used_size h = 0);
          Some (h\<lparr>head_begin := 0, head_end := len\<rparr>, q)
        }
      else Some (h, q))"

definition rtk_diag_heap_malloc_normal ::
  "bool \<Rightarrow> 'q getter \<Rightarrow> 'q notice \<Rightarrow> DiagHeap \<Rightarrow> u32 \<Rightarrow> 'q \<Rightarrow> (u32 \<times> DiagHeap \<times> 'q) option" where
  "rtk_diag_heap_malloc_normal dbg getter notice h len q = do {
     _ \<leftarrow> dbg_assert dbg (head_end h = tail_end h);
     _ \<leftarrow> dbg_assert dbg (used_size h = head_end h - head_begin h);
     if hp_capacity h - tail_end h \<ge> len then
       let res = tail_end h;
           h1 = h\<lparr>tail_end := tail_end h + len, used_size := used_size h + len\<rparr>
       in Some (res, if head_begin h1 = tail_begin h1 then h1\<lparr>head_end := tail_end h1\<rparr> else h1, q)
     else do {
       (h1, q1) \<leftarrow> normal_loop dbg getter notice len (head_begin h) h q;
       let h2 = h1\<lparr>tail_begin := 0, tail_end := len, used_size := used_size h1 + len\<rparr>;
       if head_begin h2 \<ge> head_end h2 then do {
         _ \<leftarrow> dbg_assert dbg (head_begin h2 = head_end h2);
         Some (0, h2\<lparr>head_begin := 0, head_end := tail_end h2\<rparr>, q1)
       }
       else Some (0, h2, q1)
     }
   }"

text \<open>The loop for the pool in two pieces; the result says whether the loop was left to use the tail
  (True) or to start over as for one piece (False).\<close>

partial_function (option) wrapped_loop ::
  "'q getter \<Rightarrow> 'q notice \<Rightarrow> u32 \<Rightarrow> u32 \<Rightarrow> DiagHeap \<Rightarrow> 'q \<Rightarrow> (bool \<times> DiagHeap \<times> 'q) option" where
  "wrapped_loop getter notice len free_space h q =
     (if free_space < len then
        if head_begin h < head_end h then do {
          (l, h1, q1) \<leftarrow> drop_head getter notice h q;
          wrapped_loop getter notice len (free_space + l) h1 q1
        }
        else
          let fs = free_space + (hp_capacity h - head_end h);
              h1 = h\<lparr>head_begin := 0, head_end := tail_end h\<rparr>
          in Some (fs \<ge> len, h1, q)
      else Some (True, h, q))"

text \<open>The new block goes behind the tail; the head may be used up.\<close>

definition take_behind_tail :: "bool \<Rightarrow> DiagHeap \<Rightarrow> u32 \<Rightarrow> 'q \<Rightarrow> (u32 option \<times> DiagHeap \<times> 'q) option" where
  "take_behind_tail dbg h1 len q1 =
     (let res = tail_end h1;
          h2 = h1\<lparr>tail_end := tail_end h1 + len, used_size := used_size h1 + len\<rparr>
      in if head_begin h2 = 0 then Some (Some res, h2\<lparr>head_end := tail_end h2\<rparr>, q1)
         else if head_begin h2 \<ge> head_end h2 then do {
           _ \<leftarrow> dbg_assert dbg (head_begin h2 = head_end h2);
           Some (Some res, h2\<lparr>head_begin := 0, head_end := tail_end h2\<rparr>, q1)
         }
         else Some (Some res, h2, q1))"

definition rtk_diag_heap_malloc ::
  "bool \<Rightarrow> 'q getter \<Rightarrow> 'q notice \<Rightarrow> DiagHeap \<Rightarrow> u32 \<Rightarrow> 'q \<Rightarrow> (u32 option \<times> DiagHeap \<times> 'q) option" where
  "rtk_diag_heap_malloc dbg getter notice h len q =
     (if len > hp_capacity h then Some (None, h, q)
      else if head_begin h = tail_begin h then
        map_option (\<lambda>(res, h', q'). (Some res, h', q')) (rtk_diag_heap_malloc_normal dbg getter notice h len q)
      else do {
        _ \<leftarrow> dbg_assert dbg (tail_begin h = 0);
        _ \<leftarrow> dbg_assert dbg (tail_end h > tail_begin h);
        _ \<leftarrow> dbg_assert dbg (head_begin h \<ge> tail_end h);
        _ \<leftarrow> dbg_assert dbg (head_end h > head_begin h);
        _ \<leftarrow> dbg_assert dbg (hp_capacity h \<ge> head_end h);
        _ \<leftarrow> dbg_assert dbg (used_size h = (tail_end h - tail_begin h) + (head_end h - head_begin h));
        if head_begin h - tail_end h \<ge> len then
          Some (Some (tail_end h), h\<lparr>tail_end := tail_end h + len, used_size := used_size h + len\<rparr>, q)
        else do {
          (use_tail, h1, q1) \<leftarrow> wrapped_loop getter notice len (head_begin h - tail_end h) h q;
          if \<not> use_tail then
            map_option (\<lambda>(res, h', q'). (Some res, h', q')) (rtk_diag_heap_malloc_normal dbg getter notice h1 len q1)
          else take_behind_tail dbg h1 len q1
        }
      })"

definition rtk_diag_heap_free :: "bool \<Rightarrow> 'q getter \<Rightarrow> DiagHeap \<Rightarrow> 'q \<Rightarrow> (u32 \<times> DiagHeap) option" where
  "rtk_diag_heap_free dbg getter h q =
     (if used_size h > 0 then
        let overlap = (head_begin h = tail_begin h);
            len = getter q (head_begin h);
            h1 = h\<lparr>used_size := used_size h - len, head_begin := head_begin h + len\<rparr>
        in if head_begin h1 \<ge> head_end h1 then do {
             _ \<leftarrow> dbg_assert dbg (head_begin h1 = head_end h1);
             let h2 = (if overlap then h1\<lparr>tail_begin := 0, tail_end := 0\<rparr> else h1);
             Some (len, h2\<lparr>head_begin := tail_begin h2, head_end := tail_end h2\<rparr>)
           }
           else Some (len, if overlap then h1\<lparr>tail_begin := head_begin h1\<rparr> else h1)
      else Some (0, h))"

definition rtk_diag_heap_get_capacity :: "DiagHeap \<Rightarrow> u32" where
  "rtk_diag_heap_get_capacity h = hp_capacity h"

section \<open>The blocks\<close>

text \<open>A block is its offset and its length; a chain of blocks fills the pool from one offset to another.\<close>

type_synonym block = "nat \<times> nat"

fun chain :: "nat \<Rightarrow> block list \<Rightarrow> nat \<Rightarrow> bool" where
  "chain a [] b \<longleftrightarrow> a = b"
| "chain a ((p, l) # bs) b \<longleftrightarrow> p = a \<and> 0 < l \<and> chain (a + l) bs b"

text \<open>\<open>hs\<close> are the blocks of the head, \<open>ts\<close> those of the tail when the pool is in two pieces.\<close>

definition heap_inv :: "DiagHeap \<Rightarrow> block list \<Rightarrow> block list \<Rightarrow> bool" where
  "heap_inv h hs ts \<longleftrightarrow>
     unat (hp_capacity h) < 2147483648 \<and> chain (unat (head_begin h)) hs (unat (head_end h)) \<and>
     unat (head_end h) \<le> unat (hp_capacity h) \<and>
     (if ts = [] then
        tail_begin h = head_begin h \<and> tail_end h = head_end h \<and> used_size h = head_end h - head_begin h \<and>
        (hs = [] \<longrightarrow> head_begin h = 0)
      else
        hs \<noteq> [] \<and> tail_begin h = 0 \<and> chain 0 ts (unat (tail_end h)) \<and> tail_end h \<le> head_begin h \<and>
        used_size h = tail_end h + (head_end h - head_begin h))"

lemma chain_le: "chain a bs b \<Longrightarrow> a \<le> b"
  by (induction a bs b rule: chain.induct) (auto dest: add_leD1)

lemma chain_append: "chain a (xs @ ys) c \<longleftrightarrow> (\<exists>b. chain a xs b \<and> chain b ys c)"
  by (induction xs arbitrary: a) auto

lemma chain_empty: "chain a bs a \<longleftrightarrow> bs = []"
proof (cases bs)
  case (Cons x xs)
  then show ?thesis by (cases x) (auto dest: chain_le)
qed simp

lemma chain_snoc: "chain a bs b \<Longrightarrow> 0 < l \<Longrightarrow> chain a (bs @ [(b, l)]) (b + l)"
  by (auto simp: chain_append)

text \<open>
  The outcome of an allocation, for the blocks \<open>bs\<close> there were: some of the oldest are given up, the new one
  is added, the heap is well formed, and the owner (\<open>R\<close>) is left with what was not given up.
\<close>

definition allocated ::
  "('q \<Rightarrow> block list \<Rightarrow> bool) \<Rightarrow> u32 \<Rightarrow> block list \<Rightarrow> u32 \<Rightarrow> (u32 option \<times> DiagHeap \<times> 'q) option \<Rightarrow> bool" where
  "allocated R cap bs len r \<longleftrightarrow>
     (\<exists>res h q k hs ts. r = Some (Some res, h, q) \<and> heap_inv h hs ts \<and> hp_capacity h = cap \<and>
        hs @ ts = drop k bs @ [(unat res, unat len)] \<and> R q (drop k bs))"

lemma allocatedI:
  assumes "r = Some (Some res, h, q)" and "heap_inv h hs ts" and "hp_capacity h = cap"
    and "hs @ ts = drop k bs @ [(unat res, unat len)]" and "R q (drop k bs)"
  shows "allocated R cap bs len r"
  using assms unfolding allocated_def by blast

lemma allocated_drop: "allocated R cap (drop j bs) len r \<Longrightarrow> allocated R cap bs len r"
  unfolding allocated_def by (metis drop_drop)

section \<open>The interface to the owner of the blocks\<close>

text \<open>
  \<open>R q bs\<close> says that the state \<open>q\<close> of the owner goes with the blocks \<open>bs\<close>, oldest first: the owner knows the
  length of the oldest block, and when it is told that this block is given up it is left with the others.
\<close>

locale heap_owner =
  fixes getter :: "'q getter" and notice :: "'q notice" and R :: "'q \<Rightarrow> block list \<Rightarrow> bool"
  assumes length_of: "R q ((p, l) # bs) \<Longrightarrow> getter q (of_nat p) = of_nat l"
    and give_up: "R q ((p, l) # bs) \<Longrightarrow>
      \<exists>q'. notice (of_nat p) q = Some q' \<and> R q' bs \<and> getter q' (of_nat p) = of_nat l"

text \<open>The heap while blocks of the head are given up: the head begins at \<open>b\<close> and \<open>u\<close> bytes are in use.\<close>

definition head_at :: "DiagHeap \<Rightarrow> u32 \<Rightarrow> u32 \<Rightarrow> DiagHeap" where
  "head_at h b u = h\<lparr>head_begin := b, used_size := u\<rparr>"

lemma head_at_sel [simp]:
  "head_begin (head_at h b u) = b" "used_size (head_at h b u) = u" "head_end (head_at h b u) = head_end h"
  "tail_begin (head_at h b u) = tail_begin h" "tail_end (head_at h b u) = tail_end h"
  "hp_capacity (head_at h b u) = hp_capacity h" "head_at (head_at h b u) c v = head_at h c v"
  by (simp_all add: head_at_def)

context heap_owner
begin

lemma drop_head_ok:
  assumes "R q ((p, l) # bs)" and "head_begin h = of_nat p"
  shows "\<exists>q'. drop_head getter notice h q =
      Some (of_nat l, head_at h (head_begin h + of_nat l) (used_size h - of_nat l), q') \<and> R q' bs"
  using give_up [OF assms(1)] assms(2) by (auto simp: drop_head_def head_at_def Let_def)

lemma normal_loop_ok:
  assumes "chain (unat b) hs (unat (head_end h))" and "unat (head_end h) < 2147483648" and "R q hs"
  shows "\<exists>k b' h' q'. normal_loop dbg getter notice len b (head_at h b (head_end h - b)) q = Some (h', q') \<and>
    R q' (drop k hs) \<and>
    (len \<le> b' \<and> chain (unat b') (drop k hs) (unat (head_end h)) \<and> h' = head_at h b' (head_end h - b') \<or>
     drop k hs = [] \<and> h' = (head_at h 0 0)\<lparr>head_end := len\<rparr>)"
  using assms
proof (induction hs arbitrary: b q)
  case Nil
  then have b: "b = head_end h" by (simp add: word_unat_eq_iff)
  show ?case
  proof (cases "b < len")
    case True
    then show ?thesis using Nil b
      by (subst normal_loop.simps) (auto simp: dbg_assert_def head_at_def)
  next
    case False
    then show ?thesis using Nil b
      by (subst normal_loop.simps) (auto intro!: exI [of _ "head_end h"])
  qed
next
  case (Cons x hs)
  obtain p l where x: "x = (p, l)" by fastforce
  have c: "p = unat b" "0 < l" "chain (unat b + l) hs (unat (head_end h))" using Cons.prems(1) x by auto
  have le: "unat b + l \<le> unat (head_end h)" using chain_le [OF c(3)] .
  show ?case
  proof (cases "b < len")
    case False
    then show ?thesis using Cons.prems
      by (subst normal_loop.simps) (auto intro!: exI [of _ 0] exI [of _ b])
  next
    case True
    have b1: "unat (b + of_nat l) = unat b + l" using le Cons.prems(2) by (intro unat_add_of_nat_no_wrap) simp
    have "R q ((p, l) # hs)" using Cons.prems(3) x by simp
    from drop_head_ok [OF this, of "head_at h b (head_end h - b)"]
    obtain q1 where q1: "drop_head getter notice (head_at h b (head_end h - b)) q =
        Some (of_nat l, head_at h (b + of_nat l) (head_end h - b - of_nat l), q1)" "R q1 hs"
      using c(1) by auto
    have u: "head_end h - b - of_nat l = head_end h - (b + of_nat l)" by simp
    have lt: "b < head_end h" using le c(2) by (simp add: word_less_nat_alt)
    have rec: "normal_loop dbg getter notice len b (head_at h b (head_end h - b)) q =
        normal_loop dbg getter notice len (b + of_nat l) (head_at h (b + of_nat l) (head_end h - (b + of_nat l))) q1"
      using True lt q1(1) unfolding u by (subst normal_loop.simps) simp
    have "chain (unat (b + of_nat l)) hs (unat (head_end h))" using c(3) b1 by simp
    from Cons.IH [OF this Cons.prems(2) q1(2)]
    obtain k b' h' q' where ih: "normal_loop dbg getter notice len (b + of_nat l)
          (head_at h (b + of_nat l) (head_end h - (b + of_nat l))) q1 = Some (h', q')" "R q' (drop k hs)"
      "len \<le> b' \<and> chain (unat b') (drop k hs) (unat (head_end h)) \<and> h' = head_at h b' (head_end h - b') \<or>
       drop k hs = [] \<and> h' = (head_at h 0 0)\<lparr>head_end := len\<rparr>" by blast
    show ?thesis
      unfolding rec ih(1) using ih(2,3) by (intro exI [of _ "Suc k"] exI [of _ b'] exI [of _ h'] exI [of _ q']) simp
  qed
qed

lemma malloc_normal_ok:
  assumes inv: "heap_inv h hs []" and R: "R q hs" and len: "0 < len" "len \<le> hp_capacity h"
  shows "allocated R (hp_capacity h) hs len
    (map_option (\<lambda>(res, h', q'). (Some res, h', q')) (rtk_diag_heap_malloc_normal dbg getter notice h len q))"
proof -
  have I: "unat (hp_capacity h) < 2147483648" "chain (unat (head_begin h)) hs (unat (head_end h))"
    "unat (head_end h) \<le> unat (hp_capacity h)" "tail_begin h = head_begin h" "tail_end h = head_end h"
    "used_size h = head_end h - head_begin h" "hs = [] \<longrightarrow> head_begin h = 0"
    using inv by (simp_all add: heap_inv_def)
  have l0: "0 < unat len" using len(1) by (simp add: word_less_nat_alt)
  show ?thesis
  proof (cases "hp_capacity h - tail_end h \<ge> len")
    case True
    let ?h = "h\<lparr>tail_end := tail_end h + len, used_size := used_size h + len, head_end := tail_end h + len\<rparr>"
    have e: "unat (head_end h + len) = unat (head_end h) + unat len" "unat (head_end h) + unat len \<le> unat (hp_capacity h)"
      using True I(1,3,5) by (simp_all add: word_le_nat_alt unat_sub_no_wrap unat_add_no_wrap)
    have "rtk_diag_heap_malloc_normal dbg getter notice h len q = Some (tail_end h, ?h, q)"
      using True I(4-6) by (simp add: rtk_diag_heap_malloc_normal_def dbg_assert_def Let_def)
    moreover have "heap_inv ?h (hs @ [(unat (tail_end h), unat len)]) []"
      using I e chain_snoc [OF I(2) l0] by (simp add: heap_inv_def algebra_simps)
    ultimately show ?thesis
      using R by (intro allocatedI [where k = 0 and res = "tail_end h" and h = ?h and q = q and ts = "[]"]) simp_all
  next
    case False
    have h: "head_at h (head_begin h) (head_end h - head_begin h) = h" using I(6) by (simp add: head_at_def)
    obtain k b' h1 q' where lp: "normal_loop dbg getter notice len (head_begin h) h q = Some (h1, q')" "R q' (drop k hs)"
      and alt: "len \<le> b' \<and> chain (unat b') (drop k hs) (unat (head_end h)) \<and> h1 = head_at h b' (head_end h - b') \<or>
        drop k hs = [] \<and> h1 = (head_at h 0 0)\<lparr>head_end := len\<rparr>"
      using normal_loop_ok [OF I(2) _ R, of dbg len] I(1,3) unfolding h by auto
    show ?thesis
    proof (cases "drop k hs = []")
      case True
      let ?h = "h\<lparr>head_begin := 0, head_end := len, tail_begin := 0, tail_end := len, used_size := len\<rparr>"
      have "rtk_diag_heap_malloc_normal dbg getter notice h len q = Some (0, ?h, q')"
        using alt True False lp(1) I(4-6) len(1)
        by (auto simp: rtk_diag_heap_malloc_normal_def dbg_assert_def head_at_def Let_def word_unat_eq_iff [symmetric])
      moreover have "heap_inv ?h [(0, unat len)] []"
        using I(1) len l0 by (simp add: heap_inv_def word_le_nat_alt)
      ultimately show ?thesis
        using lp(2) True by (intro allocatedI [where k = k and res = 0 and h = ?h and q = q' and hs = "[(0, unat len)]" and ts = "[]"]) simp_all
    next
      case ne: False
      let ?h = "h\<lparr>head_begin := b', tail_begin := 0, tail_end := len, used_size := head_end h - b' + len\<rparr>"
      have c: "len \<le> b'" "chain (unat b') (drop k hs) (unat (head_end h))" "h1 = head_at h b' (head_end h - b')"
        using alt ne by auto
      have "b' \<noteq> head_end h" "b' \<le> head_end h" using c(2) ne chain_le [OF c(2)] by (auto simp: chain_empty word_le_nat_alt)
      then have "rtk_diag_heap_malloc_normal dbg getter notice h len q = Some (0, ?h, q')"
        using False lp(1) I(4-6) c(3)
        by (auto simp: rtk_diag_heap_malloc_normal_def dbg_assert_def head_at_def Let_def)
      moreover have "heap_inv ?h (drop k hs) [(0, unat len)]"
        using I(1,3) c ne l0 by (simp add: heap_inv_def add.commute)
      ultimately show ?thesis
        using lp(2) by (intro allocatedI [where k = k and res = 0 and h = ?h and q = q' and hs = "drop k hs"]) simp_all
    qed
  qed
qed

lemma wrapped_loop_ok:
  assumes "chain (unat b) hs (unat (head_end h))" and "unat (head_end h) \<le> unat (hp_capacity h)"
    and "unat (hp_capacity h) < 2147483648" and "tail_end h \<le> b" and "R q (hs @ ts)"
  shows "\<exists>k b' ut h' q'. wrapped_loop getter notice len (b - tail_end h)
      (head_at h b (tail_end h + (head_end h - b))) q = Some (ut, h', q') \<and> R q' (drop k hs @ ts) \<and>
    (ut \<and> tail_end h \<le> b' \<and> len \<le> b' - tail_end h \<and> chain (unat b') (drop k hs) (unat (head_end h)) \<and>
        h' = head_at h b' (tail_end h + (head_end h - b')) \<or>
     drop k hs = [] \<and> h' = (head_at h 0 (tail_end h))\<lparr>head_end := tail_end h\<rparr> \<and> ut = (len \<le> hp_capacity h - tail_end h))"
  using assms
proof (induction hs arbitrary: b q)
  case Nil
  then have b: "b = head_end h" by (simp add: word_unat_eq_iff)
  show ?case
  proof (cases "b - tail_end h < len")
    case True
    have fs: "head_end h - tail_end h + (hp_capacity h - head_end h) = hp_capacity h - tail_end h" by simp
    have "wrapped_loop getter notice len (b - tail_end h) (head_at h b (tail_end h + (head_end h - b))) q =
        Some (len \<le> hp_capacity h - tail_end h, (head_at h 0 (tail_end h))\<lparr>head_end := tail_end h\<rparr>, q)"
      using True b fs by (subst wrapped_loop.simps) (simp add: head_at_def Let_def)
    then show ?thesis using Nil.prems(5) by (intro exI [of _ "0 :: nat"] exI [of _ b]) simp
  next
    case False
    then have "wrapped_loop getter notice len (b - tail_end h) (head_at h b (tail_end h + (head_end h - b))) q =
        Some (True, head_at h b (tail_end h + (head_end h - b)), q)"
      by (subst wrapped_loop.simps) simp
    then show ?thesis using Nil False b by (intro exI [of _ "0 :: nat"] exI [of _ b] exI [of _ True]) auto
  qed
next
  case (Cons x hs)
  obtain p l where x: "x = (p, l)" by fastforce
  have c: "p = unat b" "0 < l" "chain (unat b + l) hs (unat (head_end h))" using Cons.prems(1) x by auto
  have le: "unat b + l \<le> unat (head_end h)" using chain_le [OF c(3)] .
  let ?h = "\<lambda>b. head_at h b (tail_end h + (head_end h - b))"
  show ?case
  proof (cases "b - tail_end h < len")
    case False
    then have "wrapped_loop getter notice len (b - tail_end h) (?h b) q = Some (True, ?h b, q)"
      by (subst wrapped_loop.simps) simp
    then show ?thesis using Cons.prems False by (intro exI [of _ "0 :: nat"] exI [of _ b] exI [of _ True]) auto
  next
    case True
    let ?b = "b + of_nat l"
    have b1: "unat ?b = unat b + l" using le Cons.prems(2,3) by (intro unat_add_of_nat_no_wrap) simp
    obtain q1 where q1: "drop_head getter notice (?h b) q = Some (of_nat l, ?h ?b, q1)" "R q1 (hs @ ts)"
      using drop_head_ok [of q p l "hs @ ts" "?h b"] Cons.prems(5) x c(1) by (auto simp: algebra_simps)
    have lt: "b < head_end h" using le c(2) by (simp add: word_less_nat_alt)
    have fs: "b - tail_end h + of_nat l = ?b - tail_end h" by simp
    have rec: "wrapped_loop getter notice len (b - tail_end h) (?h b) q = wrapped_loop getter notice len (?b - tail_end h) (?h ?b) q1"
      using True lt q1(1) unfolding fs [symmetric] by (subst wrapped_loop.simps) simp
    have ch: "chain (unat ?b) hs (unat (head_end h))" and te: "tail_end h \<le> ?b"
      using c(3) b1 Cons.prems(4) by (simp_all add: word_le_nat_alt)
    obtain k b' ut h' q' where ih: "wrapped_loop getter notice len (?b - tail_end h) (?h ?b) q1 = Some (ut, h', q')"
      "R q' (drop k hs @ ts)"
      "ut \<and> tail_end h \<le> b' \<and> len \<le> b' - tail_end h \<and> chain (unat b') (drop k hs) (unat (head_end h)) \<and> h' = ?h b' \<or>
       drop k hs = [] \<and> h' = (head_at h 0 (tail_end h))\<lparr>head_end := tail_end h\<rparr> \<and> ut = (len \<le> hp_capacity h - tail_end h)"
      using Cons.IH [OF ch Cons.prems(2,3) te q1(2)] by blast
    show ?thesis
      unfolding rec ih(1) using ih(2,3)
      by (intro exI [of _ "Suc k"] exI [of _ b'] exI [of _ ut] exI [of _ h'] exI [of _ q']) simp
  qed
qed

text \<open>The blocks once the head is used up and the new block went behind the tail.\<close>

lemma tail_only_inv:
  assumes "unat (hp_capacity h) < 2147483648" and "chain 0 ts (unat (tail_end h))" and "0 < unat len"
    and "unat (tail_end h) + unat len \<le> unat (hp_capacity h)"
  shows "heap_inv (h\<lparr>tail_begin := 0, tail_end := tail_end h + len, used_size := tail_end h + len, head_begin := 0,
    head_end := tail_end h + len\<rparr>) (ts @ [(unat (tail_end h), unat len)]) []"
proof -
  have e: "unat (tail_end h + len) = unat (tail_end h) + unat len" using assms by (intro unat_add_no_wrap) simp
  show ?thesis using assms e chain_snoc [OF assms(2,3)] by (simp add: heap_inv_def)
qed

lemma behind_tail_alone:
  assumes "unat (hp_capacity h) < 2147483648" and "chain 0 ts (unat (tail_end h))" and "0 < unat len"
    and "unat (tail_end h) + unat len \<le> unat (hp_capacity h)"
    and "head_begin h = 0 \<or> head_begin h = head_end h" and "tail_begin h = 0" and "used_size h = tail_end h"
  shows "\<exists>h'. take_behind_tail dbg h len q = Some (Some (tail_end h), h', q) \<and>
    heap_inv h' (ts @ [(unat (tail_end h), unat len)]) [] \<and> hp_capacity h' = hp_capacity h"
proof -
  let ?h = "h\<lparr>tail_begin := 0, tail_end := tail_end h + len, used_size := tail_end h + len, head_begin := 0,
    head_end := tail_end h + len\<rparr>"
  have "take_behind_tail dbg h len q = Some (Some (tail_end h), ?h, q)"
    using assms(5-7) by (cases h) (auto simp: take_behind_tail_def dbg_assert_def Let_def)
  then show ?thesis using tail_only_inv [OF assms(1-4)] by (intro exI [of _ ?h]) simp
qed

lemma behind_tail_two:
  assumes "heap_inv h hs ts" and "ts \<noteq> []" and "0 < unat len" and "len \<le> head_begin h - tail_end h"
  shows "heap_inv (h\<lparr>tail_end := tail_end h + len, used_size := used_size h + len\<rparr>) hs (ts @ [(unat (tail_end h), unat len)])"
proof -
  have I: "unat (hp_capacity h) < 2147483648" "chain (unat (head_begin h)) hs (unat (head_end h))"
    "unat (head_end h) \<le> unat (hp_capacity h)" "hs \<noteq> []" "tail_begin h = 0" "chain 0 ts (unat (tail_end h))"
    "tail_end h \<le> head_begin h" "used_size h = tail_end h + (head_end h - head_begin h)"
    using assms(1,2) by (simp_all add: heap_inv_def)
  have le: "unat (tail_end h) + unat len \<le> unat (head_begin h)"
    using assms(4) I(7) by (simp add: word_le_nat_alt unat_sub_no_wrap)
  then have e: "unat (tail_end h + len) = unat (tail_end h) + unat len" 
    using unat_lt_space [of "head_begin h"] by (intro unat_add_no_wrap) linarith
  show ?thesis
    using I le e chain_snoc [OF I(6) assms(3)] by (simp add: heap_inv_def word_le_nat_alt algebra_simps)
qed

text \<open>What the end of the loop leaves to do, for the blocks \<open>ds\<close> that are still in the head.\<close>

lemma wrapped_finish_two:
  assumes inv: "heap_inv h hs ts" and ts: "ts \<noteq> []" and l0: "0 < unat len" and ne: "ds \<noteq> []"
    and c: "tail_end h \<le> b" "len \<le> b - tail_end h" "chain (unat b) ds (unat (head_end h))"
  shows "\<exists>h'. take_behind_tail dbg (head_at h b (tail_end h + (head_end h - b))) len q = Some (Some (tail_end h), h', q) \<and>
    heap_inv h' ds (ts @ [(unat (tail_end h), unat len)]) \<and> hp_capacity h' = hp_capacity h"
proof -
  let ?h = "head_at h b (tail_end h + (head_end h - b))"
  have I: "heap_inv ?h ds ts" using inv ts ne c by (simp add: heap_inv_def)
  have te: "0 < unat (tail_end h)"
    using inv ts chain_empty [of 0 ts] by (cases "unat (tail_end h)") (auto simp: heap_inv_def)
  have b: "b \<noteq> 0" "\<not> head_end h \<le> b"
    using te c chain_le [OF c(3)] ne chain_empty [of "unat b" ds]
    by (auto simp: word_le_nat_alt word_unat_eq_iff)
  show ?thesis
    using behind_tail_two [OF I ts l0] c(2) b
    by (intro exI [of _ "?h\<lparr>tail_end := tail_end ?h + len, used_size := used_size ?h + len\<rparr>"])
       (simp add: take_behind_tail_def Let_def)
qed

lemma wrapped_finish_ok:
  assumes inv: "heap_inv h hs ts" and ts: "ts \<noteq> []" and R: "R q (ds @ ts)" and len: "0 < len" "len \<le> hp_capacity h"
    and alt: "ut \<and> tail_end h \<le> b \<and> len \<le> b - tail_end h \<and> chain (unat b) ds (unat (head_end h)) \<and>
          h1 = head_at h b (tail_end h + (head_end h - b)) \<or>
        ds = [] \<and> h1 = (head_at h 0 (tail_end h))\<lparr>head_end := tail_end h\<rparr> \<and> ut = (len \<le> hp_capacity h - tail_end h)"
  shows "allocated R (hp_capacity h) (ds @ ts) len
    (if \<not> ut then map_option (\<lambda>(res, h', q'). (Some res, h', q')) (rtk_diag_heap_malloc_normal dbg getter notice h1 len q)
     else take_behind_tail dbg h1 len q)"
proof -
  have I: "unat (hp_capacity h) < 2147483648" "chain (unat (head_begin h)) hs (unat (head_end h))"
    "unat (head_end h) \<le> unat (hp_capacity h)" "tail_begin h = 0" "chain 0 ts (unat (tail_end h))" "tail_end h \<le> head_begin h"
    using inv ts by (simp_all add: heap_inv_def)
  have l0: "0 < unat len" using len(1) by (simp add: word_less_nat_alt)
  have te: "unat (tail_end h) \<le> unat (hp_capacity h)"
    using I(3,6) chain_le [OF I(2)] by (simp add: word_le_nat_alt)
  consider "ds \<noteq> []" | "ds = []" "ut" | "ds = []" "\<not> ut" by blast
  then show ?thesis
  proof cases
    case 1
    then have a: "ut" "tail_end h \<le> b" "len \<le> b - tail_end h" "chain (unat b) ds (unat (head_end h))"
      "h1 = head_at h b (tail_end h + (head_end h - b))" using alt by auto
    obtain h' where "take_behind_tail dbg h1 len q = Some (Some (tail_end h), h', q)"
      "heap_inv h' ds (ts @ [(unat (tail_end h), unat len)])" "hp_capacity h' = hp_capacity h"
      using wrapped_finish_two [OF inv ts l0 1 a(2-4), of dbg q] a(5) by blast
    then show ?thesis
      using a(1) R by (intro allocatedI [where k = 0 and res = "tail_end h" and h = h' and q = q and hs = ds]) simp_all
  next
    case 2
    have h1: "unat (tail_end h1) + unat len \<le> unat (hp_capacity h1)" "head_begin h1 = 0 \<or> head_begin h1 = head_end h1"
      "used_size h1 = tail_end h1" "tail_end h1 = tail_end h" "hp_capacity h1 = hp_capacity h" "tail_begin h1 = 0"
      using alt 2 I te by (auto simp: word_le_nat_alt unat_sub_no_wrap word_unat_eq_iff [symmetric])
    obtain h' where "take_behind_tail dbg h1 len q = Some (Some (tail_end h), h', q)"
      "heap_inv h' (ts @ [(unat (tail_end h), unat len)]) []" "hp_capacity h' = hp_capacity h"
      using behind_tail_alone [OF _ _ l0 h1(1,2,6,3), of ts dbg q] I(1,5) h1(4,5) by auto
    then show ?thesis
      using 2 R by (intro allocatedI [where k = 0 and res = "tail_end h" and h = h' and q = q and ts = "[]"]) simp_all
  next
    case 3
    then have "heap_inv h1 ts []" "hp_capacity h1 = hp_capacity h"
      using alt I te ts by (auto simp: heap_inv_def)
    then show ?thesis using malloc_normal_ok [of h1 ts q len dbg] 3 R len by simp
  qed
qed

lemma malloc_wrapped_ok:
  assumes inv: "heap_inv h hs ts" and ts: "ts \<noteq> []" and R: "R q (hs @ ts)" and len: "0 < len" "len \<le> hp_capacity h"
  shows "allocated R (hp_capacity h) (hs @ ts) len (rtk_diag_heap_malloc dbg getter notice h len q)"
proof -
  have I: "unat (hp_capacity h) < 2147483648" "chain (unat (head_begin h)) hs (unat (head_end h))"
    "unat (head_end h) \<le> unat (hp_capacity h)" "hs \<noteq> []" "tail_begin h = 0" "chain 0 ts (unat (tail_end h))"
    "tail_end h \<le> head_begin h" "used_size h = tail_end h + (head_end h - head_begin h)"
    using inv ts by (simp_all add: heap_inv_def)
  have l0: "0 < unat len" using len(1) by (simp add: word_less_nat_alt)
  have te: "0 < unat (tail_end h)" using I(6) ts chain_empty [of 0 ts] by (cases "unat (tail_end h)") auto
  have hb: "unat (tail_end h) \<le> unat (head_begin h)" "unat (head_begin h) < unat (head_end h)"
    using I(2,4,7) chain_le [OF I(2)] chain_empty [of "unat (head_begin h)" hs] by (auto simp: word_le_nat_alt le_less)
  have asserts: "head_begin h \<noteq> 0" "tail_end h > 0" "head_end h > head_begin h" "hp_capacity h \<ge> head_end h"
    using te hb I(3) by (auto simp: word_less_nat_alt word_le_nat_alt)
  have out: "rtk_diag_heap_malloc dbg getter notice h len q =
      (if len \<le> head_begin h - tail_end h then
         Some (Some (tail_end h), h\<lparr>tail_end := tail_end h + len, used_size := used_size h + len\<rparr>, q)
       else do {
         (use_tail, h1, q1) \<leftarrow> wrapped_loop getter notice len (head_begin h - tail_end h) h q;
         if \<not> use_tail then
           map_option (\<lambda>(res, h', q'). (Some res, h', q')) (rtk_diag_heap_malloc_normal dbg getter notice h1 len q1)
         else take_behind_tail dbg h1 len q1
       })"
    using len(2) I(5,7,8) asserts by (simp add: rtk_diag_heap_malloc_def dbg_assert_def linorder_not_less [symmetric])
  have hd: "head_at h (head_begin h) (tail_end h + (head_end h - head_begin h)) = h" using I(8) by (simp add: head_at_def)
  show ?thesis
  proof (cases "len \<le> head_begin h - tail_end h")
    case True
    then show ?thesis
      using out R behind_tail_two [OF inv ts l0 True]
      by (intro allocatedI [where k = 0 and res = "tail_end h" and q = q and hs = hs
            and h = "h\<lparr>tail_end := tail_end h + len, used_size := used_size h + len\<rparr>"]) simp_all
  next
    case False
    obtain k b' ut h1 q1 where lp: "wrapped_loop getter notice len (head_begin h - tail_end h) h q = Some (ut, h1, q1)"
      "R q1 (drop k hs @ ts)"
      and alt: "ut \<and> tail_end h \<le> b' \<and> len \<le> b' - tail_end h \<and> chain (unat b') (drop k hs) (unat (head_end h)) \<and>
          h1 = head_at h b' (tail_end h + (head_end h - b')) \<or>
        drop k hs = [] \<and> h1 = (head_at h 0 (tail_end h))\<lparr>head_end := tail_end h\<rparr> \<and> ut = (len \<le> hp_capacity h - tail_end h)"
      using wrapped_loop_ok [OF I(2,3,1,7) R, of len] unfolding hd by blast
    have k: "drop (min k (length hs)) (hs @ ts) = drop k hs @ ts" by (simp add: min_def)
    have "rtk_diag_heap_malloc dbg getter notice h len q =
        (if \<not> ut then map_option (\<lambda>(res, h', q'). (Some res, h', q')) (rtk_diag_heap_malloc_normal dbg getter notice h1 len q1)
         else take_behind_tail dbg h1 len q1)"
      using out False lp(1) by simp
    then show ?thesis
      using wrapped_finish_ok [OF inv ts lp(2) len alt, of dbg] unfolding k [symmetric]
      by (intro allocated_drop [of R "hp_capacity h" "min k (length hs)" "hs @ ts"]) simp
  qed
qed

lemma malloc_ok:
  assumes "heap_inv h hs ts" and "R q (hs @ ts)" and "0 < len" and "len \<le> hp_capacity h"
  shows "allocated R (hp_capacity h) (hs @ ts) len (rtk_diag_heap_malloc dbg getter notice h len q)"
proof (cases "ts = []")
  case True
  then have "rtk_diag_heap_malloc dbg getter notice h len q =
      map_option (\<lambda>(res, h', q'). (Some res, h', q')) (rtk_diag_heap_malloc_normal dbg getter notice h len q)"
    using assms(1,4) by (simp add: rtk_diag_heap_malloc_def heap_inv_def linorder_not_less [symmetric])
  then show ?thesis using malloc_normal_ok [of h hs q len dbg] assms True by simp
next
  case False
  then show ?thesis using malloc_wrapped_ok assms by blast
qed

text \<open>Giving back the oldest block.\<close>

lemma free_ok:
  assumes inv: "heap_inv h hs ts" and R: "R q ((p, l) # bs)" and bs: "hs @ ts = (p, l) # bs"
  shows "\<exists>h' hs' ts'. rtk_diag_heap_free dbg getter h q = Some (of_nat l, h') \<and> heap_inv h' hs' ts' \<and> hs' @ ts' = bs \<and>
    hp_capacity h' = hp_capacity h"
proof -
  have hs: "hs \<noteq> []" using inv bs by (auto simp: heap_inv_def)
  then obtain hs1 where h1: "hs = (p, l) # hs1" "bs = hs1 @ ts" using bs by (cases hs) auto
  have I: "unat (hp_capacity h) < 2147483648" "p = unat (head_begin h)" "0 < l"
    "chain (p + l) hs1 (unat (head_end h))" "unat (head_end h) \<le> unat (hp_capacity h)"
    using inv h1 by (auto simp: heap_inv_def)
  have le: "p + l \<le> unat (head_end h)" by (rule chain_le [OF I(4)])
  have g: "getter q (head_begin h) = of_nat l" using length_of [OF R] I(2) by simp
  have b1: "unat (head_begin h + of_nat l) = p + l"
    using le I by (subst unat_add_of_nat_no_wrap) simp_all
  define b where "b = head_begin h + of_nat l"
  have len: "head_end h - head_begin h - of_nat l = head_end h - b" "0 < unat (head_end h - head_begin h)"
    using le I(2,3) by (simp_all add: b_def unat_sub_no_wrap)
  have two: "0 < unat (tail_end h + (head_end h - head_begin h))" "head_begin h \<noteq> 0" if "ts \<noteq> []"
  proof -
    have t: "0 < unat (tail_end h)" "unat (tail_end h) \<le> p"
      using inv that I(2) chain_empty [of 0 ts] by (auto simp: heap_inv_def word_le_nat_alt intro: gr0I)
    then have "unat (tail_end h + (head_end h - head_begin h)) = unat (tail_end h) + (unat (head_end h) - p)"
      using le I(1,2,5) by (subst unat_add_no_wrap) (simp_all add: unat_sub_no_wrap)
    then show "0 < unat (tail_end h + (head_end h - head_begin h))" "head_begin h \<noteq> 0" using t I(2) by auto
  qed
  have used: "used_size h > 0" using inv len(2) two by (auto simp: heap_inv_def word_less_nat_alt split: if_splits)
  have e: "b = head_end h \<longleftrightarrow> hs1 = []" "hs1 \<noteq> [] \<Longrightarrow> \<not> head_end h \<le> b"
    using I(4) b1 chain_empty [of "p + l" hs1] chain_le [OF I(4)]
    by (auto simp: b_def word_unat_eq_iff word_le_nat_alt)
  define h' where "h' = (if hs1 = [] then
      if ts = [] then h\<lparr>head_begin := 0, head_end := 0, tail_begin := 0, tail_end := 0, used_size := 0\<rparr>
      else h\<lparr>head_begin := 0, head_end := tail_end h, used_size := tail_end h\<rparr>
    else if ts = [] then h\<lparr>head_begin := b, tail_begin := b, used_size := head_end h - b\<rparr>
    else h\<lparr>head_begin := b, used_size := tail_end h + (head_end h - b)\<rparr>)"
  have ov: "(head_begin h = tail_begin h) = (ts = [])" using inv two(2) by (cases "ts = []") (auto simp: heap_inv_def)
  have us: "used_size h - of_nat l = (if ts = [] then head_end h - b else tail_end h + (head_end h - b))"
    using inv len(1) by (auto simp: heap_inv_def b_def)
  have "rtk_diag_heap_free dbg getter h q = Some (of_nat l, h')"
  proof -
    have tb: "ts \<noteq> [] \<Longrightarrow> tail_begin h = 0" using inv by (simp add: heap_inv_def)
    have "rtk_diag_heap_free dbg getter h q = (if head_end h \<le> b then do {
          _ \<leftarrow> dbg_assert dbg (b = head_end h);
          let h2 = (if ts = [] then h\<lparr>used_size := used_size h - of_nat l, head_begin := b, tail_begin := 0, tail_end := 0\<rparr>
                    else h\<lparr>used_size := used_size h - of_nat l, head_begin := b\<rparr>);
          Some (of_nat l, h2\<lparr>head_begin := tail_begin h2, head_end := tail_end h2\<rparr>)
        }
        else Some (of_nat l, if ts = [] then h\<lparr>used_size := used_size h - of_nat l, head_begin := b, tail_begin := b\<rparr>
          else h\<lparr>used_size := used_size h - of_nat l, head_begin := b\<rparr>))"
      by (simp add: rtk_diag_heap_free_def Let_def used g ov b_def)
    then show ?thesis
      using e tb by (cases "hs1 = []"; cases "ts = []") (simp_all add: us dbg_assert_def h'_def Let_def)
  qed
  moreover have "heap_inv h' (if hs1 = [] then ts else hs1) (if hs1 = [] then [] else ts)"
  proof (cases "hs1 = []")
    case True
    have "unat (tail_end h) \<le> unat (hp_capacity h)" if "ts \<noteq> []"
      using inv that le I(2,5) by (auto simp: heap_inv_def word_le_nat_alt)
    then show ?thesis using inv I(1) True by (auto simp: heap_inv_def h'_def)
  next
    case False
    have "tail_end h \<le> b" if "ts \<noteq> []"
      using inv that I(2) b1 by (auto simp: heap_inv_def word_le_nat_alt b_def)
    then show ?thesis using inv I b1 False by (auto simp: heap_inv_def h'_def b_def)
  qed
  ultimately show ?thesis
    using h1(2) by (intro exI [of _ h'] exI [of _ "if hs1 = [] then ts else hs1"] exI [of _ "if hs1 = [] then [] else ts"])
      (simp add: h'_def)
qed

end

section \<open>The blocks do not overlap\<close>

text \<open>The bytes of a block.\<close>

definition block_bytes :: "block \<Rightarrow> nat set" where
  "block_bytes b = {fst b..<fst b + snd b}"

lemma chain_block:
  assumes "chain a bs c" and "b \<in> set bs"
  shows "a \<le> fst b \<and> fst b + snd b \<le> c \<and> 0 < snd b"
  using assms
proof (induction a bs c rule: chain.induct)
  case (2 a p l bs c)
  then show ?case using chain_le [of "a + l" bs c] by auto
qed simp

lemma chain_disjoint:
  assumes "chain a bs c"
  shows "distinct bs \<and> (\<forall>x \<in> set bs. \<forall>y \<in> set bs. x \<noteq> y \<longrightarrow> block_bytes x \<inter> block_bytes y = {})"
  using assms
proof (induction a bs c rule: chain.induct)
  case (2 a p l bs c)
  then have c: "chain (a + l) bs c" "p = a" "0 < l" by auto
  have far: "block_bytes (p, l) \<inter> block_bytes y = {}" "(p, l) \<noteq> y" if "y \<in> set bs" for y
    using chain_block [OF c(1) that] c(2,3) by (auto simp: block_bytes_def)
  then have "(p, l) \<notin> set bs" by blast
  then show ?case using far(1) "2.IH" [OF c(1)] by (auto simp: Int_commute)
qed simp

lemma heap_blocks_disjoint:
  assumes "heap_inv h hs ts"
  shows "distinct (hs @ ts) \<and> (\<forall>x \<in> set (hs @ ts). block_bytes x \<subseteq> {0..<unat (hp_capacity h)}) \<and>
    (\<forall>x \<in> set (hs @ ts). \<forall>y \<in> set (hs @ ts). x \<noteq> y \<longrightarrow> block_bytes x \<inter> block_bytes y = {})"
proof -
  have H: "chain (unat (head_begin h)) hs (unat (head_end h))" "unat (head_end h) \<le> unat (hp_capacity h)"
    and T: "ts = [] \<or> chain 0 ts (unat (tail_end h)) \<and> unat (tail_end h) \<le> unat (head_begin h)"
    using assms by (auto simp: heap_inv_def word_le_nat_alt split: if_splits)
  have hb: "unat (head_begin h) \<le> unat (head_end h)" by (rule chain_le [OF H(1)])
  have hblk: "unat (head_begin h) \<le> fst x \<and> fst x + snd x \<le> unat (head_end h) \<and> 0 < snd x" if "x \<in> set hs" for x
    by (rule chain_block [OF H(1) that])
  have tblk: "fst x + snd x \<le> unat (head_begin h) \<and> 0 < snd x" if "x \<in> set ts" for x
    using T that chain_block [of 0 ts "unat (tail_end h)" x] by fastforce
  have cross: "block_bytes x \<inter> block_bytes y = {} \<and> x \<noteq> y" if "x \<in> set hs" "y \<in> set ts" for x y
    using hblk [OF that(1)] tblk [OF that(2)] by (auto simp: block_bytes_def)
  have "distinct (hs @ ts)" using chain_disjoint [OF H(1)] chain_disjoint T cross by fastforce
  moreover have "block_bytes x \<subseteq> {0..<unat (hp_capacity h)}" if "x \<in> set (hs @ ts)" for x
    using that hblk [of x] tblk [of x] hb H(2) by (auto simp: block_bytes_def)
  moreover have "block_bytes x \<inter> block_bytes y = {}" if "x \<in> set (hs @ ts)" "y \<in> set (hs @ ts)" "x \<noteq> y" for x y
  proof -
    consider "x \<in> set hs" "y \<in> set hs" | "x \<in> set ts" "y \<in> set ts" | "x \<in> set hs" "y \<in> set ts" | "x \<in> set ts" "y \<in> set hs"
      using \<open>x \<in> set (hs @ ts)\<close> \<open>y \<in> set (hs @ ts)\<close> by auto
    then show ?thesis
      using chain_disjoint [OF H(1)] chain_disjoint [of 0 ts] T \<open>x \<noteq> y\<close> cross by cases (metis, metis empty_iff empty_set, metis, metis Int_commute)
  qed
  ultimately show ?thesis by blast
qed

lemma heap_create_inv:
  assumes "rtk_diag_heap_create ok cap = Some h" and "unat cap < 2147483648"
  shows "heap_inv h [] [] \<and> hp_capacity h = cap"
  using assms by (auto simp: rtk_diag_heap_create_def heap_inv_def split: if_splits)

end
