(* ===== verification/Diag_Queue.thy ===== *)
theory Diag_Queue
  imports Diag_Ring Diag_Heap
begin

text \<open>
  The event queue of the diagnostics, \<open>src/component/soc/common/diagnose/ameba_diagnose_queue.c\<close>. Small events
  live in the event heap, larger ones in blocks of the system heap; a ring array holds the pointers to all
  events, oldest first, and a second one remembers the events that were given up.

  The global handler is a record. A pointer to an event is an offset into the pool of the event heap or
  the number of a block of the system heap. \<open>pool\<close> gives the event that was last stored at an offset, \<open>sys\<close>
  the event in a block, None when there is no such block. None as a result is a fault: an access through
  NULL or to a freed block, a failed assertion; or a loop that does not end.
\<close>

section \<open>Structures\<close>

definition RTK_ERR_DIAG_UNINIT :: int where "RTK_ERR_DIAG_UNINIT = 0x61"

definition RTK_ERR_DIAG_MALLOC :: int where "RTK_ERR_DIAG_MALLOC = 0x63"

definition RTK_ERR_DIAG_TOO_LARGE_BUFF :: int where "RTK_ERR_DIAG_TOO_LARGE_BUFF = 0x65"

definition RTK_ERR_DIAG_EVT_ADD_FAIL :: int where "RTK_ERR_DIAG_EVT_ADD_FAIL = 0x70"

definition RTK_ERR_DIAG_EVT_NO_MORE :: int where "RTK_ERR_DIAG_EVT_NO_MORE = 0x71"

lemmas diag_codes = RTK_SUCCESS_def RTK_ERR_BADARG_def RTK_ERR_DIAG_UNINIT_def RTK_ERR_DIAG_MALLOC_def
  RTK_ERR_DIAG_TOO_LARGE_BUFF_def RTK_ERR_DIAG_EVT_ADD_FAIL_def RTK_ERR_DIAG_EVT_NO_MORE_def

abbreviation (input) "LITTLE_EVENT_THRESHOLD \<equiv> 128"

abbreviation (input) "BIT_EVENT_THRESHOLD \<equiv> 2048"

abbreviation (input) "sizeof_RtkDiagEvent \<equiv> 12"

abbreviation (input) "DELETED_EVENT_MAX_COUNT \<equiv> 20"

abbreviation (input) "INVALID_EVENT_NODE \<equiv> 65535 :: u16"

record RtkDiagEvent =
  evt_type :: u16
  evt_len :: u16
  evt_time :: u32
  evt_level :: u8
  evt_info :: "u8 list"

record RtkDiagDeletedEvent =
  del_time :: u32
  del_type :: u16
  del_len :: u16

datatype evt_ptr = Pool u32 | Sys nat

record RtkDiagQueue =
  heap_handler :: DiagHeap
  deleted_evt_arr :: "(RtkDiagEvent, RtkDiagDeletedEvent) RingArray"
  evt_node_arr :: "(evt_ptr, evt_ptr) RingArray"
  prev_find_node :: u16
  total_size :: u16
  total_capacity :: u16
  pool :: "u32 \<Rightarrow> RtkDiagEvent"
  sys :: "nat \<Rightarrow> RtkDiagEvent option"
  sys_next :: nat

text \<open>\<open>RTK_DIAG_EVENT_STRUCTURE_REAL_SIZE\<close>\<close>

definition EVENT_REAL_SIZE :: "RtkDiagEvent \<Rightarrow> u32" where
  "EVENT_REAL_SIZE e = sizeof_RtkDiagEvent + ucast (evt_len e)"

fun event_at :: "RtkDiagQueue \<Rightarrow> evt_ptr \<Rightarrow> RtkDiagEvent option" where
  "event_at q (Pool a) = Some (pool q a)"
| "event_at q (Sys i) = sys q i"

text \<open>\<open>rtos_mem_free\<close> of an event; only a block of the system heap may be freed.\<close>

fun event_free :: "evt_ptr \<Rightarrow> RtkDiagQueue \<Rightarrow> RtkDiagQueue option" where
  "event_free (Pool a) q = None"
| "event_free (Sys i) q = (if sys q i = None then None else Some (q\<lparr>sys := (sys q)(i := None)\<rparr>))"

section \<open>The callbacks\<close>

definition rtk_diag_element_length_callback :: "RtkDiagQueue \<Rightarrow> u32 \<Rightarrow> u32" where
  "rtk_diag_element_length_callback q a = EVENT_REAL_SIZE (pool q a)"

definition rtk_diag_deleted_event_emplace_callback :: "RtkDiagEvent \<Rightarrow> RtkDiagDeletedEvent" where
  "rtk_diag_deleted_event_emplace_callback e =
     \<lparr>del_time = evt_time e, del_type = evt_type e, del_len = evt_len e\<rparr>"

text \<open>Take the oldest event out of the array and remember it as deleted.\<close>

definition pop_to_deleted :: "RtkDiagQueue \<Rightarrow> (evt_ptr \<times> RtkDiagEvent \<times> RtkDiagQueue) option" where
  "pop_to_deleted q = do {
     (p, arr) \<leftarrow> ra_pop (evt_node_arr q);
     e \<leftarrow> event_at q p;
     del \<leftarrow> ra_push (deleted_evt_arr q) e;
     Some (p, e, q\<lparr>evt_node_arr := arr, deleted_evt_arr := del\<rparr>)
   }"

text \<open>The \<open>while (1)\<close> loop of the callback.\<close>

partial_function (option) remove_loop :: "evt_ptr \<Rightarrow> RtkDiagQueue \<Rightarrow> RtkDiagQueue option" where
  "remove_loop event q = do {
     (tmp, e, q1) \<leftarrow> pop_to_deleted q;
     q2 \<leftarrow> (if evt_len e > LITTLE_EVENT_THRESHOLD
            then event_free tmp (q1\<lparr>total_size := total_size q1 - ucast (EVENT_REAL_SIZE e)\<rparr>)
            else Some q1);
     if tmp = event then Some q2 else remove_loop event q2
   }"

definition rtk_diag_heap_element_remove_callback :: "u32 \<Rightarrow> RtkDiagQueue \<Rightarrow> RtkDiagQueue option" where
  "rtk_diag_heap_element_remove_callback a q = remove_loop (Pool a) q"

section \<open>Setting up\<close>

text \<open>The four allocations succeed as \<open>ok1\<close> to \<open>ok4\<close> say; \<open>junk\<close> is what the memory of the handler and of
  the arrays held. The result is the return code and the handler.\<close>

definition rtk_diag_queue_init ::
  "bool \<Rightarrow> bool \<Rightarrow> bool \<Rightarrow> bool \<Rightarrow> RtkDiagQueue \<Rightarrow> RtkDiagDeletedEvent \<Rightarrow> evt_ptr \<Rightarrow> u16 \<Rightarrow> u16 \<Rightarrow> int \<times> RtkDiagQueue option" where
  "rtk_diag_queue_init ok1 ok2 ok3 ok4 junk junk_del junk_ptr heap_cap total_cap =
     (if \<not> ok1 then (RTK_ERR_DIAG_MALLOC, None)
      else case rtk_diag_heap_create ok2 (ucast heap_cap) of
        None \<Rightarrow> (RTK_ERR_DIAG_UNINIT, None)
      | Some h \<Rightarrow>
          (case rtk_diag_ring_array_create ok3 junk_del DELETED_EVENT_MAX_COUNT 8
                  rtk_diag_deleted_event_emplace_callback of
             None \<Rightarrow> (RTK_ERR_DIAG_UNINIT, None)
           | Some del \<Rightarrow>
               (case rtk_diag_ring_array_create ok4 junk_ptr (ucast total_cap div sizeof_RtkDiagEvent) 4 id of
                  None \<Rightarrow> (RTK_ERR_DIAG_UNINIT, None)
                | Some arr \<Rightarrow>
                    (RTK_SUCCESS,
                     Some (junk\<lparr>heap_handler := h, deleted_evt_arr := del, evt_node_arr := arr,
                                total_size := heap_cap, total_capacity := total_cap\<rparr>)))))"

definition rtk_diag_queue_set_total_capacity :: "RtkDiagQueue \<Rightarrow> u16 \<Rightarrow> int \<times> RtkDiagQueue" where
  "rtk_diag_queue_set_total_capacity q total_cap =
     (if ucast total_cap > rtk_diag_heap_get_capacity (heap_handler q) + LITTLE_EVENT_THRESHOLD + sizeof_RtkDiagEvent
      then (RTK_SUCCESS, q\<lparr>total_capacity := total_cap\<rparr>)
      else (RTK_ERR_BADARG, q))"

definition rtk_diag_queue_get_total_capacity :: "RtkDiagQueue \<Rightarrow> u16" where
  "rtk_diag_queue_get_total_capacity q = total_capacity q"

section \<open>Adding an event\<close>

definition queue_heap_free :: "bool \<Rightarrow> RtkDiagQueue \<Rightarrow> RtkDiagQueue option" where
  "queue_heap_free dbg q = do {
     (_, h) \<leftarrow> rtk_diag_heap_free dbg rtk_diag_element_length_callback (heap_handler q) q;
     Some (q\<lparr>heap_handler := h\<rparr>)
   }"

text \<open>The loop that gives up the oldest events until a large one fits under the limit.\<close>

partial_function (option) evict_loop :: "bool \<Rightarrow> u32 \<Rightarrow> RtkDiagQueue \<Rightarrow> RtkDiagQueue option" where
  "evict_loop dbg event_len q =
     (if ra_count (evt_node_arr q) > 0 \<and> ucast (total_size q) + event_len > ucast (total_capacity q) then do {
        (tmp, e, q1) \<leftarrow> pop_to_deleted q;
        q2 \<leftarrow> (if evt_len e \<le> LITTLE_EVENT_THRESHOLD then queue_heap_free dbg q1
               else if evt_len e \<le> BIT_EVENT_THRESHOLD then
                 event_free tmp (q1\<lparr>total_size := total_size q1 - ucast (EVENT_REAL_SIZE e)\<rparr>)
               else None);
        evict_loop dbg event_len q2
      }
      else Some q)"

text \<open>The space for the event: its pointer, or NULL.\<close>

definition event_malloc :: "bool \<Rightarrow> bool \<Rightarrow> u16 \<Rightarrow> u32 \<Rightarrow> RtkDiagQueue \<Rightarrow> (evt_ptr option \<times> RtkDiagQueue) option" where
  "event_malloc dbg ok len event_len q =
     (if len \<le> LITTLE_EVENT_THRESHOLD then do {
        (res, h, q1) \<leftarrow> rtk_diag_heap_malloc dbg rtk_diag_element_length_callback
           rtk_diag_heap_element_remove_callback (heap_handler q) event_len q;
        Some (map_option Pool res, q1\<lparr>heap_handler := h\<rparr>)
      }
      else if ok then Some (Some (Sys (sys_next q)), q\<lparr>sys_next := sys_next q + 1\<rparr>)
      else Some (None, q))"

fun event_store :: "evt_ptr \<Rightarrow> RtkDiagEvent \<Rightarrow> RtkDiagQueue \<Rightarrow> RtkDiagQueue" where
  "event_store (Pool a) e q = q\<lparr>pool := (pool q)(a := e)\<rparr>"
| "event_store (Sys i) e q = q\<lparr>sys := (sys q)(i := Some e)\<rparr>"

definition rtk_diag_queue_enqueue ::
  "bool \<Rightarrow> bool \<Rightarrow> RtkDiagQueue \<Rightarrow> u32 \<Rightarrow> u8 \<Rightarrow> u16 \<Rightarrow> u8 list \<Rightarrow> u16 \<Rightarrow> (int \<times> RtkDiagQueue) option" where
  "rtk_diag_queue_enqueue dbg ok q timestamp level type info len =
     (if len > BIT_EVENT_THRESHOLD then Some (RTK_ERR_DIAG_TOO_LARGE_BUFF, q)
      else do {
        let event_len = sizeof_RtkDiagEvent + ucast len;
        q1 \<leftarrow> (if len > LITTLE_EVENT_THRESHOLD then evict_loop dbg event_len q else Some q);
        if len > LITTLE_EVENT_THRESHOLD \<and> ucast (total_size q1) + event_len > ucast (total_capacity q1)
        then Some (RTK_ERR_DIAG_EVT_ADD_FAIL, q1)
        else do {
          (ev, q2) \<leftarrow> event_malloc dbg ok len event_len q1;
          (case ev of
             None \<Rightarrow> Some (RTK_ERR_DIAG_MALLOC, q2)
           | Some p \<Rightarrow> do {
               let q3 = event_store p \<lparr>evt_type = type, evt_len = len, evt_time = timestamp, evt_level = level,
                 evt_info = take (unat len) info\<rparr> q2;
               arr \<leftarrow> ra_push (evt_node_arr q3) p;
               let q4 = q3\<lparr>evt_node_arr := arr\<rparr>;
               Some (RTK_SUCCESS,
                     if len > LITTLE_EVENT_THRESHOLD
                     then q4\<lparr>total_size := total_size q4 + ucast event_len\<rparr> else q4)
             })
        }
      })"

section \<open>Removing events\<close>

text \<open>The event is returned as its value; a large one stays in its block, which now belongs to the caller.
  \<open>ok\<close> is whether the allocation of the copy of a small one succeeded, which is not checked.\<close>

definition rtk_diag_queue_dequeue :: "bool \<Rightarrow> bool \<Rightarrow> RtkDiagQueue \<Rightarrow> (RtkDiagEvent option \<times> RtkDiagQueue) option" where
  "rtk_diag_queue_dequeue dbg ok q =
     (case ra_pop (evt_node_arr q) of
        None \<Rightarrow> Some (None, q)
      | Some (p, arr) \<Rightarrow> do {
          e \<leftarrow> event_at q p;
          let q1 = q\<lparr>evt_node_arr := arr\<rparr>;
          if evt_len e \<le> LITTLE_EVENT_THRESHOLD then
            if ok then map_option (\<lambda>q2. (Some e, q2)) (queue_heap_free dbg q1) else None
          else if evt_len e \<le> BIT_EVENT_THRESHOLD then Some (Some e, q1)
          else None
        })"

text \<open>Free an event that is deleted without a record; the limit is not told.\<close>

definition event_discard :: "bool \<Rightarrow> evt_ptr \<Rightarrow> RtkDiagEvent \<Rightarrow> RtkDiagQueue \<Rightarrow> RtkDiagQueue option" where
  "event_discard dbg p e q =
     (if evt_len e \<le> LITTLE_EVENT_THRESHOLD then queue_heap_free dbg q
      else if evt_len e \<le> BIT_EVENT_THRESHOLD then event_free p q
      else None)"

partial_function (option) clear_loop :: "bool \<Rightarrow> RtkDiagQueue \<Rightarrow> RtkDiagQueue option" where
  "clear_loop dbg q =
     (case ra_pop (evt_node_arr q) of
        None \<Rightarrow> Some q
      | Some (p, arr) \<Rightarrow> do {
          e \<leftarrow> event_at q p;
          q1 \<leftarrow> event_discard dbg p e (q\<lparr>evt_node_arr := arr\<rparr>);
          clear_loop dbg q1
        })"

definition rtk_diag_queue_clear :: "bool \<Rightarrow> RtkDiagQueue \<Rightarrow> (int \<times> RtkDiagQueue) option" where
  "rtk_diag_queue_clear dbg q = map_option (\<lambda>q1. (RTK_SUCCESS, q1)) (clear_loop dbg q)"

text \<open>After the queue was cleared everything is freed.\<close>

definition rtk_diag_queue_deinit :: "bool \<Rightarrow> RtkDiagQueue \<Rightarrow> RtkDiagQueue option" where
  "rtk_diag_queue_deinit dbg q = map_option snd (rtk_diag_queue_clear dbg q)"

text \<open>The loops of \<open>rtk_diag_queue_del_before\<close> (with a time) and \<open>rtk_diag_queue_del_after\<close> (without).\<close>

partial_function (option) del_loop ::
  "bool \<Rightarrow> u32 option \<Rightarrow> RtkDiagQueue \<Rightarrow> u16 \<Rightarrow> (u16 \<times> RtkDiagQueue) option" where
  "del_loop dbg timestamp q cnt =
     (if ra_count (evt_node_arr q) > 0 then do {
        p \<leftarrow> ra_get (evt_node_arr q) 0;
        e \<leftarrow> event_at q p;
        if (case timestamp of None \<Rightarrow> False | Some t \<Rightarrow> evt_time e > t) then Some (cnt, q)
        else do {
          q1 \<leftarrow> event_discard dbg p e q;
          (_, arr) \<leftarrow> ra_pop (evt_node_arr q1);
          del_loop dbg timestamp (q1\<lparr>evt_node_arr := arr\<rparr>) (cnt + 1)
        }
      }
      else Some (cnt, q))"

definition rtk_diag_queue_del_before :: "bool \<Rightarrow> RtkDiagQueue \<Rightarrow> u32 \<Rightarrow> (int \<times> u16 \<times> RtkDiagQueue) option" where
  "rtk_diag_queue_del_before dbg q timestamp =
     map_option (\<lambda>(cnt, q1). (RTK_SUCCESS, cnt, q1)) (del_loop dbg (Some timestamp) q 0)"

definition rtk_diag_queue_del_after :: "bool \<Rightarrow> RtkDiagQueue \<Rightarrow> u32 \<Rightarrow> (int \<times> u16 \<times> RtkDiagQueue) option" where
  "rtk_diag_queue_del_after dbg q timestamp =
     map_option (\<lambda>(cnt, q1). (RTK_SUCCESS, cnt, q1)) (del_loop dbg None q 0)"

definition rtk_diag_queue_get_del_list :: "RtkDiagQueue \<Rightarrow> (RtkDiagEvent, RtkDiagDeletedEvent) RingArray" where
  "rtk_diag_queue_get_del_list q = deleted_evt_arr q"

definition rtk_diag_queue_clr_del_list :: "RtkDiagQueue \<Rightarrow> int \<times> RtkDiagQueue" where
  "rtk_diag_queue_clr_del_list q = (RTK_SUCCESS, q\<lparr>deleted_evt_arr := ra_clear (deleted_evt_arr q)\<rparr>)"

section \<open>Finding an event\<close>

text \<open>The first event that is not older than the time, with its index; the number of events when there is
  none.\<close>

partial_function (option) find_first :: "RtkDiagQueue \<Rightarrow> u32 \<Rightarrow> u16 \<Rightarrow> (u16 \<times> RtkDiagEvent option) option" where
  "find_first q timestamp i =
     (if ucast i < ra_count (evt_node_arr q) then do {
        p \<leftarrow> ra_get (evt_node_arr q) (ucast i);
        e \<leftarrow> event_at q p;
        if evt_time e \<ge> timestamp then Some (i, Some e) else find_first q timestamp (i + 1)
      }
      else Some (i, None))"

text \<open>The bytes of deleted events of that time. A newer deleted event is a failed assertion.\<close>

fun deleted_offset :: "u32 \<Rightarrow> RtkDiagDeletedEvent list \<Rightarrow> u16 \<Rightarrow> u16 option" where
  "deleted_offset timestamp [] acc = Some acc"
| "deleted_offset timestamp (d # ds) acc =
     (if del_time d = timestamp
      then deleted_offset timestamp ds (acc + ucast (sizeof_RtkDiagEvent + ucast (del_len d) :: u32))
      else if del_time d > timestamp then None
      else deleted_offset timestamp ds acc)"

text \<open>The loop over the events of that time: the index and the event it ends with, the offset of that
  event, and the offset inside the event when it was found.\<close>

partial_function (option) locate_loop ::
  "RtkDiagQueue \<Rightarrow> u32 \<Rightarrow> u16 \<Rightarrow> u16 \<Rightarrow> RtkDiagEvent option \<Rightarrow> u16 \<Rightarrow> (u16 \<times> RtkDiagEvent option \<times> u16 \<times> u16 option) option" where
  "locate_loop q timestamp global_offset i ev total_offset =
     (if ucast i < ra_count (evt_node_arr q) then do {
        e \<leftarrow> ev;
        if evt_time e = timestamp then
          let tmp = ucast total_offset + EVENT_REAL_SIZE e in
          if tmp > ucast global_offset then Some (i, ev, total_offset, Some (global_offset - total_offset))
          else locate_loop q timestamp global_offset (i + 1)
                 (Option.bind (ra_get (evt_node_arr q) (ucast (i + 1))) (event_at q)) (ucast tmp)
        else Some (i, ev, total_offset, None)
      }
      else Some (i, ev, total_offset, None))"

text \<open>The result is the event (None for NULL), the two offsets, the result code and the handler.\<close>

definition rtk_diag_queue_find ::
  "RtkDiagQueue \<Rightarrow> u32 \<Rightarrow> u16 \<Rightarrow> u16 \<Rightarrow> (RtkDiagEvent option \<times> u16 \<times> u16 \<times> int \<times> RtkDiagQueue) option" where
  "rtk_diag_queue_find q timestamp global_offset local_offset = do {
     (i, ev) \<leftarrow> find_first q timestamp 0;
     let q1 = q\<lparr>prev_find_node := i\<rparr>;
     if ucast i = ra_count (evt_node_arr q) then
       Some (None, global_offset, local_offset, RTK_ERR_DIAG_EVT_NO_MORE, q1\<lparr>prev_find_node := INVALID_EVENT_NODE\<rparr>)
     else do {
       e \<leftarrow> ev;
       if evt_time e > timestamp then Some (Some e, 0, 0, RTK_SUCCESS, q1)
       else do {
         total_offset \<leftarrow> deleted_offset timestamp (ra_items (deleted_evt_arr q)) 0;
         if global_offset \<le> total_offset then Some (Some e, total_offset, 0, RTK_SUCCESS, q1)
         else do {
           (j, ev', tot, found) \<leftarrow> locate_loop q timestamp global_offset i ev total_offset;
           let q2 = q1\<lparr>prev_find_node := j\<rparr>;
           let lo = (case found of Some l \<Rightarrow> l | None \<Rightarrow> local_offset);
           if ucast j = ra_count (evt_node_arr q) then
             if global_offset = tot then
               Some (None, global_offset, lo, RTK_ERR_DIAG_EVT_NO_MORE, q2\<lparr>prev_find_node := INVALID_EVENT_NODE\<rparr>)
             else None
           else do {
             e' \<leftarrow> ev';
             if evt_time e' \<noteq> timestamp then Some (Some e', 0, 0, RTK_SUCCESS, q2)
             else Some (Some e', global_offset, lo, RTK_SUCCESS, q2)
           }
         }
       }
     }
   }"

definition rtk_diag_queue_next_to_prev_find :: "RtkDiagQueue \<Rightarrow> (RtkDiagEvent option \<times> RtkDiagQueue) option" where
  "rtk_diag_queue_next_to_prev_find q =
     (if prev_find_node q \<noteq> INVALID_EVENT_NODE then
        let i = prev_find_node q + 1; q1 = q\<lparr>prev_find_node := i\<rparr> in
        (case ra_get (evt_node_arr q1) (ucast i) of
           None \<Rightarrow> Some (None, q1)
         | Some p \<Rightarrow> map_option (\<lambda>e. (Some e, q1)) (event_at q1 p))
      else Some (None, q))"

section \<open>The invariant\<close>

abbreviation nodes :: "RtkDiagQueue \<Rightarrow> evt_ptr list" where
  "nodes q \<equiv> ra_items (evt_node_arr q)"

abbreviation deleted :: "RtkDiagQueue \<Rightarrow> RtkDiagDeletedEvent list" where
  "deleted q \<equiv> ra_items (deleted_evt_arr q)"

fun ptr_ok :: "RtkDiagQueue \<Rightarrow> evt_ptr \<Rightarrow> bool" where
  "ptr_ok q (Pool a) \<longleftrightarrow> evt_len (pool q a) \<le> LITTLE_EVENT_THRESHOLD"
| "ptr_ok q (Sys i) \<longleftrightarrow>
     (case sys q i of None \<Rightarrow> False
      | Some e \<Rightarrow> LITTLE_EVENT_THRESHOLD < evt_len e \<and> evt_len e \<le> BIT_EVENT_THRESHOLD \<and> i < sys_next q)"

fun ptr_block :: "RtkDiagQueue \<Rightarrow> evt_ptr \<Rightarrow> block list" where
  "ptr_block q (Pool a) = [(unat a, unat (EVENT_REAL_SIZE (pool q a)))]"
| "ptr_block q (Sys i) = []"

fun ptr_big :: "RtkDiagQueue \<Rightarrow> evt_ptr \<Rightarrow> nat" where
  "ptr_big q (Pool a) = 0"
| "ptr_big q (Sys i) = unat (EVENT_REAL_SIZE (the (sys q i)))"

text \<open>The events that are queued, the blocks of the event heap they are in, and the bytes they use of the
  system heap.\<close>

definition q_events :: "RtkDiagQueue \<Rightarrow> RtkDiagEvent list" where
  "q_events q = map (\<lambda>p. the (event_at q p)) (nodes q)"

definition q_blocks :: "RtkDiagQueue \<Rightarrow> block list" where
  "q_blocks q = concat (map (ptr_block q) (nodes q))"

definition q_big :: "RtkDiagQueue \<Rightarrow> nat" where
  "q_big q = sum_list (map (ptr_big q) (nodes q))"

definition nodes_ok :: "RtkDiagQueue \<Rightarrow> bool" where
  "nodes_ok q \<longleftrightarrow> ra_inv (evt_node_arr q) \<and> ra_emplace (evt_node_arr q) = id \<and> ra_inv (deleted_evt_arr q) \<and>
     ra_emplace (deleted_evt_arr q) = rtk_diag_deleted_event_emplace_callback \<and> ra_capacity (deleted_evt_arr q) = 20 \<and>
     distinct (nodes q) \<and> (\<forall>p \<in> set (nodes q). ptr_ok q p) \<and>
     unat (hp_capacity (heap_handler q)) + q_big q \<le> unat (total_size q)"

end
