(* ===== verification/Diag_Events.thy ===== *)
theory Diag_Events
  imports Diag_Queue
begin

text \<open>
  What the event queue of the diagnostics promises: its invariant, that every operation keeps it, and how
  the list of queued events changes. The event heap is used through its interface: the queue is the owner
  of its blocks.
\<close>

section \<open>Taking out the oldest event\<close>

definition del_of :: "RtkDiagEvent \<Rightarrow> RtkDiagDeletedEvent" where
  "del_of = rtk_diag_deleted_event_emplace_callback"

lemma unat_real_size: "unat (EVENT_REAL_SIZE e) = 12 + unat (evt_len e)"
proof -
  have "unat (12 + ucast (evt_len e) :: u32) = unat (12 :: u32) + unat (ucast (evt_len e) :: u32)"
    using unat_lt_u16 [of "evt_len e"] by (intro unat_add_no_wrap) (simp del: unat_lt_u16)
  then show ?thesis by (simp add: EVENT_REAL_SIZE_def)
qed

lemma ptr_ok_event: "ptr_ok q p \<Longrightarrow> \<exists>e. event_at q p = Some e"
  by (cases p) (auto split: option.splits)

lemma pop_to_deleted_ok:
  assumes ok: "nodes_ok q" and ns: "nodes q = p # ps"
  shows "\<exists>arr del. pop_to_deleted q =
      Some (p, the (event_at q p), q\<lparr>evt_node_arr := arr, deleted_evt_arr := del\<rparr>) \<and>
    ra_inv arr \<and> ra_emplace arr = id \<and> ra_items arr = ps \<and> ra_capacity arr = ra_capacity (evt_node_arr q) \<and>
    ra_inv del \<and> ra_emplace del = del_of \<and> ra_capacity del = 20 \<and>
    ra_items del = last_n 20 (deleted q @ [del_of (the (event_at q p))])"
proof -
  have I: "ra_inv (evt_node_arr q)" "ra_emplace (evt_node_arr q) = id" "ra_inv (deleted_evt_arr q)"
    "ra_emplace (deleted_evt_arr q) = del_of" "ra_capacity (deleted_evt_arr q) = 20" "ptr_ok q p"
    using ok ns by (auto simp: nodes_ok_def del_of_def)
  obtain arr where arr: "ra_pop (evt_node_arr q) = Some (p, arr)" "ra_inv arr" "ra_capacity arr = ra_capacity (evt_node_arr q)"
    "ra_emplace arr = id" "ra_items arr = ps"
    using ra_pop_items [OF I(1) ns] I(2) by auto
  obtain e where e: "event_at q p = Some e" using ptr_ok_event [OF I(6)] by blast
  obtain del where del: "ra_push (deleted_evt_arr q) e = Some del"
    using raq.push_ok [OF I(3)] by blast
  note d = raq.push_items [OF I(3) del, unfolded I(4,5)]
  show ?thesis
    using arr del d e
    by (intro exI [of _ arr] exI [of _ del]) (auto simp: pop_to_deleted_def word_unat_eq_iff)
qed

text \<open>The queue without its oldest event, when the block of a large one is freed.\<close>

definition without_oldest ::
  "RtkDiagQueue \<Rightarrow> (evt_ptr, evt_ptr) RingArray \<Rightarrow> (RtkDiagEvent, RtkDiagDeletedEvent) RingArray \<Rightarrow> RtkDiagQueue" where
  "without_oldest q arr del = (case hd (nodes q) of
     Pool a \<Rightarrow> q\<lparr>evt_node_arr := arr, deleted_evt_arr := del\<rparr>
   | Sys i \<Rightarrow> q\<lparr>evt_node_arr := arr, deleted_evt_arr := del,
       total_size := total_size q - ucast (EVENT_REAL_SIZE (the (sys q i))), sys := (sys q)(i := None)\<rparr>)"

lemma without_oldest_sel [simp]:
  "heap_handler (without_oldest q arr del) = heap_handler q" "pool (without_oldest q arr del) = pool q"
  "total_capacity (without_oldest q arr del) = total_capacity q" "sys_next (without_oldest q arr del) = sys_next q"
  "evt_node_arr (without_oldest q arr del) = arr" "deleted_evt_arr (without_oldest q arr del) = del"
  "prev_find_node (without_oldest q arr del) = prev_find_node q"
  by (simp_all add: without_oldest_def split: evt_ptr.splits)

lemma without_oldest_other:
  assumes "nodes q = p # ps" and "distinct (nodes q)" and "x \<in> set ps"
  shows "event_at (without_oldest q arr del) x = event_at q x" "ptr_ok (without_oldest q arr del) x = ptr_ok q x"
    "ptr_block (without_oldest q arr del) x = ptr_block q x" "ptr_big (without_oldest q arr del) x = ptr_big q x"
proof -
  have "sys (without_oldest q arr del) i = sys q i" if "x = Sys i" for i
    using assms that by (cases p) (auto simp: without_oldest_def)
  note this [simp]
  show "event_at (without_oldest q arr del) x = event_at q x" by (cases x) simp_all
  show "ptr_ok (without_oldest q arr del) x = ptr_ok q x" by (cases x) (simp_all split: option.splits)
  show "ptr_block (without_oldest q arr del) x = ptr_block q x" by (cases x) simp_all
  show "ptr_big (without_oldest q arr del) x = ptr_big q x" by (cases x) simp_all
qed

lemma big_size_bound:
  assumes "nodes_ok q" and "nodes q = Sys i # ps"
  shows "unat (total_size q - ucast (EVENT_REAL_SIZE (the (sys q i)))) = unat (total_size q) - ptr_big q (Sys i)"
    and "ptr_big q (Sys i) \<le> unat (total_size q)"
proof -
  obtain e where e: "sys q i = Some e" "evt_len e \<le> 2048" using assms by (auto simp: nodes_ok_def split: option.splits)
  have le: "ptr_big q (Sys i) \<le> unat (total_size q)" using assms by (auto simp: nodes_ok_def q_big_def)
  have "unat (ucast (EVENT_REAL_SIZE e) :: u16) = unat (EVENT_REAL_SIZE e)"
    using e(2) by (intro unat_ucast_u32_u16) (simp add: unat_real_size word_le_nat_alt)
  then show "unat (total_size q - ucast (EVENT_REAL_SIZE (the (sys q i)))) = unat (total_size q) - ptr_big q (Sys i)"
    using le e(1) by (simp add: unat_sub word_le_nat_alt)
  show "ptr_big q (Sys i) \<le> unat (total_size q)" by (rule le)
qed

lemma without_oldest_ok:
  assumes ok: "nodes_ok q" and ns: "nodes q = p # ps"
    and arr: "ra_inv arr" "ra_emplace arr = id" "ra_items arr = ps"
    and del: "ra_inv del" "ra_emplace del = del_of" "ra_capacity del = 20"
  shows "nodes_ok (without_oldest q arr del)" and "q_events (without_oldest q arr del) = tl (q_events q)"
    and "ptr_block q p @ q_blocks (without_oldest q arr del) = q_blocks q"
    and "unat (total_size (without_oldest q arr del)) \<le> unat (total_size q)"
    and "(case p of Pool a \<Rightarrow> total_size (without_oldest q arr del) = total_size q | Sys i \<Rightarrow> True)"
proof -
  let ?q = "without_oldest q arr del"
  have d: "distinct (nodes q)" using ok by (simp add: nodes_ok_def)
  note o = without_oldest_other [OF ns d]
  have big: "q_big q = ptr_big q p + q_big ?q"
    using o(4) by (simp add: q_big_def ns arr(3) cong: map_cong)
  have ts: "unat (total_size ?q) = unat (total_size q) - ptr_big q p" "ptr_big q p \<le> unat (total_size q)"
    using big_size_bound [OF ok, of _ ps] ns by (cases p; simp add: without_oldest_def)+
  have "\<forall>x \<in> set ps. ptr_ok ?q x" using ok ns o(2) by (auto simp: nodes_ok_def)
  then show "nodes_ok ?q"
    using ok ns arr del big ts by (auto simp: nodes_ok_def del_of_def)
  show "q_events ?q = tl (q_events q)" using o(1) by (simp add: q_events_def ns arr(3))
  show "ptr_block q p @ q_blocks ?q = q_blocks q"
    using o(3) by (simp add: q_blocks_def ns arr(3) cong: map_cong)
  show "unat (total_size ?q) \<le> unat (total_size q)" using ts by simp
  show "(case p of Pool a \<Rightarrow> total_size ?q = total_size q | Sys i \<Rightarrow> True)"
    by (simp add: without_oldest_def ns split: evt_ptr.splits)
qed

section \<open>The queue as the owner of the heap's blocks\<close>

text \<open>The state \<open>q\<close> came from \<open>q0\<close> by giving up the oldest events, which are remembered as deleted.\<close>

definition lost :: "RtkDiagQueue \<Rightarrow> RtkDiagQueue \<Rightarrow> bool" where
  "lost q0 q \<longleftrightarrow> hp_capacity (heap_handler q) = hp_capacity (heap_handler q0) \<and> pool q = pool q0 \<and>
     total_capacity q = total_capacity q0 \<and> ra_capacity (evt_node_arr q) = ra_capacity (evt_node_arr q0) \<and>
     unat (total_size q) \<le> unat (total_size q0) \<and>
     (\<exists>k \<le> length (q_events q0). q_events q = drop k (q_events q0) \<and>
        deleted q = last_n 20 (deleted q0 @ map del_of (take k (q_events q0))))"

definition gave_up :: "RtkDiagQueue \<Rightarrow> RtkDiagQueue \<Rightarrow> bool" where
  "gave_up q0 q \<longleftrightarrow> heap_handler q = heap_handler q0 \<and> lost q0 q"

lemma lost_refl [simp]: "nodes_ok q \<Longrightarrow> lost q q"
proof -
  assume "nodes_ok q"
  then have "last_n 20 (deleted q) = deleted q"
    using raq.bound [of "deleted_evt_arr q"] by (simp add: nodes_ok_def last_n_def)
  then show "lost q q" by (auto simp: lost_def intro!: exI [of _ 0])
qed

definition owner :: "RtkDiagQueue \<Rightarrow> RtkDiagQueue \<Rightarrow> block list \<Rightarrow> bool" where
  "owner q0 q bs \<longleftrightarrow> nodes_ok q \<and> q_blocks q = bs \<and> gave_up q0 q"

lemma last_n_step: "last_n n (last_n n xs @ ys) = last_n n (xs @ ys)"
  by (simp add: last_n_def) (auto simp: drop_append split: nat_diff_split)

text \<open>Giving up the oldest event, in one step: what \<open>q'\<close> is when \<open>q\<close> has lost it.\<close>

definition gone :: "RtkDiagQueue \<Rightarrow> RtkDiagQueue \<Rightarrow> bool" where
  "gone q q' \<longleftrightarrow> nodes_ok q' \<and> nodes q' = tl (nodes q) \<and> ptr_block q (hd (nodes q)) @ q_blocks q' = q_blocks q \<and>
     heap_handler q' = heap_handler q \<and> (\<forall>q0. lost q0 q \<longrightarrow> lost q0 q')"

lemma gone_step:
  assumes ok: "nodes_ok q" and ns: "nodes q = p # ps"
    and arr: "ra_inv arr" "ra_emplace arr = id" "ra_items arr = ps" "ra_capacity arr = ra_capacity (evt_node_arr q)"
    and del: "ra_inv del" "ra_emplace del = del_of" "ra_capacity del = 20"
      "ra_items del = last_n 20 (deleted q @ [del_of (the (event_at q p))])"
  shows "gone q (without_oldest q arr del)"
proof -
  let ?q = "without_oldest q arr del"
  note w = without_oldest_ok [OF ok ns arr(1-3) del(1-3)]
  have ev: "q_events q = the (event_at q p) # tl (q_events q)" by (simp add: q_events_def ns)
  have "lost q0 ?q" if g: "lost q0 q" for q0
  proof -
    obtain k where k: "k \<le> length (q_events q0)" "q_events q = drop k (q_events q0)"
      "deleted q = last_n 20 (deleted q0 @ map del_of (take k (q_events q0)))"
      using g by (auto simp: lost_def)
    have lt: "k < length (q_events q0)" using k(2) ev by (cases "k < length (q_events q0)") auto
    have nth: "q_events q0 ! k = the (event_at q p)"
      using k(2) ev lt by (metis Cons_nth_drop_Suc list.inject)
    have "q_events ?q = drop (Suc k) (q_events q0)" using w(2) k(2) by (simp add: drop_Suc tl_drop)
    moreover have "deleted ?q = last_n 20 (deleted q0 @ map del_of (take (Suc k) (q_events q0)))"
      using del(4) k(3) lt nth by (simp add: last_n_step take_Suc_conv_app_nth)
    ultimately show ?thesis
      using g w(4) arr(4) lt unfolding lost_def
      by (intro conjI exI [of _ "Suc k"]) (auto simp: Suc_le_eq)
  qed
  then show ?thesis using w(1,3) ns arr(3) by (simp add: gone_def)
qed

lemma remove_loop_step:
  assumes ok: "nodes_ok q" and ns: "nodes q = p # ps"
  shows "\<exists>q'. gone q q' \<and> remove_loop event q = (if p = event then Some q' else remove_loop event q')"
proof -
  obtain arr del where pop: "pop_to_deleted q =
      Some (p, the (event_at q p), q\<lparr>evt_node_arr := arr, deleted_evt_arr := del\<rparr>)"
    and arr: "ra_inv arr" "ra_emplace arr = id" "ra_items arr = ps" "ra_capacity arr = ra_capacity (evt_node_arr q)"
    and del: "ra_inv del" "ra_emplace del = del_of" "ra_capacity del = 20"
      "ra_items del = last_n 20 (deleted q @ [del_of (the (event_at q p))])"
    using pop_to_deleted_ok [OF ok ns] by blast
  have "ptr_ok q p" using ok ns by (simp add: nodes_ok_def)
  then have "remove_loop event q = (if p = event then Some (without_oldest q arr del)
      else remove_loop event (without_oldest q arr del))"
    using pop ns
    by (subst remove_loop.simps) (cases p; auto simp: without_oldest_def not_less split: option.splits)
  then show ?thesis using gone_step [OF ok ns arr del] by blast
qed

lemma remove_loop_ok:
  assumes "nodes_ok q" and "q_blocks q = (a, l) # bs"
  shows "\<exists>q'. remove_loop (Pool (of_nat a)) q = Some q' \<and> nodes_ok q' \<and> q_blocks q' = bs \<and>
    heap_handler q' = heap_handler q \<and> (\<forall>q0. lost q0 q \<longrightarrow> lost q0 q')"
  using assms
proof (induction "nodes q" arbitrary: q)
  case Nil
  then show ?case by (simp add: q_blocks_def)
next
  case (Cons p ps)
  obtain q1 where q1: "gone q q1"
    "remove_loop (Pool (of_nat a)) q = (if p = Pool (of_nat a) then Some q1 else remove_loop (Pool (of_nat a)) q1)"
    using remove_loop_step [OF Cons.prems(1) Cons.hyps(2) [symmetric]] by blast
  note g = q1(1) [unfolded gone_def Cons.hyps(2) [symmetric], simplified]
  show ?case
  proof (cases p)
    case (Pool b)
    then show ?thesis using g Cons.prems(2) q1(2) by (intro exI [of _ q1]) auto
  next
    case (Sys i)
    then have "q_blocks q1 = (a, l) # bs" using g Cons.prems(2) by simp
    then show ?thesis using Cons.hyps(1) [of q1] g q1(2) Sys by auto
  qed
qed

lemma q_blocks_length:
  assumes "q_blocks q = (a, l) # bs"
  shows "rtk_diag_element_length_callback q (of_nat a) = of_nat l"
proof -
  have "(a, l) \<in> set (q_blocks q)" using assms by simp
  then obtain p where "p \<in> set (nodes q)" "(a, l) \<in> set (ptr_block q p)" by (auto simp: q_blocks_def)
  then show ?thesis by - (cases p, auto simp: rtk_diag_element_length_callback_def)
qed

interpretation qh: heap_owner rtk_diag_element_length_callback rtk_diag_heap_element_remove_callback "owner q0" for q0
proof
  show "rtk_diag_element_length_callback q (of_nat p) = of_nat l" if "owner q0 q ((p, l) # bs)" for q p l bs
    using that q_blocks_length by (simp add: owner_def)
  show "\<exists>q'. rtk_diag_heap_element_remove_callback (of_nat p) q = Some q' \<and> owner q0 q' bs \<and>
      rtk_diag_element_length_callback q' (of_nat p) = of_nat l" if o: "owner q0 q ((p, l) # bs)" for q p l bs
  proof -
    obtain q' where q': "remove_loop (Pool (of_nat p)) q = Some q'" "nodes_ok q'" "q_blocks q' = bs" "gave_up q0 q'"
      using remove_loop_ok [of q p l bs] o by (auto simp: owner_def gave_up_def)
    have "pool q' = pool q" using q'(4) o by (simp add: owner_def gave_up_def lost_def)
    then show ?thesis
      using q' q_blocks_length [of q p l bs] o
      by (auto simp: owner_def rtk_diag_heap_element_remove_callback_def rtk_diag_element_length_callback_def)
  qed
qed

section \<open>The invariant of the queue\<close>

definition q_inv :: "RtkDiagQueue \<Rightarrow> bool" where
  "q_inv q \<longleftrightarrow> nodes_ok q \<and> (\<exists>hs ts. heap_inv (heap_handler q) hs ts \<and> hs @ ts = q_blocks q) \<and>
     140 \<le> unat (hp_capacity (heap_handler q)) \<and>
     unat (total_size q) < 12 * unat (ra_capacity (evt_node_arr q)) + 12 \<and>
     unat (total_capacity q) < 12 * unat (ra_capacity (evt_node_arr q)) + 12"

lemma heap_free_pool:
  "pool q1 = pool q \<Longrightarrow> rtk_diag_heap_free dbg rtk_diag_element_length_callback h q1 =
     rtk_diag_heap_free dbg rtk_diag_element_length_callback h q"
  by (simp add: rtk_diag_heap_free_def rtk_diag_element_length_callback_def)

lemma heap_update [simp]:
  "event_at (q\<lparr>heap_handler := h\<rparr>) = event_at q" "ptr_block (q\<lparr>heap_handler := h\<rparr>) = ptr_block q"
  "ptr_big (q\<lparr>heap_handler := h\<rparr>) = ptr_big q" "ptr_ok (q\<lparr>heap_handler := h\<rparr>) = ptr_ok q"
  by (rule ext, rename_tac x, case_tac x; simp split: option.splits)+

text \<open>The oldest event is gone and, if it was small, its block is given back.\<close>

lemma gone_free:
  assumes inv: "q_inv q" and ns: "nodes q = p # ps" and g: "gone q q1"
  shows "\<exists>q2. (case p of Pool a \<Rightarrow> queue_heap_free dbg q1 | Sys i \<Rightarrow> Some q1) = Some q2 \<and> q_inv q2 \<and> nodes q2 = ps \<and>
    (\<forall>q0. lost q0 q \<longrightarrow> lost q0 q2)"
proof -
  obtain hs ts where H: "heap_inv (heap_handler q) hs ts" "hs @ ts = q_blocks q" using inv by (auto simp: q_inv_def)
  have N: "nodes_ok q" using inv by (simp add: q_inv_def)
  note G = g [unfolded gone_def ns list.sel]
  have l1: "lost q q1" using G N by simp
  have fr: "unat (total_size q1) \<le> unat (total_size q)" "total_capacity q1 = total_capacity q"
    "ra_capacity (evt_node_arr q1) = ra_capacity (evt_node_arr q)" "pool q1 = pool q"
    using l1 by (simp_all add: lost_def)
  show ?thesis
  proof (cases p)
    case (Sys i)
    then have "q_inv q1" using inv G fr H unfolding q_inv_def by auto
    then show ?thesis using Sys G by auto
  next
    case (Pool a)
    let ?l = "unat (EVENT_REAL_SIZE (pool q a))"
    have b: "q_blocks q = (unat a, ?l) # q_blocks q1" using G Pool by simp
    have R: "owner q q ((unat a, ?l) # q_blocks q1)" using N b by (simp add: owner_def gave_up_def)
    obtain h' hs' ts' where h': "rtk_diag_heap_free dbg rtk_diag_element_length_callback (heap_handler q) q = Some (of_nat ?l, h')"
      "heap_inv h' hs' ts'" "hs' @ ts' = q_blocks q1" "hp_capacity h' = hp_capacity (heap_handler q)"
      using qh.free_ok [OF H(1) R, of dbg] H(2) b by auto
    define q2 where "q2 = q1\<lparr>heap_handler := h'\<rparr>"
    have eq: "q_events q2 = q_events q1" "q_blocks q2 = q_blocks q1" "q_big q2 = q_big q1"
      by (simp_all add: q2_def q_events_def q_blocks_def q_big_def)
    have "queue_heap_free dbg q1 = Some q2"
      using h'(1) heap_free_pool [OF fr(4), of dbg] G by (simp add: queue_heap_free_def q2_def)
    moreover have "q_inv q2"
      using inv G fr h' eq unfolding q_inv_def nodes_ok_def by (auto simp: q2_def)
    moreover have "lost q0 q2" if "lost q0 q1" for q0
      using that h'(4) G eq by (simp add: lost_def) (simp add: q2_def)
    ultimately show ?thesis using Pool G by (intro exI [of _ q2]) (auto simp: q2_def)
  qed
qed

lemma evict_step:
  assumes inv: "q_inv q" and ns: "nodes q = p # ps"
    and c: "ra_count (evt_node_arr q) > 0 \<and> ucast (total_size q) + n > ucast (total_capacity q)"
  shows "\<exists>q2. evict_loop dbg n q = evict_loop dbg n q2 \<and> q_inv q2 \<and> nodes q2 = ps \<and> (\<forall>q0. lost q0 q \<longrightarrow> lost q0 q2)"
proof -
  have ok: "nodes_ok q" using inv by (simp add: q_inv_def)
  obtain arr del where pop: "pop_to_deleted q =
      Some (p, the (event_at q p), q\<lparr>evt_node_arr := arr, deleted_evt_arr := del\<rparr>)"
    and arr: "ra_inv arr" "ra_emplace arr = id" "ra_items arr = ps" "ra_capacity arr = ra_capacity (evt_node_arr q)"
    and del: "ra_inv del" "ra_emplace del = del_of" "ra_capacity del = 20"
      "ra_items del = last_n 20 (deleted q @ [del_of (the (event_at q p))])"
    using pop_to_deleted_ok [OF ok ns] by blast
  let ?q1 = "without_oldest q arr del"
  obtain q2 where q2: "(case p of Pool a \<Rightarrow> queue_heap_free dbg ?q1 | Sys i \<Rightarrow> Some ?q1) = Some q2" "q_inv q2" "nodes q2 = ps"
    "\<forall>q0. lost q0 q \<longrightarrow> lost q0 q2"
    using gone_free [OF inv ns gone_step [OF ok ns arr del], of dbg] by blast
  have p: "ptr_ok q p" using ok ns by (simp add: nodes_ok_def)
  have "evict_loop dbg n q = evict_loop dbg n q2"
  proof (cases p)
    case (Pool a)
    then have "evt_len (pool q a) \<le> 128" "queue_heap_free dbg (q\<lparr>evt_node_arr := arr, deleted_evt_arr := del\<rparr>) = Some q2"
      using p q2(1) ns by (auto simp: without_oldest_def)
    then show ?thesis using c pop Pool by (subst evict_loop.simps) simp
  next
    case (Sys i)
    obtain e where e: "sys q i = Some e" "128 < evt_len e" "evt_len e \<le> 2048" using p Sys by (auto split: option.splits)
    then show ?thesis using c pop Sys q2(1) ns by (subst evict_loop.simps) (auto simp: without_oldest_def)
  qed
  then show ?thesis using q2 by blast
qed

lemma evict_loop_ok:
  assumes "q_inv q"
  shows "\<exists>q2. evict_loop dbg n q = Some q2 \<and> q_inv q2 \<and> (\<forall>q0. lost q0 q \<longrightarrow> lost q0 q2) \<and>
    (nodes q2 = [] \<or> \<not> ucast (total_size q2) + n > ucast (total_capacity q2))"
  using assms
proof (induction "nodes q" arbitrary: q)
  case Nil
  then have "ra_count (evt_node_arr q) = 0" using length_ra_items [of "evt_node_arr q"] by (simp add: unat_eq_0 del: length_ra_items)
  then show ?case using Nil by (subst evict_loop.simps) simp
next
  case (Cons p ps)
  show ?case
  proof (cases "ra_count (evt_node_arr q) > 0 \<and> ucast (total_size q) + n > ucast (total_capacity q)")
    case True
    obtain q2 where q2: "evict_loop dbg n q = evict_loop dbg n q2" "q_inv q2" "nodes q2 = ps" "\<forall>q0. lost q0 q \<longrightarrow> lost q0 q2"
      using evict_step [OF Cons.prems Cons.hyps(2) [symmetric] True] by blast
    show ?thesis
      using Cons.hyps(1) [OF q2(3) [symmetric] q2(2)] q2(4) unfolding q2(1) by blast
  next
    case False
    have "0 < ra_count (evt_node_arr q)"
      using length_ra_items [of "evt_node_arr q"] Cons.hyps(2) [symmetric] by (simp add: word_less_nat_alt del: length_ra_items)
    then show ?thesis using Cons False by (subst evict_loop.simps) simp
  qed
qed

section \<open>Room in the array of pointers\<close>

text \<open>Every event takes twelve bytes at least, so the limits on the bytes keep the array from overflowing.\<close>

lemma chain_sum: "chain a bs b \<Longrightarrow> sum_list (map snd bs) = b - a"
proof (induction a bs b rule: chain.induct)
  case (2 a p l bs b)
  then show ?case using chain_le [of "a + l" bs b] by simp
qed simp

lemma heap_sum:
  assumes "heap_inv h hs ts"
  shows "sum_list (map snd (hs @ ts)) \<le> unat (hp_capacity h)"
proof (cases "ts = []")
  case True
  then show ?thesis using assms chain_sum [of "unat (head_begin h)" hs] by (auto simp: heap_inv_def)
next
  case False
  then show ?thesis
    using assms chain_sum [of "unat (head_begin h)" hs] chain_sum [of 0 ts] chain_le [of "unat (head_begin h)" hs]
    by (fastforce simp: heap_inv_def word_le_nat_alt)
qed

lemma nodes_bytes: "12 * length ns \<le> sum_list (map snd (concat (map (ptr_block q) ns))) + sum_list (map (ptr_big q) ns)"
proof (induction ns)
  case (Cons p ns)
  then show ?case by (cases p) (simp_all add: unat_real_size)
qed simp

lemma node_pushed:
  assumes "ra_inv (evt_node_arr q)" and "ra_emplace (evt_node_arr q) = id"
    and "length (nodes q) < unat (ra_capacity (evt_node_arr q))"
  shows "\<exists>arr. ra_push (evt_node_arr q) p = Some arr \<and> ra_inv arr \<and> ra_emplace arr = id \<and> ra_items arr = nodes q @ [p] \<and>
    ra_capacity arr = ra_capacity (evt_node_arr q)"
  using push_not_full [OF assms(1), of p] assms(2,3) by (auto simp: word_unat_eq_iff)

text \<open>Adding an event that is stored at \<open>p\<close>, where none of the queued events is.\<close>

lemma event_store_other:
  assumes "x \<noteq> p"
  shows "event_at (event_store p e q) x = event_at q x" "ptr_ok (event_store p e q) x = ptr_ok q x"
    "ptr_block (event_store p e q) x = ptr_block q x" "ptr_big (event_store p e q) x = ptr_big q x"
proof -
  show "event_at (event_store p e q) x = event_at q x" using assms by (cases p; cases x) simp_all
  show "ptr_ok (event_store p e q) x = ptr_ok q x" using assms by (cases p; cases x) (simp_all split: option.splits)
  show "ptr_block (event_store p e q) x = ptr_block q x" using assms by (cases p; cases x) simp_all
  show "ptr_big (event_store p e q) x = ptr_big q x" using assms by (cases p; cases x) simp_all
qed

lemma event_store_sel [simp]:
  "evt_node_arr (event_store p e q) = evt_node_arr q" "deleted_evt_arr (event_store p e q) = deleted_evt_arr q"
  "heap_handler (event_store p e q) = heap_handler q" "total_size (event_store p e q) = total_size q"
  "total_capacity (event_store p e q) = total_capacity q" "sys_next (event_store p e q) = sys_next q"
  "event_at (event_store p e q) p = Some e"
  by (cases p; simp)+

lemma nodes_update [simp]:
  "event_at (q\<lparr>evt_node_arr := arr, total_size := t\<rparr>) = event_at q" "ptr_block (q\<lparr>evt_node_arr := arr, total_size := t\<rparr>) = ptr_block q"
  "ptr_big (q\<lparr>evt_node_arr := arr, total_size := t\<rparr>) = ptr_big q" "ptr_ok (q\<lparr>evt_node_arr := arr, total_size := t\<rparr>) = ptr_ok q"
  by (rule ext, rename_tac x, case_tac x; simp split: option.splits)+

lemma added:
  assumes ok: "nodes_ok q" and p: "p \<notin> set (nodes q)" "ptr_ok (event_store p e q) p"
    and arr: "ra_inv arr" "ra_emplace arr = id" "ra_items arr = nodes q @ [p]"
    and t: "unat t = unat (total_size q) + ptr_big (event_store p e q) p"
  shows "nodes_ok ((event_store p e q)\<lparr>evt_node_arr := arr, total_size := t\<rparr>)"
    and "q_events ((event_store p e q)\<lparr>evt_node_arr := arr, total_size := t\<rparr>) = q_events q @ [e]"
    and "q_blocks ((event_store p e q)\<lparr>evt_node_arr := arr, total_size := t\<rparr>) = q_blocks q @ ptr_block (event_store p e q) p"
proof -
  let ?s = "event_store p e q"
  have o: "event_at ?s x = event_at q x" "ptr_ok ?s x = ptr_ok q x" "ptr_block ?s x = ptr_block q x" "ptr_big ?s x = ptr_big q x"
    if "x \<in> set (nodes q)" for x
    using event_store_other [of x p e q] that p(1) by auto
  show "q_events (?s\<lparr>evt_node_arr := arr, total_size := t\<rparr>) = q_events q @ [e]"
    using o(1) by (simp add: q_events_def arr(3))
  show "q_blocks (?s\<lparr>evt_node_arr := arr, total_size := t\<rparr>) = q_blocks q @ ptr_block ?s p"
    using o(3) by (simp add: q_blocks_def arr(3) cong: map_cong)
  have "q_big (?s\<lparr>evt_node_arr := arr, total_size := t\<rparr>) = q_big q + ptr_big ?s p"
    using o(4) by (simp add: q_big_def arr(3) cong: map_cong)
  then show "nodes_ok (?s\<lparr>evt_node_arr := arr, total_size := t\<rparr>)"
    using ok p arr t o(2) by (auto simp: nodes_ok_def)
qed

section \<open>Adding an event\<close>

lemma event_len_bounds:
  "unat (12 + ucast (len :: u16) :: u32) = 12 + unat len" "(0 :: u32) < 12 + ucast len"
  "unat len \<le> 2048 \<Longrightarrow> unat (ucast (12 + ucast len :: u32) :: u16) = 12 + unat len"
proof -
  have "unat (12 + ucast len :: u32) = unat (12 :: u32) + unat (ucast len :: u32)"
    using unat_lt_u16 [of len] by (intro unat_add_no_wrap) (simp del: unat_lt_u16)
  then show e: "unat (12 + ucast len :: u32) = 12 + unat len" by simp
  then show "(0 :: u32) < 12 + ucast len" by (simp add: word_less_nat_alt)
  show "unat (ucast (12 + ucast len :: u32) :: u16) = 12 + unat len" if "unat len \<le> 2048"
    using that e by (subst unat_ucast_u32_u16) simp_all
qed

text \<open>The new block is none of those that are in use.\<close>

lemma new_block_fresh:
  assumes "heap_inv h hs ts" and "hs @ ts = bs @ [(unat a, n)]" and "bs = q_blocks q"
  shows "Pool a \<notin> set (nodes q)"
proof
  assume "Pool a \<in> set (nodes q)"
  then have "(unat a, unat (EVENT_REAL_SIZE (pool q a))) \<in> set bs"
    using assms(3) by (force simp: q_blocks_def)
  then obtain l where l: "(unat a, l) \<in> set bs" "(unat a, l) \<in> set (hs @ ts)" "(unat a, n) \<in> set (hs @ ts)"
    using assms(2) by auto
  have d: "distinct (hs @ ts)" "\<forall>x \<in> set (hs @ ts). \<forall>y \<in> set (hs @ ts). x \<noteq> y \<longrightarrow> block_bytes x \<inter> block_bytes y = {}"
    using heap_blocks_disjoint [OF assms(1)] by auto
  have ne: "(unat a, l) \<noteq> (unat a, n)" using d(1) l(1) assms(2) by auto
  have pos: "0 < snd x" if "x \<in> set (hs @ ts)" for x
    using that assms(1) by (auto simp: heap_inv_def dest: chain_block split: if_splits)
  have "unat a \<in> block_bytes (unat a, l) \<inter> block_bytes (unat a, n)"
    using pos [OF l(2)] pos [OF l(3)] by (auto simp: block_bytes_def)
  then show False using d(2) l(2,3) ne by blast
qed

text \<open>What an enqueue that succeeds leaves behind: some of the oldest events are given up and remembered,
  the new one is the last.\<close>

definition enqueued :: "RtkDiagQueue \<Rightarrow> RtkDiagEvent list \<Rightarrow> RtkDiagQueue \<Rightarrow> bool" where
  "enqueued q es q' \<longleftrightarrow> q_inv q' \<and> (\<exists>k \<le> length (q_events q). q_events q' = drop k (q_events q) @ es \<and>
     deleted q' = last_n 20 (deleted q @ map del_of (take k (q_events q))))"

lemma lost_enqueued: "q_inv q' \<Longrightarrow> lost q q' \<Longrightarrow> enqueued q [] q'"
  by (auto simp: enqueued_def lost_def)

lemma add_event:
  assumes ok: "nodes_ok q" and l: "lost q0 q" and h: "heap_inv (heap_handler q) hs ts" "hs @ ts = q_blocks q @ ptr_block (event_store p e q) p"
    and c: "140 \<le> unat (hp_capacity (heap_handler q))"
    and p: "p \<notin> set (nodes q)" "ptr_ok (event_store p e q) p"
    and t: "unat t = unat (total_size q) + ptr_big (event_store p e q) p" "unat t < 12 * unat (ra_capacity (evt_node_arr q)) + 12"
      "unat (total_capacity q) < 12 * unat (ra_capacity (evt_node_arr q)) + 12"
  shows "\<exists>arr. ra_push (evt_node_arr q) p = Some arr \<and>
    enqueued q0 [e] ((event_store p e q)\<lparr>evt_node_arr := arr, total_size := t\<rparr>)"
proof -
  let ?s = "event_store p e q"
  have b: "12 * length (nodes q) \<le> sum_list (map snd (q_blocks q)) + q_big q"
    using nodes_bytes [of "nodes q" q] by (simp add: q_blocks_def q_big_def)
  have b1: "12 \<le> sum_list (map snd (ptr_block ?s p)) + ptr_big ?s p" by (cases p) (simp_all add: unat_real_size)
  have "sum_list (map snd (q_blocks q)) + sum_list (map snd (ptr_block ?s p)) \<le> unat (hp_capacity (heap_handler q))"
    using heap_sum [OF h(1)] unfolding h(2) by simp
  then have "length (nodes q) < unat (ra_capacity (evt_node_arr q))"
    using b b1 t ok by (simp add: nodes_ok_def)
  then obtain arr where arr: "ra_push (evt_node_arr q) p = Some arr" "ra_inv arr" "ra_emplace arr = id"
    "ra_items arr = nodes q @ [p]" "ra_capacity arr = ra_capacity (evt_node_arr q)"
    using node_pushed [of q p] ok by (auto simp: nodes_ok_def)
  note a = added [OF ok p arr(2-4) t(1)]
  have "q_inv (?s\<lparr>evt_node_arr := arr, total_size := t\<rparr>)"
    using a(1,3) h c t(2,3) arr(5) by (auto simp: q_inv_def)
  then show ?thesis using arr(1) a(2) l by (auto simp: enqueued_def lost_def)
qed

lemma enqueue_little:
  assumes inv: "q_inv q" and len: "len \<le> 128"
  shows "\<exists>q'. rtk_diag_queue_enqueue dbg ok q t lv ty info len = Some (RTK_SUCCESS, q') \<and>
    enqueued q [\<lparr>evt_type = ty, evt_len = len, evt_time = t, evt_level = lv, evt_info = take (unat len) info\<rparr>] q'"
proof -
  let ?e = "\<lparr>evt_type = ty, evt_len = len, evt_time = t, evt_level = lv, evt_info = take (unat len) info\<rparr>"
  let ?n = "12 + ucast len :: u32"
  obtain hs ts where H: "heap_inv (heap_handler q) hs ts" "hs @ ts = q_blocks q" using inv by (auto simp: q_inv_def)
  have N: "nodes_ok q" and cap: "140 \<le> unat (hp_capacity (heap_handler q))" using inv by (simp_all add: q_inv_def)
  have R: "owner q q (hs @ ts)" using N H(2) by (simp add: owner_def gave_up_def)
  have le: "?n \<le> hp_capacity (heap_handler q)"
    using cap len by (simp add: word_le_nat_alt event_len_bounds)
  obtain res h q1 k hs' ts' where m: "rtk_diag_heap_malloc dbg rtk_diag_element_length_callback
      rtk_diag_heap_element_remove_callback (heap_handler q) ?n q = Some (Some res, h, q1)"
    "heap_inv h hs' ts'" "hp_capacity h = hp_capacity (heap_handler q)"
    "hs' @ ts' = drop k (hs @ ts) @ [(unat res, unat ?n)]" "owner q q1 (drop k (hs @ ts))"
    using qh.malloc_ok [OF H(1) R event_len_bounds(2) le, of dbg] unfolding allocated_def by blast
  let ?q2 = "q1\<lparr>heap_handler := h\<rparr>"
  have o: "nodes_ok q1" "q_blocks q1 = drop k (hs @ ts)" "lost q q1" using m(5) by (simp_all add: owner_def gave_up_def)
  have same: "q_blocks ?q2 = q_blocks q1" "q_events ?q2 = q_events q1" "q_big ?q2 = q_big q1"
    by (simp_all add: q_blocks_def q_events_def q_big_def)
  have N2: "nodes_ok ?q2" and L2: "lost q ?q2" using o(1,3) m(3) m(5) same
    by (simp_all add: nodes_ok_def lost_def owner_def gave_up_def)
  have fresh: "Pool res \<notin> set (nodes ?q2)"
    using new_block_fresh [OF m(2,4), of q1] o(2) by simp
  have "unat (total_size q1) < 12 * unat (ra_capacity (evt_node_arr q1)) + 12"
    "unat (total_capacity q1) < 12 * unat (ra_capacity (evt_node_arr q1)) + 12"
    using inv o(3) by (simp_all add: q_inv_def lost_def)
  then obtain arr where "ra_push (evt_node_arr ?q2) (Pool res) = Some arr"
    "enqueued q [?e] ((event_store (Pool res) ?e ?q2)\<lparr>evt_node_arr := arr, total_size := total_size q1\<rparr>)"
    using add_event [OF N2 L2, of hs' ts' "Pool res" ?e "total_size q1"] m(2-4) o(2) cap fresh len same
    by (auto simp: EVENT_REAL_SIZE_def)
  moreover have "rtk_diag_queue_enqueue dbg ok q t lv ty info len =
      map_option (\<lambda>arr. (RTK_SUCCESS, (event_store (Pool res) ?e ?q2)\<lparr>evt_node_arr := arr\<rparr>)) (ra_push (evt_node_arr ?q2) (Pool res))"
  proof -
    have "\<not> 2048 < len" "\<not> 128 < len" using len by (simp_all add: word_le_nat_alt word_less_nat_alt)
    then show ?thesis
      using len m(1) by (cases "ra_push (evt_node_arr q1) (Pool res)")
        (simp_all add: rtk_diag_queue_enqueue_def event_malloc_def Let_def)
  qed
  ultimately show ?thesis by simp
qed

lemma limit_sums:
  assumes "len \<le> 2048" and "\<not> ucast (sz :: u16) + (12 + ucast (len :: u16)) > (ucast (cap :: u16) :: u32)"
  shows "unat (sz + ucast (12 + ucast len :: u32) :: u16) = unat sz + (12 + unat len)"
    and "unat sz + (12 + unat len) \<le> unat cap"
proof -
  have "unat (ucast sz + (12 + ucast len) :: u32) = unat sz + (12 + unat len)"
    using unat_add_no_wrap [of "ucast sz" "12 + ucast len"] event_len_bounds(1) [of len]
      unat_lt_u16 [of sz] unat_lt_u16 [of len] by (simp del: unat_lt_u16)
  then show le: "unat sz + (12 + unat len) \<le> unat cap" using assms(2) by (simp add: word_less_nat_alt)
  have n: "unat (ucast (12 + ucast len :: u32) :: u16) = 12 + unat len"
    using event_len_bounds(3) [of len] assms(1) by (simp add: word_le_nat_alt)
  moreover have "unat sz + unat (ucast (12 + ucast len :: u32) :: u16) < 65536"
    using le unat_lt_u16 [of cap] unfolding n by linarith
  ultimately show "unat (sz + ucast (12 + ucast len :: u32) :: u16) = unat sz + (12 + unat len)"
    by (simp add: unat_word_ariths)
qed

text \<open>Taking a new block of the system heap changes nothing for the events.\<close>

lemma sys_next_update:
  assumes "nodes_ok q"
  shows "nodes_ok (q\<lparr>sys_next := sys_next q + 1\<rparr>)" and "q_events (q\<lparr>sys_next := sys_next q + 1\<rparr>) = q_events q"
    and "q_blocks (q\<lparr>sys_next := sys_next q + 1\<rparr>) = q_blocks q" and "Sys (sys_next q) \<notin> set (nodes q)"
proof -
  let ?q = "q\<lparr>sys_next := sys_next q + 1\<rparr>"
  have e: "event_at ?q x = event_at q x" "ptr_block ?q x = ptr_block q x" "ptr_big ?q x = ptr_big q x" "ptr_ok q x \<Longrightarrow> ptr_ok ?q x" for x
    by (cases x; auto split: option.splits)+
  have f: "event_at ?q = event_at q" "ptr_block ?q = ptr_block q" "ptr_big ?q = ptr_big q" using e(1-3) by (auto intro!: ext)
  show "nodes_ok ?q" using assms e(4) f by (simp add: nodes_ok_def q_big_def)
  show "q_events ?q = q_events q" "q_blocks ?q = q_blocks q" using f by (simp_all add: q_events_def q_blocks_def)
  show "Sys (sys_next q) \<notin> set (nodes q)" using assms by (force simp: nodes_ok_def split: option.splits)
qed

lemma enqueue_big:
  assumes inv: "q_inv q" and len: "128 < len" "len \<le> 2048"
  shows "\<exists>r q'. rtk_diag_queue_enqueue dbg ok q t lv ty info len = Some (r, q') \<and>
    enqueued q (if r = RTK_SUCCESS
      then [\<lparr>evt_type = ty, evt_len = len, evt_time = t, evt_level = lv, evt_info = take (unat len) info\<rparr>] else []) q'"
proof -
  let ?e = "\<lparr>evt_type = ty, evt_len = len, evt_time = t, evt_level = lv, evt_info = take (unat len) info\<rparr>"
  let ?n = "12 + ucast len :: u32"
  have l: "\<not> 2048 < len" "\<not> len \<le> 128" using len by (simp_all add: word_le_nat_alt word_less_nat_alt)
  have N: "nodes_ok q" using inv by (simp add: q_inv_def)
  obtain q1 where q1: "evict_loop dbg ?n q = Some q1" "q_inv q1" "lost q q1"
    using evict_loop_ok [OF inv, of dbg ?n] N by auto
  have N1: "nodes_ok q1" using q1(2) by (simp add: q_inv_def)
  show ?thesis
  proof (cases "ucast (total_size q1) + ?n > ucast (total_capacity q1) \<or> \<not> ok")
    case True
    then have "\<exists>r. rtk_diag_queue_enqueue dbg ok q t lv ty info len = Some (r, q1) \<and> r \<noteq> RTK_SUCCESS"
      using l len q1(1) by (auto simp: rtk_diag_queue_enqueue_def event_malloc_def Let_def diag_codes)
    then show ?thesis using lost_enqueued [OF q1(2,3)] by auto
  next
    case False
    have F: "\<not> ucast (total_size q1) + ?n > (ucast (total_capacity q1) :: u32)" "ok" using False by auto
    note lim = limit_sums [OF len(2) F(1)]
    let ?p = "Sys (sys_next q1)" and ?q2 = "q1\<lparr>sys_next := sys_next q1 + 1\<rparr>" and ?t = "total_size q1 + ucast ?n"
    note u = sys_next_update [OF N1]
    obtain hs ts where H: "heap_inv (heap_handler q1) hs ts" "hs @ ts = q_blocks q1" using q1(2) by (auto simp: q_inv_def)
    have cap: "unat (total_capacity q1) < 12 * unat (ra_capacity (evt_node_arr q1)) + 12"
      "140 \<le> unat (hp_capacity (heap_handler q1))" using q1(2) by (simp_all add: q_inv_def)
    have L2: "lost q ?q2" using q1(3) u(2) by (simp add: lost_def)
    obtain arr where "ra_push (evt_node_arr ?q2) ?p = Some arr"
      "enqueued q [?e] ((event_store ?p ?e ?q2)\<lparr>evt_node_arr := arr, total_size := ?t\<rparr>)"
      using add_event [OF u(1) L2, of hs ts ?p ?e ?t] H u(3,4) len lim cap by (auto simp: unat_real_size)
    then have "rtk_diag_queue_enqueue dbg ok q t lv ty info len =
        Some (RTK_SUCCESS, (event_store ?p ?e ?q2)\<lparr>evt_node_arr := arr, total_size := ?t\<rparr>) \<and>
        enqueued q [?e] ((event_store ?p ?e ?q2)\<lparr>evt_node_arr := arr, total_size := ?t\<rparr>)"
      using l len F q1(1) by (simp add: rtk_diag_queue_enqueue_def event_malloc_def Let_def)
    then show ?thesis by auto
  qed
qed

lemma enqueue_any:
  assumes "q_inv q"
  shows "\<exists>r q'. rtk_diag_queue_enqueue dbg ok q t lv ty info len = Some (r, q') \<and>
    enqueued q (if r = RTK_SUCCESS
      then [\<lparr>evt_type = ty, evt_len = len, evt_time = t, evt_level = lv, evt_info = take (unat len) info\<rparr>] else []) q' \<and>
    (len \<le> 128 \<longrightarrow> r = RTK_SUCCESS) \<and> (r = RTK_SUCCESS \<longrightarrow> len \<le> 2048)"
proof -
  consider "len \<le> 128" | "128 < len" "len \<le> 2048" | "2048 < len" by fastforce
  then show ?thesis
  proof cases
    case 1
    moreover have "len \<le> 2048" using 1 by (simp add: word_le_nat_alt)
    ultimately show ?thesis using enqueue_little [OF assms 1, of dbg ok t lv ty info] by auto
  next
    case 2
    then have "\<not> len \<le> 128" by simp
    then show ?thesis using enqueue_big [OF assms 2, of dbg ok t lv ty info] 2(2) by blast
  next
    case 3
    then have "rtk_diag_queue_enqueue dbg ok q t lv ty info len = Some (RTK_ERR_DIAG_TOO_LARGE_BUFF, q)" "\<not> len \<le> 128"
      by (auto simp: rtk_diag_queue_enqueue_def word_less_nat_alt word_le_nat_alt)
    moreover have "enqueued q [] q" using assms by (intro lost_enqueued) (simp_all add: q_inv_def)
    ultimately show ?thesis by (auto simp: diag_codes)
  qed
qed

text \<open>
  C7. Adding an event keeps the queue well formed and does to the list of queued events what it should:
  some of the oldest are given up and remembered as deleted, in order, and the new one, if it was accepted,
  is the last. The blocks of the event heap never overlap and none of the assertions of the heap fails. An
  event of up to 128 bytes is always accepted.
\<close>

theorem queue_enqueue_refines:
  assumes "q_inv q"
  shows "\<exists>r q' k. rtk_diag_queue_enqueue dbg ok q t lv ty info len = Some (r, q') \<and> q_inv q' \<and> k \<le> length (q_events q) \<and>
    q_events q' = drop k (q_events q) @ (if r = RTK_SUCCESS
      then [\<lparr>evt_type = ty, evt_len = len, evt_time = t, evt_level = lv, evt_info = take (unat len) info\<rparr>] else []) \<and>
    deleted q' = last_n 20 (deleted q @ map rtk_diag_deleted_event_emplace_callback (take k (q_events q))) \<and>
    (len \<le> 128 \<longrightarrow> r = RTK_SUCCESS)"
  using enqueue_any [OF assms, of dbg ok t lv ty info len] by (fastforce simp: enqueued_def del_of_def)

section \<open>Setting up\<close>

lemma queue_init_inv:
  assumes "140 \<le> heap_cap" and "heap_cap \<le> total_cap"
  shows "\<exists>q. rtk_diag_queue_init True True True True junk junk_del junk_ptr heap_cap total_cap = (RTK_SUCCESS, Some q) \<and>
    q_inv q \<and> q_events q = [] \<and> deleted q = [] \<and> total_size q = heap_cap \<and> total_capacity q = total_cap"
proof -
  have c: "140 \<le> unat heap_cap" "unat heap_cap \<le> unat total_cap" using assms by (simp_all add: word_le_nat_alt)
  have d: "unat (ucast total_cap div 12 :: u32) = unat total_cap div 12" by (simp add: unat_div)
  have dl: "unat total_cap div 12 < 2147483648"
    using unat_lt_u16 [of total_cap] div_le_dividend [of "unat total_cap" 12] by (simp del: unat_lt_u16)
  have d0: "0 < unat total_cap div 12" using c by (simp add: div_greater_zero_iff)
  have mn: "\<not> (ucast heap_cap :: u32) < RTK_DIAG_HEAP_SIZE_MIN"
    using c(1) by (simp add: RTK_DIAG_HEAP_SIZE_MIN_def word_less_nat_alt)
  obtain del where del: "rtk_diag_ring_array_create True junk_del 20 8 rtk_diag_deleted_event_emplace_callback = Some del"
    "ra_inv del" "ra_items del = []" "ra_capacity del = 20" "ra_emplace del = rtk_diag_deleted_event_emplace_callback"
    using create_inv [of 20 junk_del 8 rtk_diag_deleted_event_emplace_callback] by auto
  obtain arr where arr: "rtk_diag_ring_array_create True junk_ptr (ucast total_cap div 12) 4 id = Some arr"
    "ra_inv arr" "ra_items arr = []" "ra_capacity arr = ucast total_cap div 12" "ra_emplace arr = id"
    using create_inv [of "ucast total_cap div 12" junk_ptr 4 id] d0 dl by (auto simp: d)
  obtain h where h: "rtk_diag_heap_create True (ucast heap_cap) = Some h" "heap_inv h [] []" "hp_capacity h = ucast heap_cap"
  proof -
    obtain h where h: "rtk_diag_heap_create True (ucast heap_cap) = Some h"
      using mn by (simp add: rtk_diag_heap_create_def)
    then show ?thesis
      using heap_create_inv [OF h] that less_trans [OF unat_lt_u16 [of heap_cap]] by simp
  qed
  let ?q = "junk\<lparr>heap_handler := h, deleted_evt_arr := del, evt_node_arr := arr, total_size := heap_cap, total_capacity := total_cap\<rparr>"
  have "q_inv ?q"
    using del arr h c d by (auto simp: q_inv_def nodes_ok_def q_blocks_def q_big_def)
  then show ?thesis
    using del arr h by (intro exI [of _ ?q]) (simp add: rtk_diag_queue_init_def q_events_def)
qed

definition junk_queue :: RtkDiagQueue where
  "junk_queue = \<lparr>heap_handler = \<lparr>magic = 0, hdr_ver = 0, build_time = 0, hp_capacity = 0, head_begin = 0, head_end = 0,
       tail_begin = 0, tail_end = 0, used_size = 0\<rparr>,
     deleted_evt_arr = \<lparr>ra_capacity = 0, ra_element_size = 0, ra_head = 0, ra_tail = 0, ra_count = 0,
       ra_emplace = rtk_diag_deleted_event_emplace_callback, ra_data = []\<rparr>,
     evt_node_arr = \<lparr>ra_capacity = 0, ra_element_size = 0, ra_head = 0, ra_tail = 0, ra_count = 0, ra_emplace = id, ra_data = []\<rparr>,
     prev_find_node = 0, total_size = 0, total_capacity = 0,
     pool = \<lambda>_. \<lparr>evt_type = 0, evt_len = 0, evt_time = 0, evt_level = 0, evt_info = []\<rparr>, sys = \<lambda>_. None, sys_next = 0\<rparr>"

text \<open>The queue as \<open>rtk_diag_init\<close> sets it up.\<close>

definition new_queue :: RtkDiagQueue where
  "new_queue = the (snd (rtk_diag_queue_init True True True True junk_queue \<lparr>del_time = 0, del_type = 0, del_len = 0\<rparr> (Sys 0) 2048 4096))"

lemma new_queue_inv: "q_inv new_queue" "q_events new_queue = []" "deleted new_queue = []" "total_size new_queue = 2048"
    "total_capacity new_queue = 4096"
  using queue_init_inv [of 2048 4096 junk_queue "\<lparr>del_time = 0, del_type = 0, del_len = 0\<rparr>" "Sys 0"]
  by (auto simp: new_queue_def word_le_nat_alt)

theorem queue_enqueue_refines_witness:
  "\<exists>r q'. rtk_diag_queue_enqueue True True new_queue 5 1 7 [1, 2, 3] 3 = Some (r, q') \<and> q_inv q' \<and> r = RTK_SUCCESS \<and>
     q_events q' = [\<lparr>evt_type = 7, evt_len = 3, evt_time = 5, evt_level = 1, evt_info = [1, 2, 3]\<rparr>]"
proof -
  have len: "(3 :: u16) \<le> 128" by (simp add: word_le_nat_alt)
  show ?thesis
    using queue_enqueue_refines [OF new_queue_inv(1), of True True 5 1 7 "[1, 2, 3]" 3] len new_queue_inv(2) by auto
qed

section \<open>Removing events\<close>

text \<open>Discarding the oldest event: the array loses it and its memory is given back, in either order.\<close>

definition discarded :: "RtkDiagQueue \<Rightarrow> RtkDiagQueue \<Rightarrow> bool" where
  "discarded q q' \<longleftrightarrow> q_inv q' \<and> nodes q' = tl (nodes q) \<and> q_events q' = tl (q_events q) \<and> deleted q' = deleted q \<and>
     total_size q' = total_size q \<and> total_capacity q' = total_capacity q"

definition discard_state :: "evt_ptr \<Rightarrow> (evt_ptr, evt_ptr) RingArray \<Rightarrow> DiagHeap \<Rightarrow> RtkDiagQueue \<Rightarrow> RtkDiagQueue" where
  "discard_state p arr h q = (case p of
     Pool a \<Rightarrow> q\<lparr>evt_node_arr := arr, heap_handler := h\<rparr>
   | Sys i \<Rightarrow> q\<lparr>evt_node_arr := arr, sys := (sys q)(i := None)\<rparr>)"

lemma discard_state_other:
  assumes "nodes q = p # ps" and "distinct (nodes q)" and "x \<in> set ps"
  shows "event_at (discard_state p arr h q) x = event_at q x" "ptr_ok (discard_state p arr h q) x = ptr_ok q x"
    "ptr_block (discard_state p arr h q) x = ptr_block q x" "ptr_big (discard_state p arr h q) x = ptr_big q x"
proof -
  have [simp]: "sys (discard_state p arr h q) i = sys q i" if "x = Sys i" for i
    using assms that by (cases p) (auto simp: discard_state_def)
  have [simp]: "pool (discard_state p arr h q) = pool q" "sys_next (discard_state p arr h q) = sys_next q"
    by (simp_all add: discard_state_def split: evt_ptr.splits)
  show "event_at (discard_state p arr h q) x = event_at q x" by (cases x) simp_all
  show "ptr_ok (discard_state p arr h q) x = ptr_ok q x" by (cases x) (simp_all split: option.splits)
  show "ptr_block (discard_state p arr h q) x = ptr_block q x" by (cases x) simp_all
  show "ptr_big (discard_state p arr h q) x = ptr_big q x" by (cases x) simp_all
qed

lemma discard_state_ok:
  assumes inv: "q_inv q" and ns: "nodes q = p # ps"
    and arr: "ra_inv arr" "ra_emplace arr = id" "ra_items arr = ps" "ra_capacity arr = ra_capacity (evt_node_arr q)"
    and h: "case p of Pool a \<Rightarrow> \<exists>hs ts. heap_inv h hs ts \<and> ptr_block q p @ hs @ ts = q_blocks q \<and> hp_capacity h = hp_capacity (heap_handler q)
      | Sys i \<Rightarrow> True"
  shows "discarded q (discard_state p arr h q)"
proof -
  let ?q = "discard_state p arr h q"
  have sel: "evt_node_arr ?q = arr" "deleted_evt_arr ?q = deleted_evt_arr q" "total_size ?q = total_size q"
    "total_capacity ?q = total_capacity q" "heap_handler ?q = (case p of Pool a \<Rightarrow> h | Sys i \<Rightarrow> heap_handler q)"
    by (simp_all add: discard_state_def split: evt_ptr.splits)
  have N: "nodes_ok q" using inv by (simp add: q_inv_def)
  then have d: "distinct (nodes q)" by (simp add: nodes_ok_def)
  note o = discard_state_other [OF ns d]
  have big: "q_big q = ptr_big q p + q_big ?q" using o(4) by (simp add: q_big_def ns sel arr(3) cong: map_cong)
  have blk: "q_blocks q = ptr_block q p @ q_blocks ?q" using o(3) by (simp add: q_blocks_def ns sel arr(3) cong: map_cong)
  have ev: "q_events ?q = tl (q_events q)" using o(1) by (simp add: q_events_def ns sel arr(3))
  have "(\<exists>hs ts. heap_inv (heap_handler ?q) hs ts \<and> hs @ ts = q_blocks ?q) \<and>
    hp_capacity (heap_handler ?q) = hp_capacity (heap_handler q)"
  proof (cases p)
    case (Pool a)
    then show ?thesis using h blk sel(5) by auto
  next
    case (Sys i)
    then show ?thesis using inv blk sel(5) by (simp add: q_inv_def)
  qed
  then have hp: "\<exists>hs ts. heap_inv (heap_handler ?q) hs ts \<and> hs @ ts = q_blocks ?q"
    "hp_capacity (heap_handler ?q) = hp_capacity (heap_handler q)" by simp_all
  have "nodes_ok ?q" using N ns o(2) big hp(2) arr by (auto simp: nodes_ok_def sel)
  then have "q_inv ?q" using inv hp sel arr(4) by (simp add: q_inv_def)
  then show ?thesis using ev sel arr(3) ns by (simp add: discarded_def)
qed

lemma discard_step:
  assumes inv: "q_inv q" and ns: "nodes q = p # ps"
  shows "\<exists>arr q' q1. ra_pop (evt_node_arr q) = Some (p, arr) \<and> event_at q p = Some (hd (q_events q)) \<and>
    event_discard dbg p (hd (q_events q)) (q\<lparr>evt_node_arr := arr\<rparr>) = Some q' \<and> discarded q q' \<and>
    event_discard dbg p (hd (q_events q)) q = Some q1 \<and> evt_node_arr q1 = evt_node_arr q \<and> q1\<lparr>evt_node_arr := arr\<rparr> = q'"
proof -
  obtain hs ts where H: "heap_inv (heap_handler q) hs ts" "hs @ ts = q_blocks q" using inv by (auto simp: q_inv_def)
  have N: "nodes_ok q" using inv by (simp add: q_inv_def)
  obtain arr where arr: "ra_pop (evt_node_arr q) = Some (p, arr)" "ra_inv arr" "ra_capacity arr = ra_capacity (evt_node_arr q)"
    "ra_emplace arr = id" "ra_items arr = ps"
    using ra_pop_items [of "evt_node_arr q" p ps] N ns by (auto simp: nodes_ok_def)
  have pk: "ptr_ok q p" using N ns by (simp add: nodes_ok_def)
  have hd: "hd (q_events q) = the (event_at q p)" by (simp add: q_events_def ns)
  show ?thesis
  proof (cases p)
    case (Sys i)
    then obtain e where e: "sys q i = Some e" "128 < evt_len e" "evt_len e \<le> 2048" using pk by (auto split: option.splits)
    have "discarded q (discard_state p arr (heap_handler q) q)"
      by (rule discard_state_ok [OF inv ns arr(2,4,5,3)]) (simp add: Sys)
    then show ?thesis
      using arr(1) e Sys hd by (simp add: event_discard_def discard_state_def word_less_nat_alt word_le_nat_alt)
  next
    case (Pool a)
    obtain bs where bl: "q_blocks q = (unat a, unat (EVENT_REAL_SIZE (pool q a))) # bs" by (simp add: q_blocks_def ns Pool)
    have R: "owner q q ((unat a, unat (EVENT_REAL_SIZE (pool q a))) # bs)" using N bl by (simp add: owner_def gave_up_def)
    obtain h' hs' ts' where h': "rtk_diag_heap_free dbg rtk_diag_element_length_callback (heap_handler q) q = Some (EVENT_REAL_SIZE (pool q a), h')"
      "heap_inv h' hs' ts'" "hs' @ ts' = bs" "hp_capacity h' = hp_capacity (heap_handler q)"
      using qh.free_ok [OF H(1) R, of dbg] H(2) bl by auto
    have "discarded q (discard_state p arr h' q)"
      by (rule discard_state_ok [OF inv ns arr(2,4,5,3)]) (use h' bl Pool in auto)
    moreover have "rtk_diag_heap_free dbg rtk_diag_element_length_callback (heap_handler q) (q\<lparr>evt_node_arr := arr\<rparr>) =
        Some (EVENT_REAL_SIZE (pool q a), h')" using h'(1) heap_free_pool [of "q\<lparr>evt_node_arr := arr\<rparr>" q dbg] by simp
    ultimately show ?thesis
      using arr(1) Pool hd pk h'(1)
      by (intro exI [of _ arr] exI [of _ "q\<lparr>evt_node_arr := arr, heap_handler := h'\<rparr>"] exI [of _ "q\<lparr>heap_handler := h'\<rparr>"])
         (simp add: event_discard_def discard_state_def queue_heap_free_def)
  qed
qed

lemma nodes_Nil: "nodes q = [] \<longleftrightarrow> ra_count (evt_node_arr q) = 0"
  using length_ra_items [of "evt_node_arr q"] by (auto simp: ra_items_def unat_eq_0)

lemma nodes_events: "nodes q = [] \<longleftrightarrow> q_events q = []"
  by (simp add: q_events_def)

lemma clear_loop_ok:
  assumes "q_inv q"
  shows "\<exists>q'. clear_loop dbg q = Some q' \<and> q_inv q' \<and> q_events q' = [] \<and> deleted q' = deleted q \<and>
    total_size q' = total_size q \<and> total_capacity q' = total_capacity q"
  using assms
proof (induction "nodes q" arbitrary: q)
  case Nil
  then have "ra_pop (evt_node_arr q) = None" using nodes_Nil [of q] by (simp add: ra_pop_def)
  then show ?case using Nil by (subst clear_loop.simps) (simp add: q_events_def)
next
  case (Cons p ps)
  obtain arr q' where s: "ra_pop (evt_node_arr q) = Some (p, arr)" "event_at q p = Some (hd (q_events q))"
    "event_discard dbg p (hd (q_events q)) (q\<lparr>evt_node_arr := arr\<rparr>) = Some q'" "discarded q q'"
    using discard_step [OF Cons.prems Cons.hyps(2) [symmetric], of dbg] by blast
  have "clear_loop dbg q = clear_loop dbg q'" using s(1-3) by (subst clear_loop.simps) simp
  moreover have "ps = nodes q'" "q_inv q'" using s(4) Cons.hyps(2) [symmetric] by (simp_all add: discarded_def)
  ultimately show ?case using Cons.hyps(1) [of q'] s(4) by (auto simp: discarded_def)
qed

text \<open>The loop that deletes up to a time, or everything.\<close>

definition keeps_from :: "u32 option \<Rightarrow> RtkDiagEvent list \<Rightarrow> RtkDiagEvent list" where
  "keeps_from ts es = dropWhile (\<lambda>e. case ts of None \<Rightarrow> True | Some t \<Rightarrow> evt_time e \<le> t) es"

lemma del_loop_ok:
  assumes "q_inv q"
  shows "\<exists>q'. del_loop dbg ts q c = Some (c + of_nat (length (q_events q) - length (keeps_from ts (q_events q))), q') \<and>
    q_inv q' \<and> q_events q' = keeps_from ts (q_events q) \<and> deleted q' = deleted q"
  using assms
proof (induction "nodes q" arbitrary: q c)
  case Nil
  then have "ra_count (evt_node_arr q) = 0" using nodes_Nil [of q] by simp
  then show ?case using Nil by (subst del_loop.simps) (simp add: q_events_def keeps_from_def)
next
  case (Cons p ps)
  have ns: "nodes q = p # ps" using Cons.hyps(2) by simp
  obtain arr q' q1 where s: "ra_pop (evt_node_arr q) = Some (p, arr)" "event_at q p = Some (hd (q_events q))"
    "discarded q q'" "event_discard dbg p (hd (q_events q)) q = Some q1" "evt_node_arr q1 = evt_node_arr q"
    "q1\<lparr>evt_node_arr := arr\<rparr> = q'"
    using discard_step [OF Cons.prems ns, of dbg] by blast
  let ?stop = "case ts of None \<Rightarrow> False | Some t \<Rightarrow> evt_time (hd (q_events q)) > t"
  have n: "ra_count (evt_node_arr q) > 0" using nodes_Nil [of q] ns by (simp add: word_neq_0_conv)
  have g: "ra_get (evt_node_arr q) 0 = Some p"
    using ra_get_items [of "evt_node_arr q" 0] Cons.prems ns n by (auto simp: q_inv_def nodes_ok_def word_less_nat_alt)
  obtain es where es: "q_events q = hd (q_events q) # es" using ns by (simp add: q_events_def)
  have unfold: "del_loop dbg ts q c = (if ?stop then Some (c, q) else del_loop dbg ts q' (c + 1))"
    using n g s by (subst del_loop.simps) simp
  show ?case
  proof (cases "?stop")
    case True
    then have "keeps_from ts (q_events q) = q_events q"
      by (subst (1 2) es) (auto simp: keeps_from_def split: option.splits)
    then show ?thesis using unfold True Cons.prems by simp
  next
    case False
    have "q_events q' = es" "ps = nodes q'" "q_inv q'" "deleted q' = deleted q"
      using s(3) arg_cong [OF es, of tl] ns by (simp_all add: discarded_def)
    moreover have k: "keeps_from ts (q_events q) = keeps_from ts es"
      using False by (subst es) (auto simp: keeps_from_def not_less split: option.splits)
    moreover have "length (keeps_from ts es) \<le> length es" by (simp add: keeps_from_def length_dropWhile_le)
    moreover have "length (q_events q) = Suc (length es)" using arg_cong [OF es, of length] by simp
    ultimately show ?thesis
      using unfold False Cons.hyps(1) [of q' "c + 1"] by (auto simp: Suc_diff_le add.commute add.left_commute)
  qed
qed

text \<open>
  C25. Deleting the events up to a time leaves exactly the events from the first newer one on, in order,
  and reports how many were deleted.
\<close>

theorem queue_del_before_exact:
  assumes "q_inv q"
  shows "\<exists>q'. rtk_diag_queue_del_before dbg q t = Some (RTK_SUCCESS,
      of_nat (length (q_events q) - length (dropWhile (\<lambda>e. evt_time e \<le> t) (q_events q))), q') \<and>
    q_inv q' \<and> q_events q' = dropWhile (\<lambda>e. evt_time e \<le> t) (q_events q) \<and> deleted q' = deleted q"
  using del_loop_ok [OF assms, of dbg "Some t" 0] by (auto simp: rtk_diag_queue_del_before_def keeps_from_def)

lemma new_queue_one:
  "\<exists>q1. rtk_diag_queue_enqueue True True new_queue 5 1 7 [1, 2, 3] 3 = Some (RTK_SUCCESS, q1) \<and> q_inv q1 \<and>
     q_events q1 = [\<lparr>evt_type = 7, evt_len = 3, evt_time = 5, evt_level = 1, evt_info = [1, 2, 3]\<rparr>] \<and> deleted q1 = []"
  using enqueue_little [OF new_queue_inv(1), of 3 True True 5 1 7 "[1, 2, 3]"] new_queue_inv(2,3)
  by (auto simp: enqueued_def word_le_nat_alt last_n_def)

theorem queue_del_before_exact_witness:
  "\<exists>q1 q'. rtk_diag_queue_enqueue True True new_queue 5 1 7 [1, 2, 3] 3 = Some (RTK_SUCCESS, q1) \<and>
     rtk_diag_queue_del_before True q1 7 = Some (RTK_SUCCESS, 1, q') \<and> q_events q' = []"
proof -
  obtain q1 where q1: "rtk_diag_queue_enqueue True True new_queue 5 1 7 [1, 2, 3] 3 = Some (RTK_SUCCESS, q1)" "q_inv q1"
    "q_events q1 = [\<lparr>evt_type = 7, evt_len = 3, evt_time = 5, evt_level = 1, evt_info = [1, 2, 3]\<rparr>]"
    using new_queue_one by blast
  have t: "(5 :: u32) \<le> 7" by (simp add: word_le_nat_alt)
  show ?thesis using queue_del_before_exact [OF q1(2), of True 7] q1 t by auto
qed

text \<open>
  C34. Clearing the queue removes every event but does not give back what large events had taken from the
  limit: a queue whose limit was used up refuses every further large event, although it is empty.
\<close>

theorem queue_clear_keeps_limit:
  assumes "q_inv q" and "128 < len" and "len \<le> 2048"
    and "unat (total_capacity q) < unat (total_size q) + 12 + unat len"
  shows "\<exists>q'. rtk_diag_queue_clear dbg q = Some (RTK_SUCCESS, q') \<and> q_inv q' \<and> q_events q' = [] \<and>
    rtk_diag_queue_enqueue dbg ok q' t lv ty info len = Some (RTK_ERR_DIAG_EVT_ADD_FAIL, q')"
proof -
  obtain q' where q': "clear_loop dbg q = Some q'" "q_inv q'" "q_events q' = []" "total_size q' = total_size q"
    "total_capacity q' = total_capacity q"
    using clear_loop_ok [OF assms(1)] by blast
  have l: "\<not> 2048 < len" using assms(3) by simp
  have "unat (ucast (total_size q') + (12 + ucast len) :: u32) = unat (total_size q') + (12 + unat len)"
    using unat_add_no_wrap [of "ucast (total_size q')" "12 + ucast len"] event_len_bounds(1) [of len]
      unat_lt_u16 [of "total_size q'"] unat_lt_u16 [of len] by (simp del: unat_lt_u16)
  then have big: "(ucast (total_capacity q') :: u32) < ucast (total_size q') + (12 + ucast len)"
    using assms(4) q'(4,5) by (simp add: word_less_nat_alt)
  have "ra_count (evt_node_arr q') = 0" using q'(3) nodes_events [of q'] nodes_Nil [of q'] by simp
  then have "evict_loop dbg (12 + ucast len) q' = Some q'" by (subst evict_loop.simps) simp
  then show ?thesis
    using q'(1-3) big assms(2) l by (simp add: rtk_diag_queue_clear_def rtk_diag_queue_enqueue_def Let_def)
qed

lemma new_queue_big:
  "\<exists>q1. rtk_diag_queue_enqueue True True new_queue 5 1 7 [] 2000 = Some (RTK_SUCCESS, q1) \<and> q_inv q1 \<and>
     total_size q1 = 4060 \<and> total_capacity q1 = 4096"
proof -
  have c: "(128 :: u16) < 2000" "(2000 :: u16) \<le> 2048" "\<not> (2048 :: u16) < 2000" by (simp_all add: word_less_nat_alt word_le_nat_alt)
  have "ra_count (evt_node_arr new_queue) = 0"
    using new_queue_inv(2) nodes_events [of new_queue] nodes_Nil [of new_queue] by simp
  then have ev: "evict_loop True 2012 new_queue = Some new_queue" by (subst evict_loop.simps) simp
  obtain r q' where e: "rtk_diag_queue_enqueue True True new_queue 5 1 7 [] 2000 = Some (r, q')"
    "enqueued new_queue (if r = RTK_SUCCESS
      then [\<lparr>evt_type = 7, evt_len = 2000, evt_time = 5, evt_level = 1, evt_info = take (unat (2000 :: u16)) []\<rparr>] else []) q'"
    using enqueue_big [OF new_queue_inv(1) c(1,2), of True True 5 1 7 "[]"] by blast
  have "r = RTK_SUCCESS \<and> total_size q' = 4060 \<and> total_capacity q' = 4096"
    using e(1) c ev new_queue_inv(4,5)
    by (auto simp: rtk_diag_queue_enqueue_def event_malloc_def Let_def split: Option.bind_splits)
  then show ?thesis using e by (auto simp: enqueued_def)
qed

text \<open>One event of 2000 bytes uses up the limit that is set by default.\<close>

theorem queue_clear_keeps_limit_witness:
  "\<exists>q1 q'. rtk_diag_queue_enqueue True True new_queue 5 1 7 [] 2000 = Some (RTK_SUCCESS, q1) \<and>
     rtk_diag_queue_clear True q1 = Some (RTK_SUCCESS, q') \<and> q_events q' = [] \<and>
     rtk_diag_queue_enqueue True True q' 6 1 7 [] 129 = Some (RTK_ERR_DIAG_EVT_ADD_FAIL, q')"
proof -
  obtain q1 where q1: "rtk_diag_queue_enqueue True True new_queue 5 1 7 [] 2000 = Some (RTK_SUCCESS, q1)" "q_inv q1"
    "total_size q1 = 4060" "total_capacity q1 = 4096"
    using new_queue_big by blast
  show ?thesis
    using queue_clear_keeps_limit [OF q1(2), of 129 True True 6 1 7 "[]"] q1 by (auto simp: word_less_nat_alt word_le_nat_alt)
qed

lemma node_arr_update [simp]:
  "event_at (q\<lparr>evt_node_arr := arr\<rparr>) = event_at q" "ptr_block (q\<lparr>evt_node_arr := arr\<rparr>) = ptr_block q"
  "ptr_big (q\<lparr>evt_node_arr := arr\<rparr>) = ptr_big q" "ptr_ok (q\<lparr>evt_node_arr := arr\<rparr>) = ptr_ok q"
  by (rule ext, rename_tac x, case_tac x; simp split: option.splits)+

lemma handed_over:
  assumes inv: "q_inv q" and ns: "nodes q = Sys i # ps"
    and arr: "ra_inv arr" "ra_emplace arr = id" "ra_items arr = ps" "ra_capacity arr = ra_capacity (evt_node_arr q)"
  shows "q_inv (q\<lparr>evt_node_arr := arr\<rparr>)" and "q_events (q\<lparr>evt_node_arr := arr\<rparr>) = tl (q_events q)"
proof -
  let ?q = "q\<lparr>evt_node_arr := arr\<rparr>"
  have "q_blocks ?q = q_blocks q" "q_big ?q \<le> q_big q" by (simp_all add: q_blocks_def q_big_def ns arr(3))
  then show "q_inv ?q" using inv ns arr by (auto simp: q_inv_def nodes_ok_def)
  show "q_events ?q = tl (q_events q)" by (simp add: q_events_def ns arr(3))
qed

text \<open>
  C26. Taking an event out gives the oldest one and leaves the others; nothing is recorded as deleted. A small
  event is copied and its block given back, a large one goes to the caller with its block.
\<close>

theorem queue_dequeue_oldest:
  assumes "q_inv q" and "q_events q = e # es"
  shows "\<exists>q'. rtk_diag_queue_dequeue dbg True q = Some (Some e, q') \<and> q_inv q' \<and> q_events q' = es \<and> deleted q' = deleted q"
proof -
  obtain p ps where ns: "nodes q = p # ps" using assms(2) nodes_events [of q] by (cases "nodes q") auto
  obtain arr q' where s: "ra_pop (evt_node_arr q) = Some (p, arr)" "event_at q p = Some e"
    "event_discard dbg p e (q\<lparr>evt_node_arr := arr\<rparr>) = Some q'" "discarded q q'"
    using discard_step [OF assms(1) ns, of dbg] assms(2) by auto
  have N: "nodes_ok q" using assms(1) by (simp add: q_inv_def)
  show ?thesis
  proof (cases p)
    case (Pool a)
    then have "evt_len e \<le> 128" using N ns s(2) by (auto simp: nodes_ok_def)
    then show ?thesis
      using s assms(2) by (auto simp: rtk_diag_queue_dequeue_def event_discard_def discarded_def Let_def)
  next
    case (Sys i)
    then have e: "128 < evt_len e" "evt_len e \<le> 2048" using N ns s(2) by (auto simp: nodes_ok_def)
    obtain arr' where "ra_pop (evt_node_arr q) = Some (p, arr')" "ra_inv arr'" "ra_capacity arr' = ra_capacity (evt_node_arr q)"
      "ra_emplace arr' = id" "ra_items arr' = ps"
      using ra_pop_items [of "evt_node_arr q" p ps] N ns by (auto simp: nodes_ok_def)
    then show ?thesis
      using s(1,2) e handed_over [OF assms(1), of i ps arr] ns Sys assms(2)
      by (simp add: rtk_diag_queue_dequeue_def Let_def linorder_not_le [symmetric])
  qed
qed

theorem queue_dequeue_oldest_witness:
  "\<exists>q1 q'. rtk_diag_queue_enqueue True True new_queue 5 1 7 [1, 2, 3] 3 = Some (RTK_SUCCESS, q1) \<and>
     rtk_diag_queue_dequeue True True q1 =
       Some (Some \<lparr>evt_type = 7, evt_len = 3, evt_time = 5, evt_level = 1, evt_info = [1, 2, 3]\<rparr>, q') \<and> q_events q' = []"
proof -
  obtain q1 where q1: "rtk_diag_queue_enqueue True True new_queue 5 1 7 [1, 2, 3] 3 = Some (RTK_SUCCESS, q1)" "q_inv q1"
    "q_events q1 = [\<lparr>evt_type = 7, evt_len = 3, evt_time = 5, evt_level = 1, evt_info = [1, 2, 3]\<rparr>]"
    using new_queue_one by blast
  show ?thesis using queue_dequeue_oldest [OF q1(2,3), of True] q1(1) by auto
qed

end
