(* ===== verification/Diag_Find.thy ===== *)
theory Diag_Find
  imports Diag_Events
begin

text \<open>
  Finding an event by its time and a byte offset, the way the reading side asks for the next piece of the
  log: \<open>rtk_diag_queue_find\<close> of \<open>ameba_diagnose_queue.c\<close>. The events of one time are seen as one string of
  bytes, which begins with the events that were deleted meanwhile.
\<close>

section \<open>Access by index\<close>

lemma count_small:
  assumes "q_inv q"
  shows "length (q_events q) \<le> 5461" "unat (ra_count (evt_node_arr q)) = length (q_events q)"
proof -
  obtain hs ts where H: "heap_inv (heap_handler q) hs ts" "hs @ ts = q_blocks q" using assms by (auto simp: q_inv_def)
  have "sum_list (map snd (q_blocks q)) \<le> unat (hp_capacity (heap_handler q))" using heap_sum [OF H(1)] H(2) by simp
  moreover have "12 * length (nodes q) \<le> sum_list (map snd (q_blocks q)) + q_big q"
    using nodes_bytes [of "nodes q" q] by (simp add: q_blocks_def q_big_def)
  moreover have "unat (hp_capacity (heap_handler q)) + q_big q \<le> unat (total_size q)"
    using assms by (simp add: q_inv_def nodes_ok_def)
  ultimately have "12 * length (nodes q) < 65536" using unat_lt_u16 [of "total_size q"] by linarith
  then show "length (q_events q) \<le> 5461" by (simp add: q_events_def)
  show "unat (ra_count (evt_node_arr q)) = length (q_events q)" by (simp add: q_events_def)
qed

lemma unat_index: "i \<le> 5461 \<Longrightarrow> unat (of_nat i :: u16) = i"
  by (simp add: unat_of_nat)

lemma index_less:
  assumes "q_inv q" and "i \<le> length (q_events q)"
  shows "ucast (of_nat i :: u16) < ra_count (evt_node_arr q) \<longleftrightarrow> i < length (q_events q)"
    and "ucast (of_nat i :: u16) = ra_count (evt_node_arr q) \<longleftrightarrow> i = length (q_events q)"
proof -
  have "unat (of_nat i :: u16) = i" using count_small(1) [OF assms(1)] assms(2) by (intro unat_index) simp
  then show "ucast (of_nat i :: u16) < ra_count (evt_node_arr q) \<longleftrightarrow> i < length (q_events q)"
    and "ucast (of_nat i :: u16) = ra_count (evt_node_arr q) \<longleftrightarrow> i = length (q_events q)"
    using count_small(2) [OF assms(1)] by (simp_all add: word_less_nat_alt word_unat_eq_iff)
qed

lemma index_event:
  assumes "q_inv q" and "i < length (q_events q)"
  shows "Option.bind (ra_get (evt_node_arr q) (ucast (of_nat i :: u16))) (event_at q) = Some (q_events q ! i)"
proof -
  have u: "unat (of_nat i :: u16) = i" using count_small(1) [OF assms(1)] assms(2) by (intro unat_index) simp
  have i: "i < length (nodes q)" using assms(2) by (simp add: q_events_def)
  have N: "nodes_ok q" using assms(1) by (simp add: q_inv_def)
  then have "ra_get (evt_node_arr q) (ucast (of_nat i :: u16)) = Some (nodes q ! i)"
    using ra_get_items [of "evt_node_arr q" "ucast (of_nat i :: u16)"] u i by (simp add: nodes_ok_def)
  moreover have "ptr_ok q (nodes q ! i)" using N i by (auto simp: nodes_ok_def)
  ultimately show ?thesis using ptr_ok_event [of q "nodes q ! i"] i by (auto simp: q_events_def)
qed

section \<open>The first event of a time\<close>

lemma find_first_ok:
  assumes "q_inv q" and "i \<le> length (q_events q)"
  shows "find_first q t (of_nat i) =
    (let j = i + length (takeWhile (\<lambda>e. evt_time e < t) (drop i (q_events q)))
     in Some (of_nat j, if j < length (q_events q) then Some (q_events q ! j) else None))"
  using assms(2)
proof (induction "length (q_events q) - i" arbitrary: i)
  case 0
  then show ?case using index_less [OF assms(1), of i] by (subst find_first.simps) (simp add: Let_def)
next
  case (Suc n)
  then have i: "i < length (q_events q)" by simp
  let ?e = "q_events q ! i"
  have d: "drop i (q_events q) = ?e # drop (Suc i) (q_events q)" using i by (simp add: Cons_nth_drop_Suc)
  have unfold: "find_first q t (of_nat i) =
      (if evt_time ?e \<ge> t then Some (of_nat i, Some ?e) else find_first q t (of_nat (Suc i)))"
    using index_less [OF assms(1), of i] index_event [OF assms(1) i] i
    by (subst find_first.simps) (auto simp: Option.bind_eq_Some_conv add.commute)
  show ?case
  proof (cases "evt_time ?e \<ge> t")
    case True
    then show ?thesis using unfold d i by (simp add: Let_def)
  next
    case False
    then show ?thesis using unfold d i Suc.hyps(1) [of "Suc i"] Suc.hyps(2) by (simp add: Let_def not_le)
  qed
qed

section \<open>The event that holds a byte\<close>

abbreviation bytes_of :: "RtkDiagEvent list \<Rightarrow> nat" where
  "bytes_of es \<equiv> sum_list (map (\<lambda>e. unat (EVENT_REAL_SIZE e)) es)"

text \<open>The events of the time are given by the list \<open>g\<close>, the first of which has the index \<open>i\<close>.\<close>

lemma locate_loop_ok:
  assumes "q_inv q" and "drop i (q_events q) = g @ rest" and "\<forall>e \<in> set g. evt_time e = t"
    and "unat T \<le> unat goff" and "unat goff < unat T + bytes_of g" and "unat T + bytes_of g < 65536"
  shows "\<exists>g1 e g2. g = g1 @ e # g2 \<and> unat T + bytes_of g1 \<le> unat goff \<and>
      unat goff < unat T + bytes_of g1 + unat (EVENT_REAL_SIZE e) \<and>
      locate_loop q t goff (of_nat i) (Some (hd g)) T =
        Some (of_nat (i + length g1), Some e, of_nat (unat T + bytes_of g1), Some (of_nat (unat goff - (unat T + bytes_of g1))))"
  using assms(2-)
proof (induction g arbitrary: i T)
  case Nil
  then show ?case by simp
next
  case (Cons e g)
  have i: "i < length (q_events q)" using Cons.prems(1) by (metis append_Cons drop_eq_Nil2 list.distinct(1) not_le)
  have less: "ucast (of_nat i :: u16) < ra_count (evt_node_arr q)" using index_less(1) [OF assms(1), of i] i by simp
  have te: "evt_time e = t" using Cons.prems(2) by simp
  let ?tmp = "ucast T + EVENT_REAL_SIZE e :: u32"
  have tmp: "unat ?tmp = unat T + unat (EVENT_REAL_SIZE e)"
    using Cons.prems(5) by (subst unat_add_lem [THEN iffD1]) simp_all
  have gt: "ucast goff < ?tmp \<longleftrightarrow> unat goff < unat T + unat (EVENT_REAL_SIZE e)"
    by (simp only: word_less_nat_alt tmp unat_ucast_u16_u32)
  show ?case
  proof (cases "unat goff < unat T + unat (EVENT_REAL_SIZE e)")
    case True
    have "goff - T = of_nat (unat goff - unat T)" using Cons.prems(3) by (simp add: of_nat_diff)
    then have "locate_loop q t goff (of_nat i) (Some e) T = Some (of_nat i, Some e, T, Some (of_nat (unat goff - unat T)))"
      using True gt less te by (subst locate_loop.simps) (simp add: Let_def)
    then show ?thesis using True Cons.prems(3) by (intro exI [of _ "[]"] exI [of _ e] exI [of _ g]) simp
  next
    case False
    let ?T = "ucast ?tmp :: u16"
    have T: "unat ?T = unat T + unat (EVENT_REAL_SIZE e)"
      using unat_ucast_u32_u16 [of ?tmp] tmp Cons.prems(5) by simp
    have g: "g \<noteq> []" using False Cons.prems(4) by auto
    have d: "drop (Suc i) (q_events q) = g @ rest"
      using Cons.prems(1) by (metis append_Cons drop_Suc list.sel(3) tl_drop)
    have i': "Suc i < length (q_events q)" using d g by (metis append_is_Nil_conv drop_eq_Nil2 not_le)
    have h: "q_events q ! Suc i = hd g" using d g i' by (metis hd_append2 hd_drop_conv_nth)
    have "Option.bind (ra_get (evt_node_arr q) (ucast (of_nat i + 1 :: u16))) (event_at q) = Some (hd g)"
      using index_event [OF assms(1) i'] h by (simp add: add.commute)
    then have step: "locate_loop q t goff (of_nat i) (Some e) T = locate_loop q t goff (of_nat (Suc i)) (Some (hd g)) ?T"
      using False gt less te by (subst locate_loop.simps) (simp add: Let_def add.commute)
    have "\<exists>g1 e' g2. g = g1 @ e' # g2 \<and> unat ?T + bytes_of g1 \<le> unat goff \<and>
        unat goff < unat ?T + bytes_of g1 + unat (EVENT_REAL_SIZE e') \<and>
        locate_loop q t goff (of_nat (Suc i)) (Some (hd g)) ?T =
          Some (of_nat (Suc i + length g1), Some e', of_nat (unat ?T + bytes_of g1), Some (of_nat (unat goff - (unat ?T + bytes_of g1))))"
      by (rule Cons.IH) (use d Cons.prems False T in \<open>simp_all del: unat_lt_u16\<close>)
    then obtain g1 e' g2 where R: "g = g1 @ e' # g2" "unat ?T + bytes_of g1 \<le> unat goff"
        "unat goff < unat ?T + bytes_of g1 + unat (EVENT_REAL_SIZE e')"
        "locate_loop q t goff (of_nat (Suc i)) (Some (hd g)) ?T =
          Some (of_nat (Suc i + length g1), Some e', of_nat (unat ?T + bytes_of g1), Some (of_nat (unat goff - (unat ?T + bytes_of g1))))"
      by (elim exE conjE)
    show ?thesis
      by (intro exI [of _ "e # g1"] exI [of _ e'] exI [of _ g2]) (use R step in \<open>simp add: T add.assoc del: of_nat_add\<close>)
  qed
qed

lemma find_byte:
  assumes "q_inv q" and "q_events q = older @ g @ newer"
    and "\<forall>e \<in> set older. evt_time e < t" and "\<forall>e \<in> set g. evt_time e = t"
    and "deleted_offset t (deleted q) 0 = Some D" and "D < goff"
    and "unat goff < unat D + bytes_of g" and "unat D + bytes_of g < 65536"
  shows "\<exists>g1 e g2 l. g = g1 @ e # g2 \<and> unat goff = unat D + bytes_of g1 + l \<and> l < unat (EVENT_REAL_SIZE e) \<and>
    rtk_diag_queue_find q t goff loff = Some (Some e, goff, of_nat l, RTK_SUCCESS,
      q\<lparr>prev_find_node := of_nat (length older + length g1)\<rparr>)"
proof -
  let ?i = "length older"
  have g: "g \<noteq> []" using assms(6,7) by (auto simp: word_less_nat_alt)
  have i: "?i < length (q_events q)" using assms(2) g by simp
  have tw: "takeWhile (\<lambda>e. evt_time e < t) (q_events q) = older"
    using assms(2-4) g by (cases g) (simp_all add: takeWhile_append2)
  have hd: "q_events q ! ?i = hd g" "evt_time (hd g) = t" using assms(2,4) g by (auto simp: nth_append hd_conv_nth)
  have ff: "find_first q t 0 = Some (of_nat ?i, Some (hd g))"
    using find_first_ok [OF assms(1), of 0 t] tw i hd by (simp add: Let_def)
  have ne: "ucast (of_nat ?i :: u16) \<noteq> ra_count (evt_node_arr q)" using index_less(2) [OF assms(1), of ?i] i by simp
  have d: "drop ?i (q_events q) = g @ newer" using assms(2) by simp
  have Dg: "unat D \<le> unat goff" using assms(6) by (simp add: word_less_nat_alt)
  obtain g1 e g2 where L: "g = g1 @ e # g2" "unat D + bytes_of g1 \<le> unat goff"
      "unat goff < unat D + bytes_of g1 + unat (EVENT_REAL_SIZE e)"
      "locate_loop q t goff (of_nat ?i) (Some (hd g)) D =
        Some (of_nat (?i + length g1), Some e, of_nat (unat D + bytes_of g1), Some (of_nat (unat goff - (unat D + bytes_of g1))))"
    using locate_loop_ok [OF assms(1) d assms(4) Dg assms(7,8)] by (elim exE conjE)
  have "?i + length g1 < length (q_events q)" using assms(2) L(1) by simp
  then have ne': "ucast (of_nat (?i + length g1) :: u16) \<noteq> ra_count (evt_node_arr q)"
    using index_less(2) [OF assms(1), of "?i + length g1"] by simp
  have te: "evt_time e = t" using assms(4) L(1) by simp
  let ?l = "unat goff - (unat D + bytes_of g1)"
  have "rtk_diag_queue_find q t goff loff = Some (Some e, goff, of_nat ?l, RTK_SUCCESS,
      q\<lparr>prev_find_node := of_nat (?i + length g1)\<rparr>)"
    using ff ne hd(2) assms(5,6) L(4) ne' te
    by (simp add: rtk_diag_queue_find_def Let_def leD [of D goff] not_le [symmetric, of D goff] del: of_nat_add of_nat_diff)
  moreover have "unat goff = unat D + bytes_of g1 + ?l" "?l < unat (EVENT_REAL_SIZE e)" using L(2,3) by simp_all
  ultimately show ?thesis using L(1) by blast
qed

text \<open>The other cases: the byte is one of the deleted ones or the first behind them, there is only
  something newer, there is nothing any more.\<close>

lemma find_first_split:
  assumes "q_inv q" and "q_events q = older @ es" and "\<forall>e \<in> set older. evt_time e < t" and "es \<noteq> [] \<Longrightarrow> t \<le> evt_time (hd es)"
  shows "find_first q t 0 = Some (of_nat (length older), if es = [] then None else Some (hd es))"
    and "ucast (of_nat (length older) :: u16) = ra_count (evt_node_arr q) \<longleftrightarrow> es = []"
proof -
  have tw: "takeWhile (\<lambda>e. evt_time e < t) (q_events q) = older"
    using assms(2-4) by (cases es) (auto simp: takeWhile_append2 not_less)
  show "find_first q t 0 = Some (of_nat (length older), if es = [] then None else Some (hd es))"
    using find_first_ok [OF assms(1), of 0 t] tw assms(2) by (auto simp: Let_def nth_append hd_conv_nth)
  show "ucast (of_nat (length older) :: u16) = ra_count (evt_node_arr q) \<longleftrightarrow> es = []"
    using index_less(2) [OF assms(1), of "length older"] assms(2) by simp
qed

lemma find_deleted:
  assumes "q_inv q" and "q_events q = older @ e # es" and "\<forall>e \<in> set older. evt_time e < t" and "evt_time e = t"
    and "deleted_offset t (deleted q) 0 = Some D" and "goff \<le> D"
  shows "rtk_diag_queue_find q t goff loff =
    Some (Some e, D, 0, RTK_SUCCESS, q\<lparr>prev_find_node := of_nat (length older)\<rparr>)"
  using find_first_split [OF assms(1-3)] assms(4-6) by (simp add: rtk_diag_queue_find_def Let_def)

lemma find_newer:
  assumes "q_inv q" and "q_events q = older @ e # es" and "\<forall>e \<in> set older. evt_time e < t" and "t < evt_time e"
  shows "rtk_diag_queue_find q t goff loff =
    Some (Some e, 0, 0, RTK_SUCCESS, q\<lparr>prev_find_node := of_nat (length older)\<rparr>)"
  using find_first_split [OF assms(1-3)] assms(4) by (simp add: rtk_diag_queue_find_def Let_def)

lemma find_none:
  assumes "q_inv q" and "\<forall>e \<in> set (q_events q). evt_time e < t"
  shows "rtk_diag_queue_find q t goff loff =
    Some (None, goff, loff, RTK_ERR_DIAG_EVT_NO_MORE, q\<lparr>prev_find_node := INVALID_EVENT_NODE\<rparr>)"
  using find_first_split [OF assms(1), of "q_events q" "[]" t] assms(2) by (simp add: rtk_diag_queue_find_def Let_def)

text \<open>The event that holds a byte is determined by the sizes.\<close>

lemma holder_unique:
  assumes "g1 @ e # g2 = h1 @ f # h2" and "x = bytes_of g1 + k" and "k < unat (EVENT_REAL_SIZE e)"
    and "x = bytes_of h1 + l" and "l < unat (EVENT_REAL_SIZE f)"
  shows "g1 = h1 \<and> e = f \<and> k = l"
  using assms
proof (induction g1 arbitrary: h1 x)
  case Nil
  then show ?case by (cases h1) auto
next
  case (Cons a g1)
  show ?case
  proof (cases h1)
    case Nil
    then show ?thesis using Cons.prems by simp
  next
    case (Cons b h)
    then show ?thesis using Cons.IH [of h "bytes_of g1 + k"] Cons.prems by simp
  qed
qed

lemma find_at:
  assumes "q_inv q" and "q_events q = older @ g1 @ e # g2 @ newer" and "\<forall>e \<in> set older. evt_time e < t"
    and "\<forall>e \<in> set (g1 @ e # g2). evt_time e = t" and "deleted_offset t (deleted q) 0 = Some D"
    and "unat goff = unat D + bytes_of g1 + l" and "l < unat (EVENT_REAL_SIZE e)" and "unat D + bytes_of (g1 @ e # g2) < 65536"
  shows "rtk_diag_queue_find q t goff loff =
    Some (Some e, goff, of_nat l, RTK_SUCCESS, q\<lparr>prev_find_node := of_nat (length older + length g1)\<rparr>)"
proof (cases "D < goff")
  case True
  have sz: "unat (EVENT_REAL_SIZE a) \<noteq> 0" for a by (simp add: unat_real_size)
  obtain h1 f h2 k where F: "g1 @ e # g2 = h1 @ f # h2" "unat goff = unat D + bytes_of h1 + k" "k < unat (EVENT_REAL_SIZE f)"
      "rtk_diag_queue_find q t goff loff = Some (Some f, goff, of_nat k, RTK_SUCCESS,
        q\<lparr>prev_find_node := of_nat (length older + length h1)\<rparr>)"
    using find_byte [OF assms(1) _ assms(3,4,5) True, of newer loff] assms(2,6-8) by auto
  then show ?thesis using holder_unique [OF F(1), of "unat goff - unat D" l k] assms(6,7) by simp
next
  case False
  then have "bytes_of g1 = 0" and l: "l = 0" and D: "goff = D" using assms(6) by (auto simp: word_less_nat_alt word_unat_eq_iff)
  then have "g1 = []" by (cases g1) (simp_all add: unat_real_size)
  then show ?thesis using find_deleted [OF assms(1) _ assms(3) _ assms(5), of e "g2 @ newer" goff loff] assms(2,4) l D by simp
qed

text \<open>
  C13. Asking for a byte behind the deleted ones finds the event that holds it. The events of the requested
  time, which follow the older ones, are read as one string of bytes that begins after the bytes of the
  deleted events of that time; the returned event contains the requested byte, the local offset is the
  position of the byte inside that event, and the cursor is left on that event.
\<close>

theorem queue_find_byte:
  assumes "q_inv q" and "q_events q = older @ g @ newer"
    and "\<forall>e \<in> set older. evt_time e < t" and "\<forall>e \<in> set g. evt_time e = t"
    and "deleted_offset t (deleted q) 0 = Some D" and "D < goff"
    and "unat goff < unat D + bytes_of g" and "unat D + bytes_of g < 65536"
  shows "\<exists>g1 e g2 l. g = g1 @ e # g2 \<and> unat goff = unat D + bytes_of g1 + l \<and> l < unat (EVENT_REAL_SIZE e) \<and>
    rtk_diag_queue_find q t goff loff = Some (Some e, goff, of_nat l, RTK_SUCCESS,
      q\<lparr>prev_find_node := of_nat (length older + length g1)\<rparr>)"
  by (rule find_byte [OF assms])

theorem queue_find_byte_witness:
  "\<exists>q1 e q'. rtk_diag_queue_enqueue True True new_queue 5 1 7 [1, 2, 3] 3 = Some (RTK_SUCCESS, q1) \<and>
     rtk_diag_queue_find q1 5 13 0 = Some (Some e, 13, 13, RTK_SUCCESS, q') \<and> evt_info e = [1, 2, 3]"
proof -
  let ?e = "\<lparr>evt_type = 7, evt_len = 3, evt_time = 5, evt_level = 1, evt_info = [1, 2, 3]\<rparr>"
  obtain q1 where q1: "rtk_diag_queue_enqueue True True new_queue 5 1 7 [1, 2, 3] 3 = Some (RTK_SUCCESS, q1)" "q_inv q1"
    "q_events q1 = [?e]" "deleted q1 = []"
    using new_queue_one by blast
  have "\<exists>g1 e g2 l. [?e] = g1 @ e # g2 \<and> unat (13 :: u16) = unat (0 :: u16) + bytes_of g1 + l \<and> l < unat (EVENT_REAL_SIZE e) \<and>
    rtk_diag_queue_find q1 5 13 0 = Some (Some e, 13, of_nat l, RTK_SUCCESS,
      q1\<lparr>prev_find_node := of_nat (length ([] :: RtkDiagEvent list) + length g1)\<rparr>)"
    by (rule queue_find_byte [where newer = "[]"])
      (use q1 in \<open>simp_all add: word_less_nat_alt unat_real_size\<close>)
  then show ?thesis using q1(1) by (auto simp: append_eq_Cons_conv Cons_eq_append_conv)
qed

end
