(* ===== verification/Diag_Proto.thy ===== *)
theory Diag_Proto
  imports Diag_Queue
begin

text \<open>
  The frames that carry events to the host: \<open>ameba_diagnose_protocol.c\<close> and the packing functions of
  \<open>ameba_diagnose_common.c\<close>. A frame is the structure at the start of a send buffer; the payload is the rest
  of that buffer, and a write behind it is a fault. Buffers are known by a number, a number without a frame
  is memory that is not (or no longer) allocated. The three reserved bytes of an event are never written by
  the code, so they are a parameter of its byte image.
\<close>

section \<open>Frames\<close>

record RtkDiagDataFrame =
  f_header :: u16
  f_size :: u16
  f_cmd :: u8
  f_payload :: "u8 list"

type_synonym frames = "nat \<Rightarrow> RtkDiagDataFrame option"

definition RTK_DIAG_FRAME_HEADER :: u16 where "RTK_DIAG_FRAME_HEADER = 0x72 OR push_bit 8 0x74"

abbreviation (input) "sizeof_RtkDiagDataFrame \<equiv> 5"

text \<open>A copy into the payload.\<close>

definition put_bytes :: "nat \<Rightarrow> u8 list \<Rightarrow> RtkDiagDataFrame \<Rightarrow> RtkDiagDataFrame option" where
  "put_bytes i bs f =
     (if i + length bs \<le> length (f_payload f) then Some (f\<lparr>f_payload := list_blit (f_payload f) i bs\<rparr>) else None)"

fun xor_bytes :: "u8 \<Rightarrow> u8 list \<Rightarrow> u8" where
  "xor_bytes c [] = c"
| "xor_bytes c (b # bs) = xor_bytes (c XOR b) bs"

text \<open>With the size 0 the check sum is the command, and the byte in front of the payload, which it is
  written to, is the command too.\<close>

definition rtk_diag_proto_pack_crc :: "RtkDiagDataFrame \<Rightarrow> RtkDiagDataFrame option" where
  "rtk_diag_proto_pack_crc f =
     (if f_size f = 0 then Some f
      else if unat (f_size f) \<le> length (f_payload f) then
        put_bytes (unat (f_size f) - 1) [xor_bytes (f_cmd f) (take (unat (f_size f) - 1) (f_payload f))] f
      else None)"

definition rtk_diag_proto_pack_custom :: "RtkDiagDataFrame \<Rightarrow> u8 \<Rightarrow> u8 list \<Rightarrow> u16 \<Rightarrow> RtkDiagDataFrame option" where
  "rtk_diag_proto_pack_custom f cmd_type payload payload_length =
     (if unat payload_length \<le> length payload then do {
        f1 \<leftarrow> put_bytes 0 (take (unat payload_length) payload)
               (f\<lparr>f_header := RTK_DIAG_FRAME_HEADER, f_size := payload_length + 1, f_cmd := cmd_type\<rparr>);
        rtk_diag_proto_pack_crc f1
      }
      else None)"

definition rtk_diag_proto_pack_error :: "RtkDiagDataFrame \<Rightarrow> u8 \<Rightarrow> u8 \<Rightarrow> RtkDiagDataFrame option" where
  "rtk_diag_proto_pack_error f cmd_type err =
     rtk_diag_proto_pack_custom f (if err \<noteq> 0 then 0x80 OR cmd_type else NOT 0x80 AND cmd_type) [err] 1"

section \<open>Packing events\<close>

definition RTK_DIAG_TRANSFORM_COMPLETE :: u8 where "RTK_DIAG_TRANSFORM_COMPLETE = 0"

definition RTK_DIAG_TRANSFORM_ONGOING :: u8 where "RTK_DIAG_TRANSFORM_ONGOING = 1"

record RtkDiagTransform =
  data_frame :: "nat option"
  payload_capacity :: u16
  event_capacity :: u16
  last_event :: "RtkDiagEvent option"
  last_event_state :: u8
  last_event_offset :: u16

text \<open>The bytes of an event in memory, and a copy of some of them.\<close>

definition event_bytes :: "(RtkDiagEvent \<Rightarrow> u8 \<times> u8 \<times> u8) \<Rightarrow> RtkDiagEvent \<Rightarrow> u8 list" where
  "event_bytes rsvd e = le16_bytes (evt_type e) @ le16_bytes (evt_len e) @ le32_bytes (evt_time e) @
     [evt_level e, fst (rsvd e), fst (snd (rsvd e)), snd (snd (rsvd e))] @ evt_info e"

definition event_copy :: "(RtkDiagEvent \<Rightarrow> u8 \<times> u8 \<times> u8) \<Rightarrow> RtkDiagEvent \<Rightarrow> nat \<Rightarrow> nat \<Rightarrow> u8 list option" where
  "event_copy rsvd e off n =
     (let bs = event_bytes rsvd e in if off + n \<le> length bs then Some (take n (drop off bs)) else None)"

text \<open>The loop that packs whole events: it returns the last event packed, the bytes used, the frame and
  the state of the getter.\<close>

partial_function (option) load_loop ::
  "('q \<Rightarrow> (RtkDiagEvent option \<times> 'q) option) \<Rightarrow> (RtkDiagEvent \<Rightarrow> u8 \<times> u8 \<times> u8) \<Rightarrow> u16 \<Rightarrow> RtkDiagEvent option \<Rightarrow>
   RtkDiagEvent option \<Rightarrow> u16 \<Rightarrow> RtkDiagDataFrame \<Rightarrow> 'q \<Rightarrow> (RtkDiagEvent option \<times> u16 \<times> RtkDiagDataFrame \<times> 'q) option" where
  "load_loop getter rsvd cap event packed total_event_size f q =
     (case event of
        None \<Rightarrow> Some (packed, total_event_size, f, q)
      | Some e \<Rightarrow>
          let event_size = ucast (EVENT_REAL_SIZE e) :: u16 in
          if unat event_size + unat total_event_size > unat cap then Some (packed, total_event_size, f, q)
          else do {
            bs \<leftarrow> event_copy rsvd e 0 (unat event_size);
            f1 \<leftarrow> put_bytes (2 + unat total_event_size) bs f;
            (next, q1) \<leftarrow> getter q;
            load_loop getter rsvd cap next (Some e) (total_event_size + event_size) f1 q1
          })"

definition rtk_diag_proto_load_data_from_start ::
  "('q \<Rightarrow> (RtkDiagEvent option \<times> 'q) option) \<Rightarrow> (RtkDiagEvent \<Rightarrow> u8 \<times> u8 \<times> u8) \<Rightarrow> RtkDiagEvent \<Rightarrow> u16 \<Rightarrow>
   RtkDiagTransform \<Rightarrow> RtkDiagDataFrame \<Rightarrow> 'q \<Rightarrow> (RtkDiagTransform \<times> RtkDiagDataFrame \<times> 'q) option" where
  "rtk_diag_proto_load_data_from_start getter rsvd event local_offset h f q =
     (if local_offset \<noteq> 0 then None
      else if (ucast (EVENT_REAL_SIZE event) :: u16) > event_capacity h then do {
        bs \<leftarrow> event_copy rsvd event 0 (unat (event_capacity h));
        f1 \<leftarrow> put_bytes 2 bs (f\<lparr>f_cmd := 0x03\<rparr>);
        Some (h\<lparr>last_event := Some event, last_event_offset := event_capacity h,
                last_event_state := RTK_DIAG_TRANSFORM_ONGOING\<rparr>,
              f1\<lparr>f_size := event_capacity h + 2 + 1\<rparr>, q)
      }
      else do {
        (packed, total_event_size, f1, q1) \<leftarrow>
          load_loop getter rsvd (event_capacity h) (Some event) (last_event h) 0 (f\<lparr>f_cmd := 0x03\<rparr>) q;
        Some (h\<lparr>last_event_offset := 0, last_event_state := RTK_DIAG_TRANSFORM_COMPLETE, last_event := packed\<rparr>,
              f1\<lparr>f_size := total_event_size + 2 + 1\<rparr>, q1)
      })"

definition rtk_diag_proto_load_data_from_middle ::
  "(RtkDiagEvent \<Rightarrow> u8 \<times> u8 \<times> u8) \<Rightarrow> RtkDiagEvent \<Rightarrow> u16 \<Rightarrow>
   RtkDiagTransform \<Rightarrow> RtkDiagDataFrame \<Rightarrow> (RtkDiagTransform \<times> RtkDiagDataFrame) option" where
  "rtk_diag_proto_load_data_from_middle rsvd event local_offset h f =
     (if local_offset = 0 then None
      else
        let event_size = ucast (EVENT_REAL_SIZE event) :: u16;
            more = int (unat event_size) - int (unat local_offset) > int (unat (event_capacity h));
            total_event_size = (if more then event_capacity h else event_size - local_offset);
            h1 = (if more
                  then h\<lparr>last_event := Some event, last_event_state := RTK_DIAG_TRANSFORM_ONGOING, last_event_offset := local_offset\<rparr>
                  else h\<lparr>last_event := Some event, last_event_state := RTK_DIAG_TRANSFORM_COMPLETE, last_event_offset := 0\<rparr>)
        in do {
          bs \<leftarrow> event_copy rsvd event (unat local_offset) (unat total_event_size);
          f1 \<leftarrow> put_bytes 2 bs (f\<lparr>f_cmd := (if more then 0x13 else 0x23)\<rparr>);
          Some (h1, f1\<lparr>f_size := total_event_size + 2 + 1\<rparr>)
        })"

text \<open>The handler that is allocated has arbitrary content; \<open>data_frame\<close> and \<open>last_event_offset\<close> are left as
  they are. The getter is an argument of the functions that call it.\<close>

definition rtk_diag_proto_init :: "bool \<Rightarrow> RtkDiagTransform \<Rightarrow> int \<times> RtkDiagTransform option" where
  "rtk_diag_proto_init malloc_ok junk =
     (if \<not> malloc_ok then (RTK_ERR_DIAG_MALLOC, None)
      else (RTK_SUCCESS, Some (junk\<lparr>payload_capacity := 0, event_capacity := 0, last_event := None,
              last_event_state := RTK_DIAG_TRANSFORM_COMPLETE\<rparr>)))"

text \<open>The handler is freed when there is one.\<close>

definition rtk_diag_proto_deinit :: "RtkDiagTransform option \<Rightarrow> RtkDiagTransform option" where
  "rtk_diag_proto_deinit h = None"

definition rtk_diag_proto_set_buffer :: "RtkDiagTransform \<Rightarrow> frames \<Rightarrow> nat option \<Rightarrow> u16 \<Rightarrow> (RtkDiagTransform \<times> frames) option" where
  "rtk_diag_proto_set_buffer h fs sender_buffer sender_buffer_size = do {
     a \<leftarrow> sender_buffer;
     f \<leftarrow> fs a;
     let pc = sender_buffer_size - sizeof_RtkDiagDataFrame;
     Some (h\<lparr>data_frame := Some a, payload_capacity := pc, event_capacity := pc - 2 - 1\<rparr>,
           fs(a \<mapsto> f\<lparr>f_header := RTK_DIAG_FRAME_HEADER\<rparr>))
   }"

definition rtk_diag_proto_pack_event ::
  "('q \<Rightarrow> (RtkDiagEvent option \<times> 'q) option) \<Rightarrow> (RtkDiagEvent \<Rightarrow> u8 \<times> u8 \<times> u8) \<Rightarrow> RtkDiagTransform \<Rightarrow> frames \<Rightarrow> 'q \<Rightarrow>
   RtkDiagEvent option \<Rightarrow> u16 \<Rightarrow> u16 \<Rightarrow> (RtkDiagTransform \<times> frames \<times> 'q) option" where
  "rtk_diag_proto_pack_event getter rsvd h fs q event global_offset local_offset = do {
     a \<leftarrow> data_frame h;
     f \<leftarrow> fs a;
     (h1, f1, q1) \<leftarrow> (case event of
         None \<Rightarrow> Some (h, f\<lparr>f_cmd := 0x03, f_size := 1\<rparr>, q)
       | Some e \<Rightarrow> do {
           (h1, f1, q1) \<leftarrow>
             (if local_offset = 0 then rtk_diag_proto_load_data_from_start getter rsvd e local_offset h f q
              else map_option (\<lambda>(h1, f1). (h1, f1, q)) (rtk_diag_proto_load_data_from_middle rsvd e local_offset h f));
           f2 \<leftarrow> put_bytes 0 (le16_bytes global_offset) f1;
           Some (h1, f2, q1)
         });
     f2 \<leftarrow> rtk_diag_proto_pack_crc f1;
     Some (h1, fs(a \<mapsto> f2), q1)
   }"

section \<open>What a frame carries\<close>

definition carries :: "RtkDiagDataFrame \<Rightarrow> u8 \<Rightarrow> u8 list \<Rightarrow> bool" where
  "carries f cmd data \<longleftrightarrow> f_header f = RTK_DIAG_FRAME_HEADER \<and> f_cmd f = cmd \<and> unat (f_size f) = length data + 1 \<and>
     length data < length (f_payload f) \<and> take (length data + 1) (f_payload f) = data @ [xor_bytes cmd data]"

lemma xor_bytes_append [simp]: "xor_bytes c (xs @ ys) = xor_bytes (xor_bytes c xs) ys"
  by (induction xs arbitrary: c) auto

text \<open>What the receiver checks: the command and the whole payload, check sum included, cancel out.\<close>

lemma carries_checksum: "carries f cmd data \<Longrightarrow> xor_bytes (f_cmd f) (take (unat (f_size f)) (f_payload f)) = 0"
  by (simp add: carries_def)

lemma put_bytes_ok [simp]:
  "i + length bs \<le> length (f_payload f) \<Longrightarrow> put_bytes i bs f = Some (f\<lparr>f_payload := list_blit (f_payload f) i bs\<rparr>)"
  by (simp add: put_bytes_def)

lemma take_list_blit:
  "i + length ys \<le> length xs \<Longrightarrow> take (i + length ys) (list_blit xs i ys) = take i xs @ ys"
  "i + length ys \<le> length xs \<Longrightarrow> j \<le> i \<Longrightarrow> take j (list_blit xs i ys) = take j xs"
  by (simp_all add: list_blit_def min_absorb2)

lemma pack_crc_carries:
  assumes "f_header f = RTK_DIAG_FRAME_HEADER" and "f_cmd f = cmd" and "unat (f_size f) = length data + 1"
    and "length data < length (f_payload f)" and "take (length data) (f_payload f) = data"
  shows "\<exists>f'. rtk_diag_proto_pack_crc f = Some f' \<and> carries f' cmd data \<and> length (f_payload f') = length (f_payload f)"
proof -
  let ?x = "xor_bytes (f_cmd f) data"
  have sz: "f_size f \<noteq> 0" using assms(3) by auto
  have "rtk_diag_proto_pack_crc f = Some (f\<lparr>f_payload := list_blit (f_payload f) (length data) [?x]\<rparr>)"
    using assms(3-5) sz by (simp add: rtk_diag_proto_pack_crc_def)
  moreover have "take (length data + 1) (list_blit (f_payload f) (length data) [?x]) = data @ [?x]"
    using take_list_blit(1) [of "length data" "[?x]" "f_payload f"] assms(4,5) by simp
  ultimately show ?thesis using assms by (simp add: carries_def)
qed

lemma pack_custom_carries:
  assumes "unat n = length data" and "length data < length (f_payload f)" and "length data < 65535"
  shows "\<exists>f'. rtk_diag_proto_pack_custom f cmd data n = Some f' \<and> carries f' cmd data \<and>
    length (f_payload f') = length (f_payload f)"
proof -
  let ?f = "f\<lparr>f_header := RTK_DIAG_FRAME_HEADER, f_size := n + 1, f_cmd := cmd,
      f_payload := list_blit (f_payload f) 0 data\<rparr>"
  have "unat (n + 1) = length data + 1" using assms(1,3) by (subst unat_add_lem [THEN iffD1]) simp_all
  then have "\<exists>f'. rtk_diag_proto_pack_crc ?f = Some f' \<and> carries f' cmd data \<and> length (f_payload f') = length (f_payload ?f)"
    by (intro pack_crc_carries) (use assms in \<open>simp_all add: take_list_blit_0\<close>)
  then show ?thesis using assms by (simp add: rtk_diag_proto_pack_custom_def)
qed

section \<open>What packing an event puts into the frame\<close>

definition evt_ok :: "RtkDiagEvent \<Rightarrow> bool" where
  "evt_ok e \<longleftrightarrow> length (evt_info e) = unat (evt_len e) \<and> unat (evt_len e) \<le> 2048"

definition evt_size :: "RtkDiagEvent \<Rightarrow> nat" where
  "evt_size e = 12 + unat (evt_len e)"

lemma length_event_bytes: "evt_ok e \<Longrightarrow> length (event_bytes rsvd e) = evt_size e"
  by (simp add: event_bytes_def evt_ok_def evt_size_def)

lemma unat_event_size: "evt_ok e \<Longrightarrow> unat (ucast (EVENT_REAL_SIZE e) :: u16) = evt_size e"
proof -
  assume ok: "evt_ok e"
  have "unat (EVENT_REAL_SIZE e) = evt_size e"
    using ok unat_add_no_wrap [of 12 "ucast (evt_len e)"] by (simp add: EVENT_REAL_SIZE_def evt_ok_def evt_size_def)
  then show ?thesis using ok unat_ucast_u32_u16 [of "EVENT_REAL_SIZE e"] by (simp add: evt_ok_def evt_size_def)
qed

lemma of_nat_evt_size: "evt_ok e \<Longrightarrow> (of_nat (evt_size e) :: u16) = ucast (EVENT_REAL_SIZE e)"
  by (simp flip: unat_event_size)

text \<open>The whole events that fit, and the command and data of the frame for an event and an offset in it.\<close>

fun fit :: "nat \<Rightarrow> RtkDiagEvent list \<Rightarrow> RtkDiagEvent list" where
  "fit cap [] = []"
| "fit cap (e # es) = (if evt_size e \<le> cap then e # fit (cap - evt_size e) es else [])"

definition events_image :: "(RtkDiagEvent \<Rightarrow> u8 \<times> u8 \<times> u8) \<Rightarrow> RtkDiagEvent list \<Rightarrow> u8 list" where
  "events_image rsvd es = concat (map (event_bytes rsvd) es)"

definition frame_cmd :: "nat \<Rightarrow> RtkDiagEvent \<Rightarrow> nat \<Rightarrow> u8" where
  "frame_cmd cap e l = (if l = 0 then 0x03 else if cap < evt_size e - l then 0x13 else 0x23)"

definition frame_data :: "(RtkDiagEvent \<Rightarrow> u8 \<times> u8 \<times> u8) \<Rightarrow> nat \<Rightarrow> RtkDiagEvent \<Rightarrow> nat \<Rightarrow> RtkDiagEvent list \<Rightarrow> u8 list" where
  "frame_data rsvd cap e l es =
     (if l = 0 \<and> evt_size e \<le> cap then events_image rsvd (fit cap (e # es)) else take cap (drop l (event_bytes rsvd e)))"

lemma events_image_simps [simp]: "events_image rsvd [] = []" "events_image rsvd (e # es) = event_bytes rsvd e @ events_image rsvd es"
  by (simp_all add: events_image_def)

lemma length_fit: "\<forall>e \<in> set es. evt_ok e \<Longrightarrow> length (events_image rsvd (fit cap es)) \<le> cap"
  by (induction cap es rule: fit.induct) (auto simp: length_event_bytes)

lemma length_frame_data:
  "evt_ok e \<Longrightarrow> \<forall>e \<in> set es. evt_ok e \<Longrightarrow> length (frame_data rsvd cap e l es) \<le> cap"
  using length_fit [of "e # es" rsvd cap] by (auto simp: frame_data_def)

text \<open>The last steps of packing, when the data of the frame is in place.\<close>

lemma pack_event_tail:
  assumes "f_header f = RTK_DIAG_FRAME_HEADER" and "length d + 3 \<le> length (f_payload f)" and "length d + 3 < 65536"
  shows "\<exists>f2 f'. put_bytes 0 (le16_bytes goff)
      (f\<lparr>f_cmd := cmd, f_size := of_nat (length d) + 2 + 1, f_payload := list_blit (f_payload f) 2 d\<rparr>) = Some f2 \<and>
    rtk_diag_proto_pack_crc f2 = Some f' \<and> carries f' cmd (le16_bytes goff @ d) \<and> length (f_payload f') = length (f_payload f)"
proof -
  let ?p = "list_blit (list_blit (f_payload f) 2 d) 0 (le16_bytes goff)"
  let ?f2 = "f\<lparr>f_cmd := cmd, f_size := of_nat (length d) + 2 + 1, f_payload := ?p\<rparr>"
  have "of_nat (length d) + 2 + 1 = (of_nat (length d + 3) :: u16)" by simp
  then have sz: "unat (f_size ?f2) = length d + 3" using assms(3) by (simp add: unat_of_nat del: of_nat_add)
  have p: "take (2 + length d) ?p = le16_bytes goff @ d"
    using assms(2) by (simp add: list_blit_def min_absorb2)
  have "\<exists>f'. rtk_diag_proto_pack_crc ?f2 = Some f' \<and> carries f' cmd (le16_bytes goff @ d) \<and> length (f_payload f') = length (f_payload ?f2)"
    by (rule pack_crc_carries) (use assms(1,2) sz p in simp_all)
  then show ?thesis using assms(2) by simp
qed

lemma of_nat_of_unat: "unat (w :: u16) = n \<Longrightarrow> w = of_nat n"
  by auto

lemma pack_event_middle:
  assumes "evt_ok e" and "0 < unat l" and "unat l < evt_size e" and "data_frame h = Some a" and "fs a = Some f"
    and "f_header f = RTK_DIAG_FRAME_HEADER" and "unat (event_capacity h) + 3 \<le> length (f_payload f)"
    and "unat (event_capacity h) + 3 < 65536"
  shows "\<exists>h' f'. rtk_diag_proto_pack_event getter rsvd h fs q (Some e) goff l = Some (h', fs(a \<mapsto> f'), q) \<and>
    carries f' (frame_cmd (unat (event_capacity h)) e (unat l))
      (le16_bytes goff @ take (unat (event_capacity h)) (drop (unat l) (event_bytes rsvd e))) \<and>
    length (f_payload f') = length (f_payload f) \<and> data_frame h' = data_frame h \<and> event_capacity h' = event_capacity h"
proof -
  let ?cap = "event_capacity h" and ?g = "le16_bytes goff" and ?sz = "ucast (EVENT_REAL_SIZE e) :: u16"
  let ?d = "take (unat ?cap) (drop (unat l) (event_bytes rsvd e))"
  let ?c = "frame_cmd (unat ?cap) e (unat l)"
  note sz = unat_event_size [OF assms(1)] and eb = length_event_bytes [OF assms(1), of rsvd]
  have l0: "l \<noteq> 0" using assms(2) by auto
  have sub: "unat (?sz - l) = evt_size e - unat l" using sz assms(3) by (simp add: unat_sub word_le_nat_alt)
  have more: "int (unat ?sz) - int (unat l) > int (unat ?cap) \<longleftrightarrow> unat ?cap < evt_size e - unat l" using assms(3) unfolding sz by linarith
  have n: "unat (if unat ?cap < evt_size e - unat l then ?cap else ?sz - l) = length ?d" using sub eb by auto
  then have n': "(if unat ?cap < evt_size e - unat l then ?cap else ?sz - l) = of_nat (length ?d)"
    by (rule of_nat_of_unat)
  have un: "unat (of_nat (length ?d) :: u16) = length ?d" using n unfolding n' .
  have dl: "length ?d + 3 \<le> length (f_payload f)" "length ?d + 3 < 65536" using assms(7,8) by auto
  have d: "event_copy rsvd e (unat l) (length ?d) = Some ?d" using eb assms(3) by (auto simp: event_copy_def Let_def min_def)
  have "\<exists>h'. rtk_diag_proto_load_data_from_middle rsvd e l h f =
      Some (h', f\<lparr>f_cmd := ?c, f_size := of_nat (length ?d) + 2 + 1, f_payload := list_blit (f_payload f) 2 ?d\<rparr>) \<and>
      data_frame h' = data_frame h \<and> event_capacity h' = event_capacity h"
    unfolding rtk_diag_proto_load_data_from_middle_def Let_def more n' un d using l0 assms(2,7)
    by (auto simp: frame_cmd_def)
  moreover obtain f2 f' where T: "put_bytes 0 ?g
      (f\<lparr>f_cmd := ?c, f_size := of_nat (length ?d) + 2 + 1, f_payload := list_blit (f_payload f) 2 ?d\<rparr>) = Some f2"
      "rtk_diag_proto_pack_crc f2 = Some f'" "carries f' ?c (?g @ ?d)" "length (f_payload f') = length (f_payload f)"
    using pack_event_tail [OF assms(6) dl, of goff ?c] by (elim exE conjE)
  ultimately show ?thesis using assms(4,5) l0 by (auto simp: rtk_diag_proto_pack_event_def)
qed

lemma pack_event_empty:
  assumes "data_frame h = Some a" and "fs a = Some f" and "f_header f = RTK_DIAG_FRAME_HEADER" and "0 < length (f_payload f)"
  shows "\<exists>f'. rtk_diag_proto_pack_event getter rsvd h fs q None goff l = Some (h, fs(a \<mapsto> f'), q) \<and> carries f' 0x03 [] \<and>
    length (f_payload f') = length (f_payload f)"
proof -
  have "\<exists>f'. rtk_diag_proto_pack_crc (f\<lparr>f_cmd := 0x03, f_size := 1\<rparr>) = Some f' \<and> carries f' 0x03 [] \<and>
      length (f_payload f') = length (f_payload (f\<lparr>f_cmd := 0x03, f_size := 1\<rparr>))"
    by (rule pack_crc_carries) (use assms in simp_all)
  then show ?thesis using assms(1,2) by (auto simp: rtk_diag_proto_pack_event_def)
qed

lemma load_loop_None: "load_loop getter rsvd cap None p tot f q = Some (p, tot, f, q)"
  by (subst load_loop.simps) simp

text \<open>
  What packing relies on of the function that gets the next event: as long as the state is \<open>ok\<close>, it gives
  the next of the events that are \<open>ahead\<close>, and NULL behind the last one; the states before and after are
  related by \<open>keep\<close>.
\<close>

locale event_source =
  fixes getter :: "'q \<Rightarrow> (RtkDiagEvent option \<times> 'q) option"
    and ok :: "'q \<Rightarrow> bool"
    and ahead :: "'q \<Rightarrow> RtkDiagEvent list"
    and keep :: "'q \<Rightarrow> 'q \<Rightarrow> bool"
  assumes getter_some: "ok q \<Longrightarrow> ahead q = e # es \<Longrightarrow> \<exists>q'. getter q = Some (Some e, q') \<and> ok q' \<and> ahead q' = es \<and> keep q q'"
    and getter_none: "ok q \<Longrightarrow> ahead q = [] \<Longrightarrow> \<exists>q'. getter q = Some (None, q') \<and> keep q q'"
    and keep_refl: "keep q q"
    and keep_trans: "keep q q' \<Longrightarrow> keep q' q'' \<Longrightarrow> keep q q''"
begin

lemma load_loop_ok:
  assumes "ok q" and "\<forall>e \<in> set (e # ahead q). evt_ok e" and "unat tot \<le> unat cap"
    and "unat cap + 3 \<le> length (f_payload f)" and "unat cap + 3 < 65536"
  shows "\<exists>p f' q'. load_loop getter rsvd cap (Some e) p0 tot f q =
      Some (p, tot + of_nat (length (events_image rsvd (fit (unat cap - unat tot) (e # ahead q)))), f', q') \<and>
    f' = f\<lparr>f_payload := list_blit (f_payload f) (2 + unat tot) (events_image rsvd (fit (unat cap - unat tot) (e # ahead q)))\<rparr> \<and> keep q q'"
  using assms
proof (induction "ahead q" arbitrary: q e tot f p0)
  case Nil
  have ok: "evt_ok e" using Nil.prems(2) by simp
  obtain q' where g: "getter q = Some (None, q')" "keep q q'" using getter_none [OF Nil.prems(1)] Nil.hyps by auto
  show ?case
  proof (cases "unat cap < evt_size e + unat tot")
    case True
    then have "fit (unat cap - unat tot) (e # ahead q) = []" using Nil.prems(3) by auto
    then show ?thesis using True ok by (subst load_loop.simps) (simp add: Let_def unat_event_size keep_refl)
  next
    case False
    then have "load_loop getter rsvd cap (Some e) p0 tot f q = Some (Some e, tot + ucast (EVENT_REAL_SIZE e),
        f\<lparr>f_payload := list_blit (f_payload f) (2 + unat tot) (event_bytes rsvd e)\<rparr>, q')"
      using ok Nil.prems(4) g
      by (subst load_loop.simps) (simp add: Let_def unat_event_size event_copy_def length_event_bytes load_loop_None)
    moreover have "(of_nat (evt_size e) :: u16) = ucast (EVENT_REAL_SIZE e)" by (rule of_nat_evt_size [OF ok])
    moreover have "fit (unat cap - unat tot) (e # ahead q) = [e]" using False by (simp flip: Nil.hyps)
    ultimately show ?thesis using ok g(2) by (simp add: length_event_bytes)
  qed
next
  case (Cons e2 es)
  have ok: "evt_ok e" using Cons.prems(2) by simp
  obtain q' where g: "getter q = Some (Some e2, q')" "ok q'" "ahead q' = es" "keep q q'"
    using getter_some [OF Cons.prems(1) Cons.hyps(2) [symmetric]] by blast
  have wf: "\<forall>e \<in> set (e2 # ahead q'). evt_ok e" using Cons.prems(2) g(3) by (simp flip: Cons.hyps(2))
  show ?case
  proof (cases "unat cap < evt_size e + unat tot")
    case True
    then have "fit (unat cap - unat tot) (e # ahead q) = []" using Cons.prems(3) by auto
    then show ?thesis using True ok by (subst load_loop.simps) (simp add: Let_def unat_event_size keep_refl)
  next
    case False
    let ?t = "tot + ucast (EVENT_REAL_SIZE e) :: u16"
    let ?f = "f\<lparr>f_payload := list_blit (f_payload f) (2 + unat tot) (event_bytes rsvd e)\<rparr>"
    let ?r = "events_image rsvd (fit (unat cap - unat ?t) (e2 # ahead q'))"
    have es: "(of_nat (evt_size e) :: u16) = ucast (EVENT_REAL_SIZE e)" by (rule of_nat_evt_size [OF ok])
    have t: "unat ?t = unat tot + evt_size e"
      using False Cons.prems(5) unat_event_size [OF ok] by (subst unat_add_lem [THEN iffD1]) simp_all
    have step: "load_loop getter rsvd cap (Some e) p0 tot f q = load_loop getter rsvd cap (Some e2) (Some e) ?t ?f q'"
      using False ok Cons.prems(4) g
      by (subst load_loop.simps) (simp add: Let_def unat_event_size event_copy_def length_event_bytes)
    have len: "length (f_payload ?f) = length (f_payload f)"
      using False ok Cons.prems(4) by (simp add: length_event_bytes)
    have "\<exists>p f' q''. load_loop getter rsvd cap (Some e2) (Some e) ?t ?f q' = Some (p, ?t + of_nat (length ?r), f', q'') \<and>
        f' = ?f\<lparr>f_payload := list_blit (f_payload ?f) (2 + unat ?t) ?r\<rparr> \<and> keep q' q''"
      by (rule Cons.hyps(1)) (use g(2,3) wf Cons.prems(4,5) False t len in simp_all)
    then obtain p f' q'' where R: "load_loop getter rsvd cap (Some e2) (Some e) ?t ?f q' = Some (p, ?t + of_nat (length ?r), f', q'')"
        "f' = ?f\<lparr>f_payload := list_blit (f_payload ?f) (2 + unat ?t) ?r\<rparr>" "keep q' q''" by (elim exE conjE)
    have fit: "fit (unat cap - unat tot) (e # ahead q) = e # fit (unat cap - unat ?t) (e2 # ahead q')"
      using False t g(3) by (simp flip: Cons.hyps(2) add: diff_diff_left)
    have l: "length ?r \<le> unat cap - unat ?t"
      by (rule length_fit [OF wf])
    have blit: "list_blit (list_blit (f_payload f) (2 + unat tot) (event_bytes rsvd e)) (2 + unat ?t) ?r =
        list_blit (f_payload f) (2 + unat tot) (event_bytes rsvd e @ ?r)"
      using list_blit_append [of "2 + unat tot" "event_bytes rsvd e" ?r "f_payload f"] l t False Cons.prems(4) ok
      by (simp add: length_event_bytes)
    show ?thesis
      unfolding step R(1) fit using blit keep_trans [OF g(4) R(3)] by (simp add: R(2) es length_event_bytes [OF ok] del: fit.simps)
  qed
qed

lemma pack_event_start:
  assumes "ok q" and "\<forall>e \<in> set (e # ahead q). evt_ok e" and "data_frame h = Some a" and "fs a = Some f"
    and "f_header f = RTK_DIAG_FRAME_HEADER" and "unat (event_capacity h) + 3 \<le> length (f_payload f)"
    and "unat (event_capacity h) + 3 < 65536"
  shows "\<exists>h' f' q'. rtk_diag_proto_pack_event getter rsvd h fs q (Some e) goff 0 = Some (h', fs(a \<mapsto> f'), q') \<and>
    carries f' 0x03 (le16_bytes goff @ frame_data rsvd (unat (event_capacity h)) e 0 (ahead q)) \<and>
    length (f_payload f') = length (f_payload f) \<and> data_frame h' = data_frame h \<and> event_capacity h' = event_capacity h \<and>
    keep q q'"
proof -
  let ?cap = "event_capacity h" and ?g = "le16_bytes goff"
  let ?d = "frame_data rsvd (unat ?cap) e 0 (ahead q)"
  have ok: "evt_ok e" using assms(2) by simp
  have len: "length ?d \<le> unat ?cap" using length_frame_data [OF ok] assms(2) by simp
  have load: "\<exists>h' q'. rtk_diag_proto_load_data_from_start getter rsvd e 0 h f q =
      Some (h', f\<lparr>f_cmd := 0x03, f_size := of_nat (length ?d) + 2 + 1, f_payload := list_blit (f_payload f) 2 ?d\<rparr>, q') \<and>
      data_frame h' = data_frame h \<and> event_capacity h' = event_capacity h \<and> keep q q'"
  proof (cases "evt_size e \<le> unat ?cap")
    case True
    then have d: "?d = events_image rsvd (fit (unat ?cap) (e # ahead q))" by (simp add: frame_data_def)
    obtain p f' q' where L: "load_loop getter rsvd ?cap (Some e) (last_event h) 0 (f\<lparr>f_cmd := 0x03\<rparr>) q =
        Some (p, of_nat (length ?d), f', q')" "f' = f\<lparr>f_cmd := 0x03, f_payload := list_blit (f_payload f) 2 ?d\<rparr>"
        "keep q q'"
      using load_loop_ok [OF assms(1,2), of 0 ?cap "f\<lparr>f_cmd := 0x03\<rparr>" rsvd "last_event h"] assms(6,7) unfolding d
      by auto
    have "\<not> ?cap < ucast (EVENT_REAL_SIZE e)" using True unat_event_size [OF ok] by (simp add: word_less_nat_alt)
    then show ?thesis using L by (simp add: rtk_diag_proto_load_data_from_start_def)
  next
    case False
    then have "?cap < ucast (EVENT_REAL_SIZE e)" using unat_event_size [OF ok] by (simp add: word_less_nat_alt)
    then show ?thesis using False assms(6) length_event_bytes [OF ok, of rsvd]
      by (simp add: rtk_diag_proto_load_data_from_start_def event_copy_def Let_def frame_data_def keep_refl)
  qed
  obtain f2 f' where T: "put_bytes 0 ?g
      (f\<lparr>f_cmd := 0x03, f_size := of_nat (length ?d) + 2 + 1, f_payload := list_blit (f_payload f) 2 ?d\<rparr>) = Some f2"
      "rtk_diag_proto_pack_crc f2 = Some f'" "carries f' 0x03 (?g @ ?d)" "length (f_payload f') = length (f_payload f)"
    using pack_event_tail [OF assms(5), of ?d goff "0x03"] len assms(6,7) by auto
  show ?thesis using load assms(3,4) T by (auto simp: rtk_diag_proto_pack_event_def)
qed

end

end
