(* ===== verification/Diag_Np.thy ===== *)
theory Diag_Np
  imports Diag_Find Diag_Proto
begin

text \<open>
  The requests of the diagnostics: \<open>ameba_diagnose_np.c\<close> with \<open>rtk_diag_req_low\<close> of
  \<open>ameba_diagnose_common.c\<close> and the UART sender of \<open>ameba_diagnose_transform.c\<close>. The file is compiled for the
  network processor, where frames stay in a shared buffer and a hardware semaphore guards the queue, and
  for the single core (\<open>DIAG_CORE_AS_AP\<close>), where frames are sent at once and there is no lock. What the
  functions get from outside (the compile switches, the result of taking the semaphore, which is a ROM
  function, of each allocation of memory, the clock, the generated hash string) is a record of its own.
\<close>

section \<open>State\<close>

record DiagEnv =
  as_ap :: bool
  debug_test :: bool
  sem_ok :: bool
  malloc_ok :: "nat \<Rightarrow> bool"
  now_ms :: u32
  rsvd_of :: "RtkDiagEvent \<Rightarrow> u8 \<times> u8 \<times> u8"
  format_hash :: "u8 list"
  stack_byte :: u8

record DiagIo =
  g_diag_sender :: "(u8 list \<Rightarrow> int) option"
  g_using_frame_buffer :: "nat option"
  g_using_frame_buffer_capacity :: u16
  frames :: frames
  sent :: "u8 list list"
  g_diag_debug_log_state :: u8
  log_info :: bool

record DiagNp = DiagIo +
  g_initialized :: bool
  np_queue :: "RtkDiagQueue option"
  np_proto :: "RtkDiagTransform option"
  sem_held :: bool
  g_diag_trans_print :: u8

definition RTK_FAIL :: int where "RTK_FAIL = - 1"

definition RTK_ERR_BUSY :: int where "RTK_ERR_BUSY = 3"

definition RTK_ERR_DIAG_TOO_SMALL_BUFF :: int where "RTK_ERR_DIAG_TOO_SMALL_BUFF = 0x66"

definition RTK_ERR_DIAG_EVT_FIND_FAIL :: int where "RTK_ERR_DIAG_EVT_FIND_FAIL = 0x72"

abbreviation (input) "SEND_BUFFER_SIZE_MIN \<equiv> 9"

abbreviation (input) "CMD_TYPE_OSTIME \<equiv> 0x01 :: u8"

abbreviation (input) "CMD_TYPE_BUFFER \<equiv> 0x02 :: u8"

abbreviation (input) "CMD_TYPE_READ \<equiv> 0x03 :: u8"

abbreviation (input) "CMD_TYPE_HEAP \<equiv> 0x04 :: u8"

abbreviation (input) "CMD_TYPE_VER \<equiv> 0x05 :: u8"

abbreviation (input) "CMD_TYPE_GET_DEL \<equiv> 0x06 :: u8"

abbreviation (input) "CMD_TYPE_CLR_DEL \<equiv> 0x07 :: u8"

abbreviation (input) "CMD_TYPE_DEL_BF \<equiv> 0x08 :: u8"

abbreviation (input) "CMD_TYPE_DEL_AF \<equiv> 0x09 :: u8"

abbreviation (input) "CMD_TYPE_SET_LOG \<equiv> 0x0A :: u8"

abbreviation (input) "CMD_TYPE_SET_DBG_LOG \<equiv> 0x20 :: u8"

abbreviation (input) "CMD_TYPE_NONE \<equiv> 0x21 :: u8"

section \<open>Sending\<close>

definition frame_bytes :: "RtkDiagDataFrame \<Rightarrow> u8 list" where
  "frame_bytes f = le16_bytes (f_header f) @ le16_bytes (f_size f) @ [f_cmd f] @ f_payload f"

text \<open>The characters go out one by one; the caller keeps what was sent.\<close>

definition rtk_diag_uart_send :: "u8 list \<Rightarrow> int" where
  "rtk_diag_uart_send data = RTK_SUCCESS"

text \<open>A call of the sender with the frame that is in use, as long as its size field says.\<close>

definition diag_send :: "'a DiagIo_scheme \<Rightarrow> (int \<times> 'a DiagIo_scheme) option" where
  "diag_send s = do {
     send \<leftarrow> g_diag_sender s;
     a \<leftarrow> g_using_frame_buffer s;
     f \<leftarrow> frames s a;
     let n = unat (sizeof_RtkDiagDataFrame + f_size f);
     if n \<le> length (frame_bytes f)
     then Some (send (take n (frame_bytes f)), s\<lparr>sent := sent s @ [take n (frame_bytes f)]\<rparr>)
     else None
   }"

text \<open>\<open>rtk_diag_req_low\<close>; a payload of NULL reports the error.\<close>

definition rtk_diag_req_low ::
  "DiagEnv \<Rightarrow> u8 \<Rightarrow> u8 list option \<Rightarrow> u16 \<Rightarrow> int \<Rightarrow> 'a DiagIo_scheme \<Rightarrow> (int \<times> 'a DiagIo_scheme) option" where
  "rtk_diag_req_low env cmd payload payload_length err s = do {
     a \<leftarrow> g_using_frame_buffer s;
     f \<leftarrow> frames s a;
     f1 \<leftarrow> (case payload of
              Some p \<Rightarrow> rtk_diag_proto_pack_custom f cmd p payload_length
            | None \<Rightarrow> rtk_diag_proto_pack_error f cmd (of_int err));
     let s1 = s\<lparr>frames := (frames s)(a \<mapsto> f1)\<rparr>;
     if as_ap env then do {
       (r, s2) \<leftarrow> diag_send s1;
       Some (RTK_SUCCESS, s2)
     }
     else Some (RTK_SUCCESS, s1)
   }"

definition rtk_diag_lock_acquire :: "DiagEnv \<Rightarrow> u8 \<Rightarrow> DiagNp \<Rightarrow> (bool \<times> DiagNp) option" where
  "rtk_diag_lock_acquire env cmd_type s =
     (if as_ap env then Some (True, s)
      else if sem_ok env then Some (True, s\<lparr>sem_held := True\<rparr>)
      else if cmd_type \<noteq> CMD_TYPE_NONE then do {
        (r, s1) \<leftarrow> rtk_diag_req_low env cmd_type None 0 RTK_ERR_BUSY s;
        Some (False, s1)
      }
      else Some (False, s))"

definition rtk_diag_lock_release :: "DiagEnv \<Rightarrow> DiagNp \<Rightarrow> DiagNp" where
  "rtk_diag_lock_release env s = (if as_ap env then s else s\<lparr>sem_held := False\<rparr>)"

text \<open>The shape all requests have: nothing is done without the lock.\<close>

definition locked :: "DiagEnv \<Rightarrow> u8 \<Rightarrow> (DiagNp \<Rightarrow> (int \<times> DiagNp) option) \<Rightarrow> DiagNp \<Rightarrow> (int \<times> DiagNp) option" where
  "locked env cmd body s = do {
     (got, s1) \<leftarrow> rtk_diag_lock_acquire env cmd s;
     if \<not> got then Some (RTK_ERR_BUSY, s1) else body s1
   }"

definition unlocking :: "DiagEnv \<Rightarrow> int \<times> DiagNp \<Rightarrow> int \<times> DiagNp" where
  "unlocking env rs = (fst rs, rtk_diag_lock_release env (snd rs))"

section \<open>Start and configuration\<close>

text \<open>The initial contents of the blocks that are allocated are arguments.\<close>

definition rtk_diag_init ::
  "DiagEnv \<Rightarrow> RtkDiagQueue \<Rightarrow> RtkDiagDeletedEvent \<Rightarrow> evt_ptr \<Rightarrow> RtkDiagTransform \<Rightarrow> u16 \<Rightarrow> u16 \<Rightarrow> DiagNp \<Rightarrow> (int \<times> DiagNp) option" where
  "rtk_diag_init env junk_q junk_del junk_ptr junk_h heap_cap sender_buffer_size s =
     (if g_initialized s then Some (RTK_SUCCESS, s)
      else
        let ok = malloc_ok env;
            (res, q) = rtk_diag_queue_init (ok 0) (ok 1) (ok 2) (ok 3) junk_q junk_del junk_ptr heap_cap 4096;
            s1 = s\<lparr>np_queue := q\<rparr>
        in if res \<noteq> 0 then Some (res, s1)
        else
          let (res, h) = rtk_diag_proto_init (ok 4) junk_h; s2 = s1\<lparr>np_proto := h\<rparr> in
          if res \<noteq> 0 then do {
            q1 \<leftarrow> q;
            q2 \<leftarrow> rtk_diag_queue_deinit (debug_test env) q1;
            Some (res, s2\<lparr>np_queue := None\<rparr>)
          }
          else Some (RTK_SUCCESS, s2\<lparr>g_initialized := True, g_diag_debug_log_state := 0\<rparr>))"

definition rtk_diag_deinit :: "DiagEnv \<Rightarrow> DiagNp \<Rightarrow> DiagNp option" where
  "rtk_diag_deinit env s =
     (if \<not> g_initialized s then Some s
      else do {
        q \<leftarrow> np_queue s;
        q1 \<leftarrow> rtk_diag_queue_deinit (debug_test env) q;
        Some (s\<lparr>g_initialized := False, np_proto := rtk_diag_proto_deinit (np_proto s), np_queue := None\<rparr>)
      })"

text \<open>The call of \<open>rtk_diag_proto_set_buffer\<close> with the buffer in use.\<close>

definition use_buffer :: "DiagNp \<Rightarrow> DiagNp option" where
  "use_buffer s = do {
     h \<leftarrow> np_proto s;
     (h1, fs) \<leftarrow> rtk_diag_proto_set_buffer h (frames s) (g_using_frame_buffer s) (g_using_frame_buffer_capacity s);
     Some (s\<lparr>np_proto := Some h1, frames := fs\<rparr>)
   }"

definition rtk_diag_config_transform ::
  "DiagEnv \<Rightarrow> (u8 list \<Rightarrow> int) option \<Rightarrow> nat option \<Rightarrow> u16 \<Rightarrow> DiagNp \<Rightarrow> (int \<times> DiagNp) option" where
  "rtk_diag_config_transform env sender sender_buffer sender_buffer_size = locked env CMD_TYPE_NONE (\<lambda>s0.
     let s = s0\<lparr>g_diag_sender := Some (case sender of None \<Rightarrow> rtk_diag_uart_send | Some f \<Rightarrow> f)\<rparr>;
         finish = (\<lambda>s1. map_option (\<lambda>s2. unlocking env (RTK_SUCCESS, s2)) (use_buffer s1))
     in case sender_buffer of
          None \<Rightarrow> finish s
        | Some b \<Rightarrow>
            if sender_buffer_size < SEND_BUFFER_SIZE_MIN then Some (RTK_ERR_DIAG_TOO_SMALL_BUFF, s)
            else if g_using_frame_buffer s = Some b \<and> g_using_frame_buffer_capacity s = sender_buffer_size
            then Some (RTK_SUCCESS, s)
            else finish (s\<lparr>g_using_frame_buffer := Some b, g_using_frame_buffer_capacity := sender_buffer_size\<rparr>))"

definition rtk_diag_transform_has_configed :: "'a DiagIo_scheme \<Rightarrow> bool" where
  "rtk_diag_transform_has_configed s \<longleftrightarrow> g_diag_sender s \<noteq> None \<and> g_using_frame_buffer s \<noteq> None"

section \<open>Requests\<close>

definition rtk_diag_event_add :: "DiagEnv \<Rightarrow> u8 \<Rightarrow> u16 \<Rightarrow> u8 list \<Rightarrow> u16 \<Rightarrow> DiagNp \<Rightarrow> (int \<times> DiagNp) option" where
  "rtk_diag_event_add env level ty info len = locked env CMD_TYPE_NONE (\<lambda>s. do {
     q \<leftarrow> np_queue s;
     (res, q1) \<leftarrow> rtk_diag_queue_enqueue (debug_test env) (malloc_ok env 0) q (now_ms env) level ty info len;
     Some (unlocking env (res, s\<lparr>np_queue := Some q1\<rparr>))
   })"

definition rtk_diag_req_add_event :: "DiagEnv \<Rightarrow> u32 \<Rightarrow> u8 \<Rightarrow> u16 \<Rightarrow> u8 list \<Rightarrow> u16 \<Rightarrow> DiagNp \<Rightarrow> (int \<times> DiagNp) option" where
  "rtk_diag_req_add_event env timestamp level ty info len = locked env CMD_TYPE_READ (\<lambda>s. do {
     q \<leftarrow> np_queue s;
     (res, q1) \<leftarrow> rtk_diag_queue_enqueue (debug_test env) (malloc_ok env 0) q timestamp level ty info len;
     Some (unlocking env (res, s\<lparr>np_queue := Some q1\<rparr>))
   })"

definition rtk_diag_req_timestamp :: "DiagEnv \<Rightarrow> 'a DiagIo_scheme \<Rightarrow> (int \<times> 'a DiagIo_scheme) option" where
  "rtk_diag_req_timestamp env = rtk_diag_req_low env CMD_TYPE_OSTIME (Some (le32_bytes (now_ms env))) 4 0"

definition rtk_diag_req_version :: "DiagEnv \<Rightarrow> 'a DiagIo_scheme \<Rightarrow> (int \<times> 'a DiagIo_scheme) option" where
  "rtk_diag_req_version env =
     rtk_diag_req_low env CMD_TYPE_VER (Some (format_hash env)) (of_nat (length (format_hash env))) 0"

definition rtk_diag_req_set_buf_com_capacity :: "DiagEnv \<Rightarrow> nat option \<Rightarrow> u16 \<Rightarrow> DiagNp \<Rightarrow> (int \<times> DiagNp) option" where
  "rtk_diag_req_set_buf_com_capacity env sender_buffer capacity = locked env CMD_TYPE_BUFFER (\<lambda>s.
     case sender_buffer of
       Some b \<Rightarrow> do {
         let s1 = (if g_using_frame_buffer s \<noteq> Some b \<or> g_using_frame_buffer_capacity s \<noteq> capacity
                   then s\<lparr>g_using_frame_buffer := Some b, g_using_frame_buffer_capacity := capacity\<rparr> else s);
         (r, s2) \<leftarrow> rtk_diag_req_low env CMD_TYPE_BUFFER (Some (le16_bytes capacity)) 2 0 s1;
         Some (unlocking env (RTK_SUCCESS, s2))
       }
     | None \<Rightarrow> do {
         let ret = (if capacity < SEND_BUFFER_SIZE_MIN then RTK_ERR_DIAG_TOO_SMALL_BUFF else RTK_ERR_DIAG_MALLOC);
         (r, s2) \<leftarrow> rtk_diag_req_low env CMD_TYPE_BUFFER None 0 ret s;
         Some (unlocking env (ret, s2))
       })"

definition rtk_diag_req_set_buf_evt_capacity :: "DiagEnv \<Rightarrow> u16 \<Rightarrow> DiagNp \<Rightarrow> (int \<times> DiagNp) option" where
  "rtk_diag_req_set_buf_evt_capacity env capacity = locked env CMD_TYPE_HEAP (\<lambda>s. do {
     q \<leftarrow> np_queue s;
     let q1 = snd (rtk_diag_queue_set_total_capacity q capacity);
     let cap = rtk_diag_queue_get_total_capacity q1;
     rs \<leftarrow> rtk_diag_req_low env CMD_TYPE_HEAP (Some (le16_bytes cap)) 2 0 (s\<lparr>np_queue := Some q1\<rparr>);
     Some (unlocking env rs)
   })"

definition rtk_diag_next_event_callback :: "RtkDiagQueue \<Rightarrow> (RtkDiagEvent option \<times> RtkDiagQueue) option" where
  "rtk_diag_next_event_callback = rtk_diag_queue_next_to_prev_find"

text \<open>A frame buffer of NULL is left with the lock taken.\<close>

definition rtk_diag_req_get_event :: "DiagEnv \<Rightarrow> u32 \<Rightarrow> u16 \<Rightarrow> DiagNp \<Rightarrow> (int \<times> DiagNp) option" where
  "rtk_diag_req_get_event env timestamp offset = locked env CMD_TYPE_READ (\<lambda>s. do {
     q \<leftarrow> np_queue s;
     (event, global_offset, local_offset, result, q1) \<leftarrow> rtk_diag_queue_find q timestamp offset 0;
     let s1 = s\<lparr>np_queue := Some q1\<rparr>;
     if event = None \<and> result \<noteq> RTK_ERR_DIAG_EVT_NO_MORE then do {
       (r, s2) \<leftarrow> rtk_diag_req_low env CMD_TYPE_READ None 0 RTK_ERR_DIAG_EVT_FIND_FAIL s1;
       Some (unlocking env (RTK_FAIL, s2))
     }
     else do {
       h \<leftarrow> np_proto s1;
       (h1, fs, q2) \<leftarrow> rtk_diag_proto_pack_event rtk_diag_next_event_callback (rsvd_of env) h (frames s1) q1
                          event global_offset local_offset;
       let s2 = s1\<lparr>np_proto := Some h1, frames := fs, np_queue := Some q2\<rparr>;
       if g_using_frame_buffer s2 = None then do {
         (r, s3) \<leftarrow> rtk_diag_req_low env CMD_TYPE_READ None 0 RTK_ERR_DIAG_EVT_FIND_FAIL s2;
         Some (RTK_FAIL, s3)
       }
       else do {
         rs \<leftarrow> (if as_ap env then diag_send s2 else Some (RTK_SUCCESS, s2));
         Some (unlocking env rs)
       }
     }
   })"

definition rtk_diag_req_del_event_before :: "DiagEnv \<Rightarrow> u32 \<Rightarrow> DiagNp \<Rightarrow> (int \<times> DiagNp) option" where
  "rtk_diag_req_del_event_before env timestamp = locked env CMD_TYPE_DEL_BF (\<lambda>s. do {
     q \<leftarrow> np_queue s;
     (r, cnt, q1) \<leftarrow> rtk_diag_queue_del_before (debug_test env) q timestamp;
     rs \<leftarrow> rtk_diag_req_low env CMD_TYPE_DEL_BF (Some (le16_bytes cnt)) 2 0 (s\<lparr>np_queue := Some q1\<rparr>);
     Some (unlocking env rs)
   })"

definition rtk_diag_req_del_event_after :: "DiagEnv \<Rightarrow> u32 \<Rightarrow> DiagNp \<Rightarrow> (int \<times> DiagNp) option" where
  "rtk_diag_req_del_event_after env timestamp = locked env CMD_TYPE_DEL_AF (\<lambda>s. do {
     q \<leftarrow> np_queue s;
     (r, cnt, q1) \<leftarrow> rtk_diag_queue_del_after (debug_test env) q timestamp;
     rs \<leftarrow> rtk_diag_req_low env CMD_TYPE_DEL_AF (Some (le16_bytes cnt)) 2 0 (s\<lparr>np_queue := Some q1\<rparr>);
     Some (unlocking env rs)
   })"

text \<open>The loop that writes type and time of the deleted events.\<close>

fun put_deleted :: "(RtkDiagEvent, RtkDiagDeletedEvent) RingArray \<Rightarrow> nat \<Rightarrow> nat \<Rightarrow> RtkDiagDataFrame \<Rightarrow> RtkDiagDataFrame option" where
  "put_deleted arr i 0 f = Some f"
| "put_deleted arr i (Suc n) f = do {
     d \<leftarrow> rtk_diag_ring_array_view (Some arr) (of_nat i);
     f1 \<leftarrow> put_bytes (6 * i) (le16_bytes (del_type d)) f;
     f2 \<leftarrow> put_bytes (6 * i + 2) (le32_bytes (del_time d)) f1;
     put_deleted arr (Suc i) n f2
   }"

definition rtk_diag_req_get_del_events :: "DiagEnv \<Rightarrow> DiagNp \<Rightarrow> (int \<times> DiagNp) option" where
  "rtk_diag_req_get_del_events env = locked env CMD_TYPE_GET_DEL (\<lambda>s. do {
     q \<leftarrow> np_queue s;
     let arr = rtk_diag_queue_get_del_list q;
     let cnt = rtk_diag_ring_array_size (Some arr);
     let len = (ucast (cnt * 6 + 1) :: u16);
     let cap = g_using_frame_buffer_capacity s;
     let (cnt, len) =
       (if (sizeof_RtkDiagDataFrame + ucast len :: u32) > ucast cap
        then let c = (ucast cap - sizeof_RtkDiagDataFrame - 1) div 6 in (c, ucast (c * 6 + 1))
        else (cnt, len));
     a \<leftarrow> g_using_frame_buffer s;
     f \<leftarrow> frames s a;
     f1 \<leftarrow> put_deleted arr 0 (unat cnt) (f\<lparr>f_header := RTK_DIAG_FRAME_HEADER, f_size := len, f_cmd := CMD_TYPE_GET_DEL\<rparr>);
     f2 \<leftarrow> rtk_diag_proto_pack_crc f1;
     let s1 = s\<lparr>frames := (frames s)(a \<mapsto> f2)\<rparr>;
     rs \<leftarrow> (if as_ap env then diag_send s1 else Some (RTK_SUCCESS, s1));
     Some (unlocking env rs)
   })"

text \<open>The byte that is sent is the result variable before it has a value.\<close>

definition rtk_diag_req_clr_del_events :: "DiagEnv \<Rightarrow> DiagNp \<Rightarrow> (int \<times> DiagNp) option" where
  "rtk_diag_req_clr_del_events env = locked env CMD_TYPE_CLR_DEL (\<lambda>s. do {
     q \<leftarrow> np_queue s;
     let q1 = snd (rtk_diag_queue_clr_del_list q);
     rs \<leftarrow> rtk_diag_req_low env CMD_TYPE_CLR_DEL (Some [stack_byte env]) 1 0 (s\<lparr>np_queue := Some q1\<rparr>);
     Some (unlocking env rs)
   })"

definition rtk_diag_req_log_enable :: "u8 \<Rightarrow> 'a DiagIo_scheme \<Rightarrow> int \<times> 'a DiagIo_scheme" where
  "rtk_diag_req_log_enable state s = (RTK_SUCCESS, s\<lparr>log_info := (state \<noteq> 0)\<rparr>)"

definition rtk_diag_req_dbg_log_enable :: "u8 \<Rightarrow> 'a DiagIo_scheme \<Rightarrow> int \<times> 'a DiagIo_scheme" where
  "rtk_diag_req_dbg_log_enable state s = (RTK_SUCCESS, s\<lparr>g_diag_debug_log_state := state\<rparr>)"

section \<open>Messages of the other core\<close>

record RtkDiagAtCmd =
  at_type :: u8
  at_timestamp :: u32
  at_offset :: u16
  at_capacity :: u32
  at_log :: u8

text \<open>What the address of a message points to.\<close>

datatype ipc_data = ToBuffer "nat option" | ToCmd RtkDiagAtCmd | ToEvent RtkDiagEvent

record RtkDiagIpcMsg =
  msg_addr :: ipc_data
  msg_size :: u32
  msg_type :: u8
  msg_flag :: int

abbreviation (input) "IPC_WAIT_RESPONSE \<equiv> - 255 :: int"

abbreviation (input) "IPC_DATA_READY \<equiv> - 254 :: int"

abbreviation (input) "IPC_MSG_TYPE_CONFIG \<equiv> 0x00 :: u8"

abbreviation (input) "IPC_MSG_TYPE_ATCMD \<equiv> 0x01 :: u8"

abbreviation (input) "IPC_MSG_TYPE_EVT_ADD \<equiv> 0x02 :: u8"

text \<open>The switch over the command: the flag and the state; the results of most requests are dropped.\<close>

definition atcmd_switch :: "DiagEnv \<Rightarrow> RtkDiagAtCmd \<Rightarrow> DiagNp \<Rightarrow> (int \<times> DiagNp) option" where
  "atcmd_switch env c s =
     (let wait = map_option (\<lambda>rs. (IPC_WAIT_RESPONSE, snd rs)) in
      if at_type c = CMD_TYPE_READ then wait (rtk_diag_req_get_event env (at_timestamp c) (at_offset c) s)
      else if at_type c = CMD_TYPE_HEAP then wait (rtk_diag_req_set_buf_evt_capacity env (ucast (at_capacity c)) s)
      else if at_type c = CMD_TYPE_GET_DEL then wait (rtk_diag_req_get_del_events env s)
      else if at_type c = CMD_TYPE_CLR_DEL then wait (rtk_diag_req_clr_del_events env s)
      else if at_type c = CMD_TYPE_DEL_BF then wait (rtk_diag_req_del_event_before env (at_timestamp c) s)
      else if at_type c = CMD_TYPE_DEL_AF then rtk_diag_req_del_event_after env (at_timestamp c) s
      else if at_type c = CMD_TYPE_SET_LOG then Some (rtk_diag_req_log_enable (at_log c) s)
      else if debug_test env \<and> at_type c = CMD_TYPE_SET_DBG_LOG then
        let s1 = (if at_log c = 0 \<or> at_log c = 1 then snd (rtk_diag_req_dbg_log_enable (at_log c) s)
                  else s\<lparr>g_diag_trans_print := (if at_log c = 10 then 0 else 1)\<rparr>)
        in Some (rtk_diag_req_dbg_log_enable (at_log c) s1)
      else Some (RTK_ERR_BADARG, s))"

definition rtk_diag_ipc_recv :: "DiagEnv \<Rightarrow> RtkDiagIpcMsg \<Rightarrow> DiagNp \<Rightarrow> (RtkDiagIpcMsg \<times> DiagNp) option" where
  "rtk_diag_ipc_recv env m s =
     (if msg_type m = IPC_MSG_TYPE_CONFIG then
        (case msg_addr m of
           ToBuffer b \<Rightarrow> do {
             s1 \<leftarrow> use_buffer (s\<lparr>g_using_frame_buffer := b, g_using_frame_buffer_capacity := ucast (msg_size m)\<rparr>);
             Some (m\<lparr>msg_flag := RTK_SUCCESS\<rparr>, s1)
           }
         | _ \<Rightarrow> None)
      else if msg_type m = IPC_MSG_TYPE_ATCMD then
        (case msg_addr m of
           ToCmd c \<Rightarrow> do {
             (flag, s1) \<leftarrow> atcmd_switch env c s;
             Some (m\<lparr>msg_flag := (if flag = IPC_WAIT_RESPONSE then IPC_DATA_READY else flag)\<rparr>, s1)
           }
         | _ \<Rightarrow> None)
      else if msg_type m = IPC_MSG_TYPE_EVT_ADD then
        (case msg_addr m of
           ToEvent e \<Rightarrow> do {
             (res, s1) \<leftarrow> rtk_diag_req_add_event env (evt_time e) (evt_level e) (evt_type e) (evt_info e) (evt_len e) s;
             Some (m\<lparr>msg_flag := res\<rparr>, s1)
           }
         | _ \<Rightarrow> None)
      else Some (m\<lparr>msg_flag := RTK_ERR_BADARG\<rparr>, s))"

end
