(* ===== verification/Diag_Log.thy ===== *)
theory Diag_Log
  imports Diag_Np
begin

text \<open>
  Reading the event log over frames: what the requests of \<open>ameba_diagnose_np.c\<close> send, put together from the
  queue that finds the event and the protocol that packs it.
\<close>

section \<open>The queue as a source of events\<close>

lemma cursor_update [simp]:
  "event_at (q\<lparr>prev_find_node := n\<rparr>) p = event_at q p" "q_events (q\<lparr>prev_find_node := n\<rparr>) = q_events q"
  "ptr_ok (q\<lparr>prev_find_node := n\<rparr>) p = ptr_ok q p" "ptr_block (q\<lparr>prev_find_node := n\<rparr>) p = ptr_block q p"
  "ptr_big (q\<lparr>prev_find_node := n\<rparr>) p = ptr_big q p"
proof -
  show e: "event_at (q\<lparr>prev_find_node := n\<rparr>) p = event_at q p" for p by (cases p) simp_all
  show "q_events (q\<lparr>prev_find_node := n\<rparr>) = q_events q" by (simp add: q_events_def e)
  show "ptr_ok (q\<lparr>prev_find_node := n\<rparr>) p = ptr_ok q p" by (cases p) (simp_all split: option.splits)
  show "ptr_block (q\<lparr>prev_find_node := n\<rparr>) p = ptr_block q p" by (cases p) simp_all
  show "ptr_big (q\<lparr>prev_find_node := n\<rparr>) p = ptr_big q p" by (cases p) simp_all
qed

lemma cursor_fun [simp]:
  "ptr_block (q\<lparr>prev_find_node := n\<rparr>) = ptr_block q" "ptr_big (q\<lparr>prev_find_node := n\<rparr>) = ptr_big q"
  by (rule ext, simp)+

lemma cursor_inv [simp]: "q_inv (q\<lparr>prev_find_node := n\<rparr>) = q_inv q"
  by (simp add: q_inv_def nodes_ok_def q_blocks_def q_big_def)

definition cursor_ok :: "RtkDiagQueue \<Rightarrow> bool" where
  "cursor_ok q \<longleftrightarrow> q_inv q \<and> unat (prev_find_node q) < length (q_events q)"

definition behind_cursor :: "RtkDiagQueue \<Rightarrow> RtkDiagEvent list" where
  "behind_cursor q = drop (Suc (unat (prev_find_node q))) (q_events q)"

definition cursor_moved :: "RtkDiagQueue \<Rightarrow> RtkDiagQueue \<Rightarrow> bool" where
  "cursor_moved q q' \<longleftrightarrow> (\<exists>n. q' = q\<lparr>prev_find_node := n\<rparr>)"

lemma next_event:
  assumes "cursor_ok q"
  shows "rtk_diag_next_event_callback q =
    Some (if behind_cursor q = [] then None else Some (hd (behind_cursor q)), q\<lparr>prev_find_node := prev_find_node q + 1\<rparr>)"
    and "unat (prev_find_node q + 1) = Suc (unat (prev_find_node q))"
proof -
  let ?i = "unat (prev_find_node q)"
  have inv: "q_inv q" and i: "?i < length (q_events q)" using assms by (simp_all add: cursor_ok_def)
  have small: "Suc ?i \<le> 5461" using count_small(1) [OF inv] i by simp
  then show u: "unat (prev_find_node q + 1) = Suc ?i" by (subst unat_add_lem [THEN iffD1]) simp_all
  have s: "prev_find_node q + 1 = of_nat (Suc ?i)" by simp
  have n: "prev_find_node q \<noteq> INVALID_EVENT_NODE" using small by auto
  show "rtk_diag_next_event_callback q =
    Some (if behind_cursor q = [] then None else Some (hd (behind_cursor q)), q\<lparr>prev_find_node := prev_find_node q + 1\<rparr>)"
  proof (cases "Suc ?i < length (q_events q)")
    case True
    obtain p where p: "ra_get (evt_node_arr q) (ucast (prev_find_node q + 1)) = Some p" "event_at q p = Some (q_events q ! Suc ?i)"
      using index_event [OF inv True] unfolding s [symmetric] by (auto simp: Option.bind_eq_Some_conv)
    then show ?thesis using n True
      by (simp add: rtk_diag_next_event_callback_def rtk_diag_queue_next_to_prev_find_def Let_def behind_cursor_def hd_drop_conv_nth)
  next
    case False
    then have "unat (ucast (prev_find_node q + 1) :: u32) \<ge> unat (ra_count (evt_node_arr q))"
      using u count_small(2) [OF inv] by simp
    then have "ra_get (evt_node_arr q) (ucast (prev_find_node q + 1)) = None"
      by (simp add: ra_get_def word_le_nat_alt)
    then show ?thesis using n False
      by (simp add: rtk_diag_next_event_callback_def rtk_diag_queue_next_to_prev_find_def Let_def behind_cursor_def)
  qed
qed

interpretation evs: event_source rtk_diag_next_event_callback cursor_ok behind_cursor cursor_moved
proof unfold_locales
  show "\<exists>q'. rtk_diag_next_event_callback q = Some (Some e, q') \<and> cursor_ok q' \<and> behind_cursor q' = es \<and> cursor_moved q q'"
    if "cursor_ok q" "behind_cursor q = e # es" for q e es
  proof -
    note n = next_event [OF that(1)]
    have "Suc (unat (prev_find_node q)) < length (q_events q)"
      using that(2) unfolding behind_cursor_def by (metis drop_eq_Nil2 list.distinct(1) not_le)
    then have "cursor_ok (q\<lparr>prev_find_node := prev_find_node q + 1\<rparr>)" using that(1) n(2) by (simp add: cursor_ok_def)
    moreover have "behind_cursor (q\<lparr>prev_find_node := prev_find_node q + 1\<rparr>) = es"
      using that(2) n(2) by (simp add: behind_cursor_def) (metis drop_Suc list.sel(3) tl_drop)
    ultimately show ?thesis using n(1) that(2) by (auto simp: cursor_moved_def)
  qed
  show "\<exists>q'. rtk_diag_next_event_callback q = Some (None, q') \<and> cursor_moved q q'"
    if "cursor_ok q" "behind_cursor q = []" for q
    using next_event(1) [OF that(1)] that(2) by (auto simp: cursor_moved_def)
  show "cursor_moved q q" for q
  proof -
    have "q = q\<lparr>prev_find_node := prev_find_node q\<rparr>" by simp
    then show ?thesis unfolding cursor_moved_def by blast
  qed
  show "cursor_moved q q''" if "cursor_moved q q'" "cursor_moved q' q''" for q q' q''
    using that by (auto simp: cursor_moved_def)
qed

section \<open>A configured system\<close>

text \<open>The protocol writes into the buffer that is sent, the buffer is as large as it is said to be, and the
  events of the queue are well formed.\<close>

definition np_ok :: "DiagNp \<Rightarrow> RtkDiagQueue \<Rightarrow> bool" where
  "np_ok s q \<longleftrightarrow> np_queue s = Some q \<and> q_inv q \<and> (\<forall>e \<in> set (q_events q). evt_ok e) \<and>
     9 \<le> unat (g_using_frame_buffer_capacity s) \<and>
     (\<exists>h a f. np_proto s = Some h \<and> data_frame h = Some a \<and> g_using_frame_buffer s = Some a \<and> frames s a = Some f \<and>
        f_header f = RTK_DIAG_FRAME_HEADER \<and> length (f_payload f) + 5 = unat (g_using_frame_buffer_capacity s) \<and>
        unat (event_capacity h) + 8 = unat (g_using_frame_buffer_capacity s))"

definition room :: "DiagNp \<Rightarrow> nat" where
  "room s = unat (g_using_frame_buffer_capacity s) - 8"

text \<open>The bytes of a frame with that command and data, and the return code of the sender for them.\<close>

definition wire :: "u8 \<Rightarrow> u8 list \<Rightarrow> u8 list" where
  "wire cmd data = le16_bytes RTK_DIAG_FRAME_HEADER @ le16_bytes (of_nat (length data + 1)) @ [cmd] @ data @ [xor_bytes cmd data]"

definition sent_one :: "DiagNp \<Rightarrow> u8 list \<Rightarrow> RtkDiagQueue \<Rightarrow> DiagNp \<Rightarrow> bool" where
  "sent_one s bs q' s' \<longleftrightarrow> np_ok s' q' \<and> sent s' = sent s @ [bs] \<and> room s' = room s \<and> g_diag_sender s' = g_diag_sender s"

lemma frame_bytes_wire:
  assumes "carries f cmd data" and "length data + 6 < 65536"
  shows "take (unat (5 + f_size f)) (frame_bytes f) = wire cmd data" and "unat (5 + f_size f) \<le> length (frame_bytes f)"
proof -
  have sz: "unat (f_size f) = length data + 1" using assms(1) by (simp add: carries_def)
  have n: "unat (5 + f_size f) = Suc (Suc (Suc (Suc (Suc (Suc (length data))))))" using sz assms(2) by (subst unat_add_lem [THEN iffD1]) simp_all
  have w: "f_size f = of_nat (length data + 1)" by (rule of_nat_of_unat [OF sz])
  show "take (unat (5 + f_size f)) (frame_bytes f) = wire cmd data"
    unfolding n using assms(1) by (simp add: frame_bytes_def carries_def wire_def w le16_bytes_def)
  show "unat (5 + f_size f) \<le> length (frame_bytes f)" unfolding n using assms(1) by (simp add: frame_bytes_def carries_def)
qed

text \<open>Sending a frame that was just packed into the buffer in use.\<close>

lemma send_packed:
  assumes "np_ok s q" and "np_queue s' = Some q'" and "cursor_moved q q'" and "np_proto s' = Some h'"
    and "np_proto s = Some h" and "data_frame h' = data_frame h" and "event_capacity h' = event_capacity h"
    and "frames s' = (frames s)(a \<mapsto> f')" and "g_using_frame_buffer s = Some a" and "frames s a = Some f"
    and "carries f' cmd data" and "length (f_payload f') = length (f_payload f)"
    and "g_diag_sender s' = g_diag_sender s" and "g_using_frame_buffer s' = g_using_frame_buffer s"
    and "g_using_frame_buffer_capacity s' = g_using_frame_buffer_capacity s" and "sent s' = sent s" and "length data + 6 < 65536"
    and "g_diag_sender s \<noteq> None"
  shows "\<exists>s''. diag_send s' = Some (the (g_diag_sender s) (wire cmd data), s'') \<and> sent_one s (wire cmd data) q' s''"
proof -
  note F = frame_bytes_wire [OF assms(11,17)]
  obtain snd where snd: "g_diag_sender s = Some snd" using assms(18) by auto
  have "diag_send s' = Some (snd (wire cmd data), s'\<lparr>sent := sent s @ [wire cmd data]\<rparr>)"
    using snd assms(8,9,13,14,16) F by (simp add: diag_send_def Let_def)
  moreover have "np_ok (s'\<lparr>sent := sent s @ [wire cmd data]\<rparr>) q'"
    using assms(1-15) by (auto simp: np_ok_def cursor_moved_def carries_def)
  ultimately show ?thesis using snd assms(13,15) by (simp add: sent_one_def room_def)
qed

text \<open>What packing the event that was found does to the frame.\<close>

lemma pack_found:
  assumes ok: "np_ok s q"
    and q1: "q1 = q\<lparr>prev_find_node := of_nat i\<rparr>" and ev: "i < length (q_events q)" "e = q_events q ! i" and l: "l < evt_size e"
  obtains h a f h' f' q' where "np_queue s = Some q" and "np_proto s = Some h" and "g_using_frame_buffer s = Some a" and "frames s a = Some f"
    and "rtk_diag_proto_pack_event rtk_diag_next_event_callback rsvd h (frames s) q1 (Some e) goff (of_nat l) =
      Some (h', (frames s)(a \<mapsto> f'), q')"
    and "carries f' (frame_cmd (room s) e l) (le16_bytes goff @ frame_data rsvd (room s) e l (drop (Suc i) (q_events q)))"
    and "length (f_payload f') = length (f_payload f)" and "data_frame h' = data_frame h" and "event_capacity h' = event_capacity h"
    and "cursor_moved q q'" and "length (frame_data rsvd (room s) e l (drop (Suc i) (q_events q))) + 8 < 65536"
proof -
  obtain h a f where S: "np_queue s = Some q" "np_proto s = Some h" "data_frame h = Some a" "g_using_frame_buffer s = Some a"
      "frames s a = Some f" "f_header f = RTK_DIAG_FRAME_HEADER" "length (f_payload f) + 5 = unat (g_using_frame_buffer_capacity s)"
      "unat (event_capacity h) + 8 = unat (g_using_frame_buffer_capacity s)"
    using ok by (auto simp: np_ok_def)
  have inv: "q_inv q" and wf: "\<forall>e \<in> set (q_events q). evt_ok e" using ok by (auto simp: np_ok_def)
  have cap: "unat (event_capacity h) = room s" using S(8) by (simp add: room_def)
  have cl: "unat (event_capacity h) + 3 \<le> length (f_payload f)" "unat (event_capacity h) + 3 < 65536"
    using S(7,8) unat_lt_u16 [of "g_using_frame_buffer_capacity s"] by linarith+
  have rl: "room s + 8 < 65536" using S(8) cap unat_lt_u16 [of "g_using_frame_buffer_capacity s"] by linarith
  have e: "evt_ok e" using wf ev by simp
  have ui: "unat (of_nat i :: u16) = i" using count_small(1) [OF inv] ev(1) by (intro unat_index) simp
  have cur: "cursor_ok q1" "behind_cursor q1 = drop (Suc i) (q_events q)"
    using inv ev(1) ui by (simp_all add: cursor_ok_def behind_cursor_def q1)
  have wf': "\<forall>e' \<in> set (e # behind_cursor q1). evt_ok e'" using wf e cur(2) by (auto dest: in_set_dropD)
  have ul: "unat (of_nat l :: u16) = l" using l e by (simp add: unat_of_nat evt_ok_def evt_size_def)
  let ?d = "frame_data rsvd (room s) e l (drop (Suc i) (q_events q))"
  let ?c = "frame_cmd (room s) e l"
  have dl: "length ?d \<le> room s" by (rule length_frame_data [OF e]) (use wf in \<open>auto dest: in_set_dropD\<close>)
  obtain h' f' q' where P: "rtk_diag_proto_pack_event rtk_diag_next_event_callback rsvd h (frames s) q1 (Some e) goff (of_nat l) =
      Some (h', (frames s)(a \<mapsto> f'), q')" "carries f' ?c (le16_bytes goff @ ?d)" "length (f_payload f') = length (f_payload f)"
      "data_frame h' = data_frame h" "event_capacity h' = event_capacity h" "cursor_moved q1 q'"
  proof (cases "l = 0")
    case True
    then show ?thesis using that evs.pack_event_start [where fs = "frames s" and a = a and rsvd = rsvd and goff = goff,
          OF cur(1) wf' S(3,5,6) cl] cur(2) cap
      by (auto simp: frame_cmd_def)
  next
    case False
    then have "\<exists>h' f'. rtk_diag_proto_pack_event rtk_diag_next_event_callback rsvd h (frames s) q1 (Some e) goff (of_nat l) =
        Some (h', (frames s)(a \<mapsto> f'), q1) \<and> carries f' ?c (le16_bytes goff @ ?d) \<and> length (f_payload f') = length (f_payload f) \<and>
        data_frame h' = data_frame h \<and> event_capacity h' = event_capacity h"
      using pack_event_middle [where fs = "frames s" and a = a and rsvd = rsvd and goff = goff and l = "of_nat l"
          and getter = rtk_diag_next_event_callback and q = q1, OF e _ _ S(3,5,6) cl] l ul cap
      by (simp add: frame_data_def)
    then show ?thesis using that evs.keep_refl [of q1] by blast
  qed
  have "cursor_moved q q'" using P(6) by (auto simp: cursor_moved_def q1)
  then show ?thesis using that [OF S(1,2,4,5) P(1-5)] dl rl by simp
qed

text \<open>The request for a byte of the log, on the core that sends the frames itself.\<close>

lemma get_event_found:
  assumes "as_ap env" and ok: "np_ok s q" and snd: "g_diag_sender s \<noteq> None"
    and find: "rtk_diag_queue_find q t goff 0 = Some (Some e, goff', of_nat l, RTK_SUCCESS, q1)"
    and q1: "q1 = q\<lparr>prev_find_node := of_nat i\<rparr>" and ev: "i < length (q_events q)" "e = q_events q ! i" and l: "l < evt_size e"
  shows "\<exists>s' q'. let w = wire (frame_cmd (room s) e l)
      (le16_bytes goff' @ frame_data (rsvd_of env) (room s) e l (drop (Suc i) (q_events q)))
    in rtk_diag_req_get_event env t goff s = Some (the (g_diag_sender s) w, s') \<and> cursor_moved q q' \<and> sent_one s w q' s'"
proof -
  let ?d = "frame_data (rsvd_of env) (room s) e l (drop (Suc i) (q_events q))"
  let ?w = "wire (frame_cmd (room s) e l) (le16_bytes goff' @ ?d)"
  obtain h a f h' f' q' where P: "np_queue s = Some q" "np_proto s = Some h" "g_using_frame_buffer s = Some a" "frames s a = Some f"
    "rtk_diag_proto_pack_event rtk_diag_next_event_callback (rsvd_of env) h (frames s) q1 (Some e) goff' (of_nat l) =
      Some (h', (frames s)(a \<mapsto> f'), q')"
    "carries f' (frame_cmd (room s) e l) (le16_bytes goff' @ ?d)" "length (f_payload f') = length (f_payload f)"
    "data_frame h' = data_frame h" "event_capacity h' = event_capacity h" "cursor_moved q q'" "length ?d + 8 < 65536"
    by (rule pack_found [OF ok q1 ev l])
  let ?s = "s\<lparr>np_proto := Some h', frames := (frames s)(a \<mapsto> f'), np_queue := Some q'\<rparr>"
  have "\<exists>s''. diag_send ?s = Some (the (g_diag_sender s) ?w, s'') \<and> sent_one s ?w q' s''"
    by (rule send_packed [OF ok _ P(10) _ P(2,8,9) _ P(3,4,6,7)]) (use P(11) snd in simp_all)
  then obtain s'' where D: "diag_send ?s = Some (the (g_diag_sender s) ?w, s'')" "sent_one s ?w q' s''" by blast
  have "rtk_diag_req_get_event env t goff s = Some (the (g_diag_sender s) ?w, s'')"
    using assms(1) P(1-3) find P(5) D(1)
    by (simp add: rtk_diag_req_get_event_def locked_def rtk_diag_lock_acquire_def unlocking_def rtk_diag_lock_release_def Let_def)
  then show ?thesis using P(10) D(2) by (auto simp: Let_def)
qed

section \<open>Reading one event in pieces\<close>

lemma concat_pieces:
  assumes "0 < c"
  shows "concat (map (\<lambda>k. take c (drop (k * c) bs)) [0..<n]) = take (n * c) bs"
proof (induction n)
  case 0
  then show ?case by simp
next
  case (Suc n)
  then show ?case by (simp add: add.commute [of c] take_add)
qed

fun request_all :: "DiagEnv \<Rightarrow> u32 \<Rightarrow> u16 list \<Rightarrow> DiagNp \<Rightarrow> DiagNp option" where
  "request_all env t [] s = Some s"
| "request_all env t (off # offs) s = do { (r, s1) \<leftarrow> rtk_diag_req_get_event env t off s; request_all env t offs s1 }"

text \<open>The position of an event in the log of its time: the deleted bytes and the events before it.\<close>

definition log_at :: "RtkDiagQueue \<Rightarrow> u32 \<Rightarrow> nat \<Rightarrow> nat \<Rightarrow> bool" where
  "log_at q t i pos \<longleftrightarrow> (\<exists>older g1 e g2 newer D. q_events q = older @ g1 @ e # g2 @ newer \<and> i = length older + length g1 \<and>
     (\<forall>e \<in> set older. evt_time e < t) \<and> (\<forall>e \<in> set (g1 @ e # g2). evt_time e = t) \<and>
     deleted_offset t (deleted q) 0 = Some D \<and> pos = unat D + bytes_of g1 \<and> unat D + bytes_of (g1 @ e # g2) < 65536)"

lemma log_at_moved: "cursor_moved q q' \<Longrightarrow> log_at q' t i pos = log_at q t i pos"
  unfolding cursor_moved_def by (elim exE) (simp add: log_at_def)

lemma log_at_index: "log_at q t i pos \<Longrightarrow> i < length (q_events q)"
  by (auto simp: log_at_def)

lemma log_atE:
  assumes "log_at q t i pos"
  obtains older g1 e g2 newer D where "q_events q = older @ g1 @ e # g2 @ newer" and "i = length older + length g1"
    and "\<forall>e \<in> set older. evt_time e < t" and "\<forall>e \<in> set (g1 @ e # g2). evt_time e = t"
    and "deleted_offset t (deleted q) 0 = Some D" and "pos = unat D + bytes_of g1"
    and "unat D + bytes_of (g1 @ e # g2) < 65536" and "q_events q ! i = e"
proof -
  obtain older g1 e g2 newer D where L: "q_events q = older @ g1 @ e # g2 @ newer" "i = length older + length g1"
      "\<forall>e \<in> set older. evt_time e < t" "\<forall>e \<in> set (g1 @ e # g2). evt_time e = t" "deleted_offset t (deleted q) 0 = Some D"
      "pos = unat D + bytes_of g1" "unat D + bytes_of (g1 @ e # g2) < 65536"
    using assms unfolding log_at_def by (elim exE conjE)
  have "q_events q ! i = e" using L(1,2) by (simp add: nth_append)
  then show ?thesis using that [OF L] by blast
qed

lemma log_at_find:
  assumes "q_inv q" and "log_at q t i pos" and "unat goff = pos + l" and "l < unat (EVENT_REAL_SIZE (q_events q ! i))"
  shows "rtk_diag_queue_find q t goff loff =
    Some (Some (q_events q ! i), goff, of_nat l, RTK_SUCCESS, q\<lparr>prev_find_node := of_nat i\<rparr>)"
  using assms(2)
proof (cases rule: log_atE)
  case (1 older g1 e g2 newer D)
  show ?thesis unfolding 1(8) unfolding 1(2)
    by (rule find_at [OF assms(1) 1(1,3,4,5) _ _ 1(7)]) (use assms(3,4) 1(6,8) in simp_all)
qed

lemma log_at_bound:
  assumes "log_at q t i pos" and "l < unat (EVENT_REAL_SIZE (q_events q ! i))"
  shows "pos + l < 65536"
  using assms(1) by (cases rule: log_atE) (use assms(2) in simp)

definition piece :: "DiagEnv \<Rightarrow> nat \<Rightarrow> RtkDiagEvent \<Rightarrow> nat \<Rightarrow> u8 list" where
  "piece env c e k = take c (drop (k * c) (event_bytes (rsvd_of env) e))"

definition piece_frame :: "DiagEnv \<Rightarrow> nat \<Rightarrow> RtkDiagEvent \<Rightarrow> nat \<Rightarrow> nat \<Rightarrow> u8 list" where
  "piece_frame env c e pos k = wire (frame_cmd c e (k * c)) (le16_bytes (of_nat (pos + k * c)) @ piece env c e k)"

lemma request_pieces:
  assumes "as_ap env" and "np_ok s q" and "g_diag_sender s \<noteq> None" and "log_at q t i pos" and "c = room s" and "e = q_events q ! i"
    and "c < evt_size e" and "\<forall>k \<in> set ks. k * c < evt_size e"
  shows "\<exists>s' q'. request_all env t (map (\<lambda>k. of_nat (pos + k * c)) ks) s = Some s' \<and> np_ok s' q' \<and> cursor_moved q q' \<and>
    sent s' = sent s @ map (piece_frame env c e pos) ks"
  using assms
proof (induction ks arbitrary: s q)
  case Nil
  then show ?case using evs.keep_refl [of q] by auto
next
  case (Cons k ks)
  have inv: "q_inv q" using Cons.prems(2) by (simp add: np_ok_def)
  have i: "i < length (q_events q)" by (rule log_at_index [OF Cons.prems(4)])
  have kc: "k * c < evt_size e" using Cons.prems(8) by simp
  have sz: "unat (EVENT_REAL_SIZE (q_events q ! i)) = evt_size e" using Cons.prems(6) by (simp add: unat_real_size evt_size_def)
  let ?off = "of_nat (pos + k * c) :: u16"
  have "pos + k * c < 65536" by (rule log_at_bound [OF Cons.prems(4)]) (use kc sz in simp)
  then have off: "unat ?off = pos + k * c" by (simp add: unat_of_nat del: of_nat_add of_nat_mult)
  have f: "rtk_diag_queue_find q t ?off 0 = Some (Some e, ?off, of_nat (k * c), RTK_SUCCESS, q\<lparr>prev_find_node := of_nat i\<rparr>)"
    using log_at_find [OF inv Cons.prems(4) off, of 0] kc sz Cons.prems(6) by simp
  have d: "frame_data (rsvd_of env) c e (k * c) es = piece env c e k" for es
    using Cons.prems(7) by (auto simp: frame_data_def piece_def)
  obtain s1 q1 where S: "rtk_diag_req_get_event env t ?off s = Some (the (g_diag_sender s) (piece_frame env c e pos k), s1)"
      "cursor_moved q q1" "sent_one s (piece_frame env c e pos k) q1 s1"
    using get_event_found [OF Cons.prems(1-3) f refl i Cons.prems(6) kc] d Cons.prems(5)
    by (auto simp: Let_def piece_frame_def simp del: of_nat_add of_nat_mult)
  have ev: "q_events q1 = q_events q" using S(2) by (auto simp: cursor_moved_def)
  have "\<exists>s' q'. request_all env t (map (\<lambda>k. of_nat (pos + k * c)) ks) s1 = Some s' \<and> np_ok s' q' \<and> cursor_moved q1 q' \<and>
      sent s' = sent s1 @ map (piece_frame env c e pos) ks"
    by (rule Cons.IH) (use Cons.prems S(2,3) ev in \<open>simp_all add: sent_one_def log_at_moved\<close>)
  then show ?case using S evs.keep_trans [OF S(2)] by (auto simp: sent_one_def simp del: of_nat_add of_nat_mult)
qed

text \<open>
  C14. An event that is longer than a frame can be fetched completely. The requests for the event's position in
  the log and every further multiple of the room in a frame are all answered, the data of the frames put
  together is the event, byte for byte, and each frame is well formed: it has the header, the size, the
  command that says whether more follows, the offset that was asked for, and a check sum. The log is not
  changed by reading it.
\<close>

theorem diag_log_fragments:
  assumes "as_ap env" and "np_ok s q" and "g_diag_sender s \<noteq> None" and "log_at q t i pos" and "e = q_events q ! i"
    and "room s < evt_size e" and "evt_size e \<le> n * room s" and "\<forall>k < n. k * room s < evt_size e"
  shows "\<exists>s' q'. request_all env t (map (\<lambda>k. of_nat (pos + k * room s)) [0..<n]) s = Some s' \<and> np_ok s' q' \<and>
      q_events q' = q_events q \<and> sent s' = sent s @ map (piece_frame env (room s) e pos) [0..<n] \<and>
      concat (map (piece env (room s) e) [0..<n]) = event_bytes (rsvd_of env) e"
proof -
  have "evt_ok e" using assms(2,5) log_at_index [OF assms(4)] by (simp add: np_ok_def)
  moreover have "0 < room s" using assms(2) by (auto simp: np_ok_def room_def)
  ultimately have "concat (map (piece env (room s) e) [0..<n]) = event_bytes (rsvd_of env) e"
    using concat_pieces [of "room s" "event_bytes (rsvd_of env) e" n] assms(7) unfolding piece_def
    by (simp add: length_event_bytes)
  moreover have "\<exists>s' q'. request_all env t (map (\<lambda>k. of_nat (pos + k * room s)) [0..<n]) s = Some s' \<and> np_ok s' q' \<and>
      q_events q' = q_events q \<and> sent s' = sent s @ map (piece_frame env (room s) e pos) [0..<n]"
    using request_pieces [OF assms(1-4) refl assms(5,6), of "[0..<n]"] assms(8) by (fastforce simp: cursor_moved_def)
  ultimately show ?thesis by blast
qed

section \<open>Reading events in batches\<close>

text \<open>
  C22. An event that fits into a frame is sent whole, together with as many of the events that follow it as
  fit whole, in their order: the data of the frame is the offset that was asked for and then exactly the
  bytes of these events.
\<close>

theorem diag_log_batch:
  assumes "as_ap env" and "np_ok s q" and "g_diag_sender s \<noteq> None" and "log_at q t i pos" and "unat off = pos" and "evt_size (q_events q ! i) \<le> room s"
  shows "\<exists>s' q'. let w = wire 0x03 (le16_bytes off @ events_image (rsvd_of env) (fit (room s) (drop i (q_events q)))) in
    rtk_diag_req_get_event env t off s = Some (the (g_diag_sender s) w, s') \<and> np_ok s' q' \<and> q_events q' = q_events q \<and>
    sent s' = sent s @ [w]"
proof -
  have inv: "q_inv q" using assms(2) by (simp add: np_ok_def)
  have i: "i < length (q_events q)" by (rule log_at_index [OF assms(4)])
  have f: "rtk_diag_queue_find q t off 0 =
      Some (Some (q_events q ! i), off, of_nat 0, RTK_SUCCESS, q\<lparr>prev_find_node := of_nat i\<rparr>)"
    by (rule log_at_find [OF inv assms(4)]) (use assms(5) in \<open>simp_all add: unat_real_size\<close>)
  have d: "frame_data (rsvd_of env) (room s) (q_events q ! i) 0 (drop (Suc i) (q_events q)) =
      events_image (rsvd_of env) (fit (room s) (drop i (q_events q)))"
    using assms(6) by (simp add: frame_data_def Cons_nth_drop_Suc [OF i, symmetric])
  show ?thesis
    using get_event_found [OF assms(1-3) f refl i refl] d
    by (fastforce simp: Let_def frame_cmd_def sent_one_def cursor_moved_def evt_size_def)
qed

section \<open>From power-up to the first event\<close>

lemma init_config:
  assumes "as_ap env" and "\<forall>k. malloc_ok env k" and "140 \<le> heap_cap" and "heap_cap \<le> 4096" and "\<not> g_initialized s"
    and "frames s b = Some f" and "length (f_payload f) + 5 = unat cap" and "9 \<le> cap" and "g_using_frame_buffer s \<noteq> Some b"
  shows "\<exists>s1 s2 q. rtk_diag_init env junk_q junk_del junk_ptr junk_h heap_cap 0 s = Some (RTK_SUCCESS, s1) \<and>
    rtk_diag_config_transform env None (Some b) cap s1 = Some (RTK_SUCCESS, s2) \<and> np_ok s2 q \<and> q_events q = [] \<and> deleted q = [] \<and>
    room s2 = unat cap - 8 \<and> sent s2 = sent s \<and> g_diag_sender s2 = Some rtk_diag_uart_send"
proof -
  obtain q where q: "rtk_diag_queue_init True True True True junk_q junk_del junk_ptr heap_cap 4096 = (RTK_SUCCESS, Some q)"
      "q_inv q" "q_events q = []" "deleted q = []"
    using queue_init_inv [OF assms(3,4)] by blast
  let ?h = "junk_h\<lparr>payload_capacity := 0, event_capacity := 0, last_event := None, last_event_state := RTK_DIAG_TRANSFORM_COMPLETE\<rparr>"
  let ?s1 = "s\<lparr>np_queue := Some q, np_proto := Some ?h, g_initialized := True, g_diag_debug_log_state := 0\<rparr>"
  have i: "rtk_diag_init env junk_q junk_del junk_ptr junk_h heap_cap 0 s = Some (RTK_SUCCESS, ?s1)"
    using assms(2,5) q(1) by (simp add: rtk_diag_init_def Let_def rtk_diag_proto_init_def RTK_SUCCESS_def)
  have nine: "\<not> cap < 9" "9 \<le> unat cap" using assms(8) by (simp_all add: word_le_nat_alt word_less_nat_alt)
  have c8: "cap - 5 - 2 - 1 = cap - 8" by simp
  have c: "unat (cap - 8) + 8 = unat cap" using nine(2) by (simp add: unat_sub word_le_nat_alt)
  let ?h2 = "?h\<lparr>data_frame := Some b, payload_capacity := cap - 5, event_capacity := cap - 8\<rparr>"
  obtain s2 where s2: "rtk_diag_config_transform env None (Some b) cap ?s1 = Some (RTK_SUCCESS, s2)"
      "np_queue s2 = Some q" "g_diag_sender s2 = Some rtk_diag_uart_send" "g_using_frame_buffer s2 = Some b"
      "g_using_frame_buffer_capacity s2 = cap" "np_proto s2 = Some ?h2" "sent s2 = sent s"
      "frames s2 b = Some (f\<lparr>f_header := RTK_DIAG_FRAME_HEADER\<rparr>)"
    using assms(1,6,9) nine(1) that
    by (auto simp: rtk_diag_config_transform_def locked_def rtk_diag_lock_acquire_def Let_def use_buffer_def
        rtk_diag_proto_set_buffer_def unlocking_def rtk_diag_lock_release_def c8)
  have "np_ok s2 q" using s2 q(2,3) nine(2) assms(7) c by (simp add: np_ok_def)
  then show ?thesis using i s2 q(3,4) by (auto simp: room_def)
qed

lemma event_add_ok:
  assumes "as_ap env" and "np_ok s q" and "unat len \<le> length info"
  shows "\<exists>r s' q'. rtk_diag_event_add env lv ty info len s = Some (r, s') \<and> np_ok s' q' \<and>
    enqueued q (if r = RTK_SUCCESS
      then [\<lparr>evt_type = ty, evt_len = len, evt_time = now_ms env, evt_level = lv, evt_info = take (unat len) info\<rparr>] else []) q' \<and>
    (len \<le> 128 \<longrightarrow> r = RTK_SUCCESS) \<and> sent s' = sent s \<and> room s' = room s \<and> g_diag_sender s' = g_diag_sender s"
proof -
  let ?e = "\<lparr>evt_type = ty, evt_len = len, evt_time = now_ms env, evt_level = lv, evt_info = take (unat len) info\<rparr>"
  have inv: "q_inv q" and nq: "np_queue s = Some q" and wf: "\<forall>e \<in> set (q_events q). evt_ok e" using assms(2) by (auto simp: np_ok_def)
  obtain r q' where E: "rtk_diag_queue_enqueue (debug_test env) (malloc_ok env 0) q (now_ms env) lv ty info len = Some (r, q')"
      "enqueued q (if r = RTK_SUCCESS then [?e] else []) q'" "len \<le> 128 \<longrightarrow> r = RTK_SUCCESS" "r = RTK_SUCCESS \<longrightarrow> len \<le> 2048"
    using enqueue_any [OF inv] by blast
  have "r = RTK_SUCCESS \<Longrightarrow> evt_ok ?e" using E(4) assms(3) by (simp add: evt_ok_def word_le_nat_alt)
  then have "\<forall>e \<in> set (q_events q'). evt_ok e"
    using E(2) wf by (auto simp: enqueued_def split: if_splits dest!: in_set_dropD)
  then have "np_ok (s\<lparr>np_queue := Some q'\<rparr>) q'"
    using assms(2) E(2) by (simp add: np_ok_def enqueued_def)
  moreover have "rtk_diag_event_add env lv ty info len s = Some (r, s\<lparr>np_queue := Some q'\<rparr>)"
    using assms(1) nq E(1)
    by (simp add: rtk_diag_event_add_def locked_def rtk_diag_lock_acquire_def unlocking_def rtk_diag_lock_release_def)
  ultimately show ?thesis using E(2,3) by (auto simp: room_def)
qed

text \<open>
  C16. From power-up to the host: after the initialisation and the configuration with a buffer, an event that
  is added can be read back. The request for its time sends one frame, whose data is the offset 0 and the
  bytes of the event as it was added.
\<close>

theorem diag_first_event:
  assumes "as_ap env" and "\<forall>k. malloc_ok env k" and "140 \<le> heap_cap" and "heap_cap \<le> 4096" and "\<not> g_initialized s"
    and "frames s b = Some f" and "length (f_payload f) + 5 = unat cap" and "g_using_frame_buffer s \<noteq> Some b"
    and "len \<le> 128" and "length info = unat len" and "20 + unat len \<le> unat cap"
  shows "\<exists>s1 s2 s3 s4. rtk_diag_init env junk_q junk_del junk_ptr junk_h heap_cap 0 s = Some (RTK_SUCCESS, s1) \<and>
    rtk_diag_config_transform env None (Some b) cap s1 = Some (RTK_SUCCESS, s2) \<and>
    rtk_diag_event_add env lv ty info len s2 = Some (RTK_SUCCESS, s3) \<and>
    rtk_diag_req_get_event env (now_ms env) 0 s3 = Some (RTK_SUCCESS, s4) \<and>
    sent s4 = sent s @ [wire 0x03 (le16_bytes 0 @ event_bytes (rsvd_of env)
      \<lparr>evt_type = ty, evt_len = len, evt_time = now_ms env, evt_level = lv, evt_info = info\<rparr>)]"
proof -
  let ?e = "\<lparr>evt_type = ty, evt_len = len, evt_time = now_ms env, evt_level = lv, evt_info = info\<rparr>"
  have "9 \<le> cap" using assms(11) by (simp add: word_le_nat_alt)
  from init_config [OF assms(1-7) this assms(8), of junk_q junk_del junk_ptr junk_h] obtain s1 s2 q where
    S: "rtk_diag_init env junk_q junk_del junk_ptr junk_h heap_cap 0 s = Some (RTK_SUCCESS, s1)"
      "rtk_diag_config_transform env None (Some b) cap s1 = Some (RTK_SUCCESS, s2)" "np_ok s2 q" "q_events q = []" "deleted q = []"
      "room s2 = unat cap - 8" "sent s2 = sent s" "g_diag_sender s2 = Some rtk_diag_uart_send" by blast
  obtain s3 q3 where A: "rtk_diag_event_add env lv ty info len s2 = Some (RTK_SUCCESS, s3)" "np_ok s3 q3" "enqueued q [?e] q3"
      "sent s3 = sent s" "room s3 = unat cap - 8" "g_diag_sender s3 = Some rtk_diag_uart_send"
    using event_add_ok [OF assms(1) S(3), of len info lv ty] assms(9,10) S(6-8) by auto
  have q3: "q_events q3 = [?e]" "deleted q3 = []" using A(3) S(4,5) by (auto simp: enqueued_def last_n_def)
  have len: "unat len \<le> 128" using assms(9) by (simp add: word_le_nat_alt)
  have "log_at q3 (now_ms env) 0 0"
    unfolding log_at_def by (intro exI [of _ "[]"] exI [of _ ?e] exI [of _ "0 :: u16"]) (use q3 len in \<open>simp add: unat_real_size\<close>)
  then have f: "rtk_diag_queue_find q3 (now_ms env) 0 0 =
      Some (Some ?e, 0, of_nat 0, RTK_SUCCESS, q3\<lparr>prev_find_node := of_nat 0\<rparr>)"
    using log_at_find [of q3 "now_ms env" 0 0 0 0] A(2) q3 by (simp add: np_ok_def unat_real_size)
  have fit: "evt_size ?e \<le> room s3" using A(5) assms(11) by (simp add: evt_size_def)
  let ?w = "wire 0x03 (le16_bytes 0 @ event_bytes (rsvd_of env) ?e)"
  have i: "0 < length (q_events q3)" "?e = q_events q3 ! 0" using q3(1) by simp_all
  have d: "frame_data (rsvd_of env) (room s3) ?e 0 (drop (Suc 0) (q_events q3)) = event_bytes (rsvd_of env) ?e"
    "frame_cmd (room s3) ?e 0 = 0x03" using fit q3(1) by (simp_all add: frame_data_def frame_cmd_def)
  have snd3: "g_diag_sender s3 \<noteq> None" using A(6) by simp
  have "0 < evt_size ?e" by (simp add: evt_size_def)
  from get_event_found [OF assms(1) A(2) snd3 f refl i this] obtain s4 q4 where
    G: "rtk_diag_req_get_event env (now_ms env) 0 s3 = Some (the (g_diag_sender s3) ?w, s4)" "sent_one s3 ?w q4 s4"
    unfolding d Let_def by (elim exE conjE)
  have "rtk_diag_req_get_event env (now_ms env) 0 s3 = Some (RTK_SUCCESS, s4)"
    unfolding G(1) A(6) by (simp add: rtk_diag_uart_send_def)
  moreover have "sent s4 = sent s @ [?w]" using G(2) A(4) by (simp add: sent_one_def)
  ultimately show ?thesis using S(1,2) A(1) by blast
qed

section \<open>A concrete system\<close>

text \<open>A single core with a buffer of \<open>n + 5\<close> bytes, at the time 5.\<close>

definition one_core :: DiagEnv where
  "one_core = \<lparr>as_ap = True, debug_test = True, sem_ok = True, malloc_ok = \<lambda>_. True, now_ms = 5, rsvd_of = \<lambda>_. (0, 0, 0),
     format_hash = [], stack_byte = 0\<rparr>"

definition power_up :: "nat \<Rightarrow> DiagNp" where
  "power_up n = \<lparr>g_diag_sender = None, g_using_frame_buffer = None, g_using_frame_buffer_capacity = 0,
     frames = [0 \<mapsto> \<lparr>f_header = 0, f_size = 0, f_cmd = 0, f_payload = replicate n 0\<rparr>], sent = [], g_diag_debug_log_state = 0,
     log_info = False, g_initialized = False, np_queue = None, np_proto = None, sem_held = False, g_diag_trans_print = 0\<rparr>"

definition new_proto :: RtkDiagTransform where
  "new_proto = \<lparr>data_frame = None, payload_capacity = 0, event_capacity = 0, last_event = None, last_event_state = 0,
     last_event_offset = 0\<rparr>"

definition no_del :: RtkDiagDeletedEvent where
  "no_del = \<lparr>del_time = 0, del_type = 0, del_len = 0\<rparr>"

theorem diag_first_event_witness:
  "\<exists>s1 s2 s3 s4. rtk_diag_init one_core junk_queue no_del (Sys 0) new_proto 2048 0 (power_up 507) = Some (RTK_SUCCESS, s1) \<and>
    rtk_diag_config_transform one_core None (Some 0) 512 s1 = Some (RTK_SUCCESS, s2) \<and>
    rtk_diag_event_add one_core 1 7 [1, 2, 3] 3 s2 = Some (RTK_SUCCESS, s3) \<and>
    rtk_diag_req_get_event one_core 5 0 s3 = Some (RTK_SUCCESS, s4) \<and>
    sent s4 = [[0x72, 0x74, 18, 0, 3, 0, 0, 7, 0, 3, 0, 5, 0, 0, 0, 1, 0, 0, 0, 1, 2, 3, 3]]"
proof -
  let ?e = "\<lparr>evt_type = 7, evt_len = 3, evt_time = 5, evt_level = 1, evt_info = [1, 2, 3]\<rparr>"
  have w: "wire 0x03 (le16_bytes 0 @ event_bytes (\<lambda>_. (0, 0, 0)) ?e) =
      [0x72, 0x74, 18, 0, 3, 0, 0, 7, 0, 3, 0, 5, 0, 0, 0, 1, 0, 0, 0, 1, 2, 3, 3]"
    by (simp add: wire_def event_bytes_def le16_bytes_def le32_bytes_def RTK_DIAG_FRAME_HEADER_def)
  show ?thesis
    using diag_first_event [of one_core 2048 "power_up 507" 0 "\<lparr>f_header = 0, f_size = 0, f_cmd = 0, f_payload = replicate 507 0\<rparr>"
        512 3 "[1, 2, 3]" junk_queue no_del "Sys 0" new_proto 1 7] w
    by (simp add: one_core_def power_up_def word_le_nat_alt)
qed

lemma one_event:
  assumes "4 \<le> n" and "n < 65531"
  shows "\<exists>s q. np_ok s q \<and> q_events q = [\<lparr>evt_type = 7, evt_len = 3, evt_time = 5, evt_level = 1, evt_info = [1, 2, 3]\<rparr>] \<and>
    log_at q 5 0 0 \<and> room s = n - 3 \<and> sent s = [] \<and> g_diag_sender s = Some rtk_diag_uart_send"
proof -
  let ?e = "\<lparr>evt_type = 7, evt_len = 3, evt_time = 5, evt_level = 1, evt_info = [1, 2, 3]\<rparr>"
  have c: "unat (of_nat (n + 5) :: u16) = n + 5" using assms(2) by (simp add: unat_of_nat del: of_nat_add)
  have env: "as_ap one_core" "\<forall>k. malloc_ok one_core k" "now_ms one_core = 5" by (simp_all add: one_core_def)
  obtain s2 q where S: "np_ok s2 q" "q_events q = []" "deleted q = []" "room s2 = n - 3" "sent s2 = []"
      "g_diag_sender s2 = Some rtk_diag_uart_send"
    using init_config [OF env(1,2), of 2048 "power_up n" 0 "\<lparr>f_header = 0, f_size = 0, f_cmd = 0, f_payload = replicate n 0\<rparr>"
        "of_nat (n + 5)" junk_queue no_del "Sys 0" new_proto] assms(1) c
    by (auto simp: power_up_def word_le_nat_alt simp del: of_nat_add)
  obtain s3 q3 where A: "np_ok s3 q3" "enqueued q [?e] q3" "room s3 = n - 3" "sent s3 = []" "g_diag_sender s3 = Some rtk_diag_uart_send"
    using event_add_ok [OF env(1) S(1), of 3 "[1, 2, 3]" 1 7] S(4-6) by (auto simp: env(3) word_le_nat_alt)
  have q3: "q_events q3 = [?e]" "deleted q3 = []" using A(2) S(2,3) by (auto simp: enqueued_def last_n_def)
  moreover have "log_at q3 5 0 0"
    unfolding log_at_def by (intro exI [of _ "[]"] exI [of _ ?e] exI [of _ "0 :: u16"]) (use q3 in \<open>simp add: unat_real_size\<close>)
  ultimately show ?thesis using A by blast
qed

text \<open>The event of 15 bytes through frames with room for 10.\<close>

theorem diag_log_fragments_witness:
  "\<exists>s s' q. np_ok s q \<and> request_all one_core 5 [0, 10] s = Some s' \<and>
    sent s' = [[0x72, 0x74, 13, 0, 3, 0, 0, 7, 0, 3, 0, 5, 0, 0, 0, 1, 0, 3], [0x72, 0x74, 8, 0, 0x23, 10, 0, 0, 0, 1, 2, 3, 0x29]]"
proof -
  let ?e = "\<lparr>evt_type = 7, evt_len = 3, evt_time = 5, evt_level = 1, evt_info = [1, 2, 3]\<rparr>"
  obtain s q where S: "np_ok s q" "q_events q = [?e]" "log_at q 5 0 0" "room s = 10" "sent s = []" "g_diag_sender s \<noteq> None"
    using one_event [of 13] by auto
  have env: "as_ap one_core" by (simp add: one_core_def)
  have e: "?e = q_events q ! 0" "room s < evt_size ?e" "evt_size ?e \<le> 2 * room s" "\<forall>k < 2. k * room s < evt_size ?e"
    using S(2,4) by (auto simp: evt_size_def less_2_cases_iff)
  have l: "[0..<2] = [0, 1 :: nat]" by (simp add: upt_rec)
  have w: "piece_frame one_core 10 ?e 0 0 = [0x72, 0x74, 13, 0, 3, 0, 0, 7, 0, 3, 0, 5, 0, 0, 0, 1, 0, 3]"
    "piece_frame one_core 10 ?e 0 1 = [0x72, 0x74, 8, 0, 0x23, 10, 0, 0, 0, 1, 2, 3, 0x29]"
    by (simp_all add: piece_frame_def piece_def frame_cmd_def evt_size_def wire_def event_bytes_def le16_bytes_def le32_bytes_def
        RTK_DIAG_FRAME_HEADER_def one_core_def)
  show ?thesis
    using diag_log_fragments [OF env S(1,6,3) e] S(1,4,5) w unfolding l by auto
qed

theorem diag_log_batch_witness:
  "\<exists>s s' q. np_ok s q \<and> rtk_diag_req_get_event one_core 5 0 s = Some (RTK_SUCCESS, s') \<and>
    sent s' = [wire 3 (le16_bytes 0 @ events_image (rsvd_of one_core) (q_events q))]"
proof -
  let ?e = "\<lparr>evt_type = 7, evt_len = 3, evt_time = 5, evt_level = 1, evt_info = [1, 2, 3]\<rparr>"
  obtain s q where S: "np_ok s q" "q_events q = [?e]" "log_at q 5 0 0" "room s = 504" "sent s = []" "g_diag_sender s = Some rtk_diag_uart_send"
    using one_event [of 507] by auto
  have env: "as_ap one_core" by (simp add: one_core_def)
  have e: "evt_size (q_events q ! 0) \<le> room s" "evt_size ?e \<le> 504" using S(2,4) by (simp_all add: evt_size_def)
  have "\<exists>s'. rtk_diag_req_get_event one_core 5 0 s = Some (RTK_SUCCESS, s') \<and>
      sent s' = [wire 3 (le16_bytes 0 @ events_image (rsvd_of one_core) (q_events q))]"
    using diag_log_batch [OF env S(1) _ S(3) _ e(1), of 0] S e(2) by (auto simp: Let_def rtk_diag_uart_send_def)
  then show ?thesis using S(1) by blast
qed

end
