(* ===== verification/Diag_At.thy ===== *)
theory Diag_At
  imports Diag_Log
begin

text \<open>
  The AT command of the diagnostics, \<open>at_diag\<close> of \<open>atcmd_diag.c\<close>, in the build for a single core without
  the debug commands. The arguments are the strings of the command line; the number conversions are those
  of the C library. The result is what the command answers with.
\<close>

section \<open>Numbers\<close>

definition is_digit :: "char \<Rightarrow> bool" where
  "is_digit c \<longleftrightarrow> of_char c \<ge> (48 :: nat) \<and> of_char c \<le> (57 :: nat)"

definition is_blank :: "char \<Rightarrow> bool" where
  "is_blank c \<longleftrightarrow> of_char c = (32 :: nat) \<or> of_char c \<ge> (9 :: nat) \<and> of_char c \<le> (13 :: nat)"

definition decimal :: "string \<Rightarrow> nat" where
  "decimal ds = foldl (\<lambda>n c. 10 * n + (of_char c - 48)) 0 ds"

text \<open>The sign, the digits and what follows them.\<close>

definition split_number :: "string \<Rightarrow> bool \<times> string \<times> string" where
  "split_number s =
     (let t = dropWhile is_blank s;
          neg = (t \<noteq> [] \<and> hd t = CHR ''-'');
          u = (if t \<noteq> [] \<and> (hd t = CHR ''-'' \<or> hd t = CHR ''+'') then tl t else t)
      in (neg, takeWhile is_digit u, dropWhile is_digit u))"

definition atoi :: "string \<Rightarrow> int" where
  "atoi s = (case split_number s of (neg, ds, rest) \<Rightarrow> if neg then - int (decimal ds) else int (decimal ds))"

text \<open>\<open>_strtoul\<close> to the base 10 with the check of the end pointer: None when there is no number or something
  follows it.\<close>

definition strtoul_all :: "string \<Rightarrow> u32 option" where
  "strtoul_all s = (case split_number s of (neg, ds, rest) \<Rightarrow>
     if ds = [] \<or> rest \<noteq> [] then None
     else if decimal ds > 4294967295 then Some (- 1)
     else Some (if neg then - of_nat (decimal ds) else of_nat (decimal ds)))"

section \<open>The command\<close>

record AtDiag =
  g_private_frame_buffer :: "nat option"
  g_sender_buffer_size :: u16
  at_np :: DiagNp

text \<open>An allocation of \<open>n\<close> bytes for a frame; the number of the block and its content come from outside.\<close>

definition frame_malloc :: "nat option \<Rightarrow> (nat \<Rightarrow> RtkDiagDataFrame) \<Rightarrow> u16 \<Rightarrow> DiagNp \<Rightarrow> nat option \<times> DiagNp" where
  "frame_malloc p junk n s = (case p of
     None \<Rightarrow> (None, s)
   | Some b \<Rightarrow> (Some b, s\<lparr>frames := (frames s)(b \<mapsto> junk (unat n))\<rparr>))"

definition frame_free :: "nat option \<Rightarrow> DiagNp \<Rightarrow> DiagNp" where
  "frame_free p s = (case p of None \<Rightarrow> s | Some b \<Rightarrow> s\<lparr>frames := (frames s)(b := None)\<rparr>)"

text \<open>The buffer and the configuration that every command makes sure of first.\<close>

definition at_prepare :: "DiagEnv \<Rightarrow> nat option \<Rightarrow> (nat \<Rightarrow> RtkDiagDataFrame) \<Rightarrow> AtDiag \<Rightarrow> AtDiag option" where
  "at_prepare env p junk s = do {
     let s1 = (if g_private_frame_buffer s = None
               then let (b, n) = frame_malloc p junk (g_sender_buffer_size s) (at_np s)
                    in s\<lparr>g_private_frame_buffer := b, at_np := n\<rparr>
               else s);
     if \<not> rtk_diag_transform_has_configed (at_np s1) then do {
       (r, n) \<leftarrow> rtk_diag_config_transform env None (g_private_frame_buffer s1) (g_sender_buffer_size s1) (at_np s1);
       Some (s1\<lparr>at_np := n\<rparr>)
     }
     else Some s1
   }"

definition at_buf_com :: "DiagEnv \<Rightarrow> nat option \<Rightarrow> (nat \<Rightarrow> RtkDiagDataFrame) \<Rightarrow> u16 \<Rightarrow> AtDiag \<Rightarrow> (int \<times> AtDiag) option" where
  "at_buf_com env p junk new_size s = do {
     let (tmp, n) = (if new_size \<ge> SEND_BUFFER_SIZE_MIN then frame_malloc p junk new_size (at_np s) else (None, at_np s));
     (ret, n1) \<leftarrow> rtk_diag_req_set_buf_com_capacity env tmp new_size n;
     if ret = RTK_SUCCESS
     then Some (ret, s\<lparr>at_np := frame_free (g_private_frame_buffer s) n1, g_private_frame_buffer := tmp, g_sender_buffer_size := new_size\<rparr>)
     else Some (ret, s\<lparr>at_np := n1\<rparr>)
   }"

text \<open>A request on the diagnostics, and one that needs a number first.\<close>

definition on_np :: "(DiagNp \<Rightarrow> (int \<times> DiagNp) option) \<Rightarrow> AtDiag \<Rightarrow> (int \<times> AtDiag) option" where
  "on_np f s = map_option (\<lambda>(r, n). (r, s\<lparr>at_np := n\<rparr>)) (f (at_np s))"

definition with_time :: "string \<Rightarrow> (u32 \<Rightarrow> DiagNp \<Rightarrow> (int \<times> DiagNp) option) \<Rightarrow> AtDiag \<Rightarrow> (int \<times> AtDiag) option" where
  "with_time a f s = (case strtoul_all a of None \<Rightarrow> Some (RTK_ERR_BADARG, s) | Some tm \<Rightarrow> on_np (f tm) s)"

definition at_dispatch ::
  "DiagEnv \<Rightarrow> nat option \<Rightarrow> (nat \<Rightarrow> RtkDiagDataFrame) \<Rightarrow> string list \<Rightarrow> AtDiag \<Rightarrow> (int \<times> AtDiag) option" where
  "at_dispatch env p junk argv s =
     (let argc = length argv; bad = Some (RTK_ERR_BADARG, s) in
      if argc \<le> 1 then bad
      else
        let op = argv ! 1 in
        if op = ''TM'' then if argc \<noteq> 2 then bad else on_np (rtk_diag_req_timestamp env) s
        else if op = ''BUF_COM'' then if argc \<noteq> 3 then bad else at_buf_com env p junk (of_int (atoi (argv ! 2))) s
        else if op = ''BUF_EVT'' then
          if argc \<noteq> 3 then bad else on_np (rtk_diag_req_set_buf_evt_capacity env (of_int (atoi (argv ! 2)))) s
        else if op = ''VER'' then if argc \<noteq> 2 then bad else on_np (rtk_diag_req_version env) s
        else if op = ''GET_EVT'' then
          if argc \<noteq> 4 then bad
          else with_time (argv ! 2) (\<lambda>tm. rtk_diag_req_get_event env tm (of_int (atoi (argv ! 3)))) s
        else if op = ''DEL_EVT_BF'' then if argc \<noteq> 3 then bad else with_time (argv ! 2) (rtk_diag_req_del_event_before env) s
        else if op = ''DEL_EVT_AF'' then if argc \<noteq> 3 then bad else with_time (argv ! 2) (rtk_diag_req_del_event_after env) s
        else if op = ''GET_DEL'' then if argc \<noteq> 2 then bad else on_np (rtk_diag_req_get_del_events env) s
        else if op = ''CLR_DEL'' then if argc \<noteq> 2 then bad else on_np (rtk_diag_req_clr_del_events env) s
        else if op = ''LOG'' then
          if argc \<noteq> 3 then bad else on_np (\<lambda>n. Some (rtk_diag_req_log_enable (of_int (atoi (argv ! 2))) n)) s
        else bad)"

definition at_diag ::
  "DiagEnv \<Rightarrow> nat option \<Rightarrow> (nat \<Rightarrow> RtkDiagDataFrame) \<Rightarrow> string list \<Rightarrow> AtDiag \<Rightarrow> (int \<times> AtDiag) option" where
  "at_diag env p junk argv s = do {
     s1 \<leftarrow> at_prepare env p junk s;
     at_dispatch env p junk argv s1
   }"

section \<open>A new send buffer is not told to the protocol\<close>

lemma find_result:
  assumes "rtk_diag_queue_find q t off l = Some (ev, g, l', r, q')"
  shows "ev = None \<longrightarrow> r = RTK_ERR_DIAG_EVT_NO_MORE"
  using assms by (auto simp: rtk_diag_queue_find_def Let_def split: Option.bind_splits if_splits)

lemma get_event_stale:
  assumes "as_ap env" and "np_proto s = Some h" and "data_frame h = Some a" and "frames s a = None"
  shows "rtk_diag_req_get_event env t off s = None"
  using assms find_result
  by (fastforce simp: rtk_diag_req_get_event_def locked_def rtk_diag_lock_acquire_def Let_def rtk_diag_proto_pack_event_def
      split: Option.bind_splits)

text \<open>
  C35. On a single core, a new size for the send buffer that is accepted makes the next request for an event
  fault. The new buffer is used for sending and the old one is freed, but the protocol is not told: it packs
  the next event into the freed buffer.
\<close>

theorem at_buf_com_stale:
  fixes n :: u16
  assumes "as_ap env" and "np_ok (at_np s) q" and conf: "rtk_diag_transform_has_configed (at_np s)"
    and "g_private_frame_buffer s = g_using_frame_buffer (at_np s)"
    and "b \<noteq> the (g_using_frame_buffer (at_np s))" and "length (f_payload (junk (unat n))) + 5 = unat n"
    and "n = of_int (atoi arg)" and "9 \<le> n" and "strtoul_all tm \<noteq> None"
  shows "\<exists>s'. at_diag env (Some b) junk [''+DIAG'', ''BUF_COM'', arg] s = Some (RTK_SUCCESS, s') \<and>
    g_using_frame_buffer (at_np s') = Some b \<and> at_diag env p junk' [''+DIAG'', ''GET_EVT'', tm, off] s' = None"
proof -
  let ?np = "at_np s"
  obtain h a f snd where S: "np_proto ?np = Some h" "data_frame h = Some a" "g_using_frame_buffer ?np = Some a"
      "g_diag_sender ?np = Some snd"
    using assms(2) conf by (auto simp: np_ok_def rtk_diag_transform_has_configed_def)
  have ba: "b \<noteq> a" using assms(5) S(3) by simp
  have prep: "at_prepare env (Some b) junk s = Some s" using assms(4) S(3) conf by (simp add: at_prepare_def Let_def)
  let ?s1 = "?np\<lparr>frames := (frames ?np)(b \<mapsto> junk (unat n)), g_using_frame_buffer := Some b, g_using_frame_buffer_capacity := n\<rparr>"
  have pl: "4 \<le> length (f_payload (junk (unat n)))" using assms(6,8) by (simp add: word_le_nat_alt)
  obtain f' where P: "rtk_diag_proto_pack_custom (junk (unat n)) CMD_TYPE_BUFFER (le16_bytes n) 2 = Some f'"
      "carries f' CMD_TYPE_BUFFER (le16_bytes n)"
    using pack_custom_carries [of 2 "le16_bytes n" "junk (unat n)" CMD_TYPE_BUFFER] pl by auto
  note F = frame_bytes_wire [OF P(2)]
  obtain n1 where N: "rtk_diag_req_set_buf_com_capacity env (Some b) n (?np\<lparr>frames := (frames ?np)(b \<mapsto> junk (unat n))\<rparr>) = Some (RTK_SUCCESS, n1)"
      "np_proto n1 = Some h" "g_using_frame_buffer n1 = Some b" "g_diag_sender n1 = Some snd"
    using assms(1) S P(1) F ba that
    by (auto simp: rtk_diag_req_set_buf_com_capacity_def locked_def rtk_diag_lock_acquire_def rtk_diag_req_low_def diag_send_def
        unlocking_def rtk_diag_lock_release_def Let_def)
  let ?s' = "s\<lparr>at_np := frame_free (Some a) n1, g_private_frame_buffer := Some b, g_sender_buffer_size := n\<rparr>"
  have "at_diag env (Some b) junk [''+DIAG'', ''BUF_COM'', arg] s = Some (RTK_SUCCESS, ?s')"
    using prep N(1) assms(4,8) S(3)
    by (simp add: at_diag_def at_dispatch_def Let_def at_buf_com_def frame_malloc_def flip: assms(7))
  moreover have "at_prepare env p junk' ?s' = Some ?s'"
    using N(3,4) by (simp add: at_prepare_def Let_def rtk_diag_transform_has_configed_def frame_free_def)
  moreover have "rtk_diag_req_get_event env t o' (frame_free (Some a) n1) = None" for t o'
    using get_event_stale [OF assms(1), of "frame_free (Some a) n1" h a] N(2) S(2) by (simp add: frame_free_def)
  ultimately show ?thesis using N(3) assms(9)
    by (auto simp: at_diag_def at_dispatch_def Let_def with_time_def on_np_def frame_free_def)
qed

theorem at_buf_com_stale_witness:
  "\<exists>s s' b junk. at_diag one_core (Some b) junk [''+DIAG'', ''BUF_COM'', ''600''] s = Some (RTK_SUCCESS, s') \<and>
     g_using_frame_buffer (at_np s') = Some b \<and> at_diag one_core None junk [''+DIAG'', ''GET_EVT'', ''5'', ''0''] s' = None"
proof -
  obtain n q where N: "np_ok n q" "g_diag_sender n = Some rtk_diag_uart_send" using one_event [of 507] by auto
  let ?s = "\<lparr>g_private_frame_buffer = g_using_frame_buffer n, g_sender_buffer_size = 512, at_np = n\<rparr>"
  let ?junk = "\<lambda>k. \<lparr>f_header = 0, f_size = 0, f_cmd = 0, f_payload = replicate (k - 5) 0\<rparr>"
  let ?b = "Suc (the (g_using_frame_buffer n))"
  have conf: "rtk_diag_transform_has_configed n" using N by (auto simp: np_ok_def rtk_diag_transform_has_configed_def)
  have a: "atoi ''600'' = 600" "strtoul_all ''5'' = Some 5"
    by (simp_all add: atoi_def strtoul_all_def split_number_def decimal_def is_digit_def is_blank_def)
  have "\<exists>s'. at_diag one_core (Some ?b) ?junk [''+DIAG'', ''BUF_COM'', ''600''] ?s = Some (RTK_SUCCESS, s') \<and>
      g_using_frame_buffer (at_np s') = Some ?b \<and> at_diag one_core None ?junk [''+DIAG'', ''GET_EVT'', ''5'', ''0''] s' = None"
    by (rule at_buf_com_stale [where n = 600 and q = q]) (use N a conf in \<open>simp_all add: one_core_def word_le_nat_alt\<close>)
  then show ?thesis by blast
qed

end
