(* ===== verification/Diag_Ap.thy ===== *)
theory Diag_Ap
  imports Diag_Log
begin

text \<open>
  The diagnostics on the application processor of a dual core system, \<open>ameba_diagnose_ap.c\<close>. It hands every
  request to the network processor with a message and polls the flag of that message. The memory the two
  cores share is the frames: the handler of the network processor works on the frames of the sender. When
  the handler runs is decided by the environment, as the number of polls before it.
\<close>

section \<open>State\<close>

record ApEnv =
  ap_env :: DiagEnv
  np_env :: DiagEnv
  mutex_ok :: bool
  ipc_delay :: "nat option"

text \<open>The mutexes that exist are counted.\<close>

record DiagAp = DiagIo +
  ap_initialized :: bool
  g_ipc_mutex :: "nat option"
  mutexes :: nat
  g_at_cmd :: RtkDiagAtCmd
  g_diag_ipc_msg :: RtkDiagIpcMsg
  ap_np :: DiagNp

lemma ap_np_update [simp]:
  "g_diag_sender (s\<lparr>ap_np := n\<rparr>) = g_diag_sender s" "g_using_frame_buffer (s\<lparr>ap_np := n\<rparr>) = g_using_frame_buffer s"
  "g_using_frame_buffer_capacity (s\<lparr>ap_np := n\<rparr>) = g_using_frame_buffer_capacity s" "frames (s\<lparr>ap_np := n\<rparr>) = frames s"
  "sent (s\<lparr>ap_np := n\<rparr>) = sent s" "ap_np (s\<lparr>ap_np := n\<rparr>) = n" "g_at_cmd (s\<lparr>ap_np := n\<rparr>) = g_at_cmd s"
  "g_diag_ipc_msg (s\<lparr>ap_np := n\<rparr>) = g_diag_ipc_msg s" "mutexes (s\<lparr>ap_np := n\<rparr>) = mutexes s"
  "ap_np (s\<lparr>frames := fs\<rparr>) = ap_np s" "ap_np (s\<lparr>sent := bs\<rparr>) = ap_np s" "ap_np (s\<lparr>g_at_cmd := c\<rparr>) = ap_np s"
  "ap_np (s\<lparr>g_diag_ipc_msg := m\<rparr>) = ap_np s"
  by (cases s, simp)+

definition RTK_ERR_TIMEOUT :: int where "RTK_ERR_TIMEOUT = 5"

abbreviation (input) "IPC_WAIT_TIMEOUT \<equiv> 1000000 :: nat"

section \<open>Start and end\<close>

definition ap_diag_init :: "ApEnv \<Rightarrow> u16 \<Rightarrow> u16 \<Rightarrow> DiagAp \<Rightarrow> int \<times> DiagAp" where
  "ap_diag_init env heap_cap sender_buffer_size s =
     (if ap_initialized s then (RTK_SUCCESS, s)
      else
        let s1 = s\<lparr>g_diag_sender := Some rtk_diag_uart_send\<rparr> in
        if \<not> mutex_ok env then (RTK_FAIL, s1)
        else (RTK_SUCCESS, s1\<lparr>g_ipc_mutex := Some (mutexes s1), mutexes := mutexes s1 + 1, g_diag_debug_log_state := 0\<rparr>))"

definition ap_diag_deinit :: "DiagAp \<Rightarrow> DiagAp" where
  "ap_diag_deinit s =
     (if \<not> ap_initialized s then s
      else s\<lparr>mutexes := mutexes s - 1, g_ipc_mutex := None, ap_initialized := False\<rparr>)"

section \<open>Messages\<close>

definition rtk_diag_ipc_status_get :: "DiagAp \<Rightarrow> int" where
  "rtk_diag_ipc_status_get s = msg_flag (g_diag_ipc_msg s)"

definition rtk_diag_ipc_status_set :: "int \<Rightarrow> DiagAp \<Rightarrow> DiagAp" where
  "rtk_diag_ipc_status_set flag s = s\<lparr>g_diag_ipc_msg := (g_diag_ipc_msg s)\<lparr>msg_flag := flag\<rparr>\<rparr>"

text \<open>The other core handles the message.\<close>

definition ipc_deliver :: "ApEnv \<Rightarrow> DiagAp \<Rightarrow> DiagAp option" where
  "ipc_deliver env s = do {
     (m, n) \<leftarrow> rtk_diag_ipc_recv (np_env env) (g_diag_ipc_msg s) ((ap_np s)\<lparr>frames := frames s\<rparr>);
     Some (s\<lparr>g_diag_ipc_msg := m, ap_np := n, frames := frames n\<rparr>)
   }"

text \<open>The loop that polls, with the polls that are left and the polls until the other core answers.\<close>

fun ipc_wait :: "ApEnv \<Rightarrow> nat \<Rightarrow> nat option \<Rightarrow> DiagAp \<Rightarrow> (int \<times> DiagAp) option" where
  "ipc_wait env 0 d s = Some (RTK_ERR_TIMEOUT, s)"
| "ipc_wait env (Suc n) d s = do {
     s1 \<leftarrow> (if d = Some 0 then ipc_deliver env s else Some s);
     if rtk_diag_ipc_status_get s1 \<noteq> IPC_WAIT_RESPONSE then Some (RTK_SUCCESS, s1)
     else ipc_wait env n (case d of Some (Suc k) \<Rightarrow> Some k | _ \<Rightarrow> None) s1
   }"

definition rtk_diag_ipc_send_raw :: "ApEnv \<Rightarrow> ipc_data \<Rightarrow> u32 \<Rightarrow> u8 \<Rightarrow> DiagAp \<Rightarrow> (int \<times> DiagAp) option" where
  "rtk_diag_ipc_send_raw env addr n ty s =
     (let s1 = s\<lparr>g_diag_ipc_msg := (g_diag_ipc_msg s)\<lparr>msg_addr := addr, msg_size := n, msg_type := ty\<rparr>\<rparr>;
          s2 = rtk_diag_ipc_status_set IPC_WAIT_RESPONSE s1
      in ipc_wait env IPC_WAIT_TIMEOUT (ipc_delay env) s2)"

definition rtk_diag_ipc_send :: "ApEnv \<Rightarrow> ipc_data \<Rightarrow> u32 \<Rightarrow> u8 \<Rightarrow> DiagAp \<Rightarrow> (int \<times> DiagAp) option" where
  "rtk_diag_ipc_send env addr n ty s =
     (if \<not> mutex_ok env then Some (RTK_ERR_BUSY, s)
      else do {
        (ret, s1) \<leftarrow> rtk_diag_ipc_send_raw env addr n ty s;
        if ret = RTK_SUCCESS \<and> ty = IPC_MSG_TYPE_ATCMD then diag_send s1 else Some (ret, s1)
      })"

section \<open>Requests\<close>

definition ap_config_transform ::
  "ApEnv \<Rightarrow> (u8 list \<Rightarrow> int) option \<Rightarrow> nat option \<Rightarrow> u16 \<Rightarrow> DiagAp \<Rightarrow> (int \<times> DiagAp) option" where
  "ap_config_transform env sender sender_buffer sender_buffer_size s0 =
     (if \<not> mutex_ok env then Some (RTK_ERR_BUSY, s0)
      else
        let s = s0\<lparr>g_diag_sender := Some (case sender of None \<Rightarrow> rtk_diag_uart_send | Some f \<Rightarrow> f)\<rparr>;
            finish = (\<lambda>s1. rtk_diag_ipc_send_raw env (ToBuffer (g_using_frame_buffer s1))
                        (ucast (g_using_frame_buffer_capacity s1)) IPC_MSG_TYPE_CONFIG s1)
        in case sender_buffer of
             None \<Rightarrow> finish s
           | Some b \<Rightarrow>
               if sender_buffer_size < SEND_BUFFER_SIZE_MIN then Some (RTK_ERR_DIAG_TOO_SMALL_BUFF, s)
               else if g_using_frame_buffer s = Some b \<and> g_using_frame_buffer_capacity s = sender_buffer_size
               then Some (RTK_SUCCESS, s)
               else finish (s\<lparr>g_using_frame_buffer := Some b, g_using_frame_buffer_capacity := sender_buffer_size\<rparr>))"

text \<open>The event is a block of its own while the message is under way.\<close>

definition ap_event_add :: "ApEnv \<Rightarrow> u8 \<Rightarrow> u16 \<Rightarrow> u8 list \<Rightarrow> u16 \<Rightarrow> DiagAp \<Rightarrow> (int \<times> DiagAp) option" where
  "ap_event_add env level ty info len s =
     (if \<not> malloc_ok (ap_env env) 0 then Some (RTK_ERR_DIAG_MALLOC, s)
      else
        let e = \<lparr>evt_type = ty, evt_len = len, evt_time = now_ms (ap_env env), evt_level = level, evt_info = take (unat len) info\<rparr>
        in rtk_diag_ipc_send env (ToEvent e) (EVENT_REAL_SIZE e) IPC_MSG_TYPE_EVT_ADD s)"

definition ap_req_timestamp :: "ApEnv \<Rightarrow> DiagAp \<Rightarrow> (int \<times> DiagAp) option" where
  "ap_req_timestamp env =
     rtk_diag_req_low (ap_env env) CMD_TYPE_OSTIME (Some (le32_bytes (now_ms (ap_env env)))) 4 0"

definition ap_req_version :: "ApEnv \<Rightarrow> DiagAp \<Rightarrow> (int \<times> DiagAp) option" where
  "ap_req_version env = rtk_diag_req_low (ap_env env) CMD_TYPE_VER
     (Some (format_hash (ap_env env))) (of_nat (length (format_hash (ap_env env)))) 0"

definition ap_req_set_buf_com_capacity :: "ApEnv \<Rightarrow> nat option \<Rightarrow> u16 \<Rightarrow> DiagAp \<Rightarrow> (int \<times> DiagAp) option" where
  "ap_req_set_buf_com_capacity env sender_buffer capacity s =
     (case sender_buffer of
        Some b \<Rightarrow> do {
          s1 \<leftarrow> (if g_using_frame_buffer s \<noteq> Some b \<or> g_using_frame_buffer_capacity s \<noteq> capacity
                 then map_option snd (rtk_diag_ipc_send env (ToBuffer (Some b)) (ucast capacity) IPC_MSG_TYPE_CONFIG
                        (s\<lparr>g_using_frame_buffer := Some b, g_using_frame_buffer_capacity := capacity\<rparr>))
                 else Some s);
          (r, s2) \<leftarrow> rtk_diag_req_low (ap_env env) CMD_TYPE_BUFFER (Some (le16_bytes capacity)) 2 0 s1;
          Some (RTK_SUCCESS, s2)
        }
      | None \<Rightarrow> do {
          let ret = (if capacity < SEND_BUFFER_SIZE_MIN then RTK_ERR_DIAG_TOO_SMALL_BUFF else RTK_ERR_DIAG_MALLOC);
          (r, s2) \<leftarrow> rtk_diag_req_low (ap_env env) CMD_TYPE_BUFFER None 0 ret s;
          Some (ret, s2)
        })"

text \<open>The command is kept in one variable; fields a command does not use keep their values.\<close>

definition send_cmd :: "ApEnv \<Rightarrow> RtkDiagAtCmd \<Rightarrow> DiagAp \<Rightarrow> (int \<times> DiagAp) option" where
  "send_cmd env c s = rtk_diag_ipc_send env (ToCmd c) 20 IPC_MSG_TYPE_ATCMD (s\<lparr>g_at_cmd := c\<rparr>)"

definition ap_req_set_buf_evt_capacity :: "ApEnv \<Rightarrow> u16 \<Rightarrow> DiagAp \<Rightarrow> (int \<times> DiagAp) option" where
  "ap_req_set_buf_evt_capacity env capacity s =
     send_cmd env ((g_at_cmd s)\<lparr>at_type := CMD_TYPE_HEAP, at_capacity := ucast capacity\<rparr>) s"

definition ap_req_get_event :: "ApEnv \<Rightarrow> u32 \<Rightarrow> u16 \<Rightarrow> DiagAp \<Rightarrow> (int \<times> DiagAp) option" where
  "ap_req_get_event env timestamp offset s =
     send_cmd env ((g_at_cmd s)\<lparr>at_type := CMD_TYPE_READ, at_timestamp := timestamp, at_offset := offset\<rparr>) s"

definition ap_req_del_event_before :: "ApEnv \<Rightarrow> u32 \<Rightarrow> DiagAp \<Rightarrow> (int \<times> DiagAp) option" where
  "ap_req_del_event_before env timestamp s =
     send_cmd env ((g_at_cmd s)\<lparr>at_type := CMD_TYPE_DEL_BF, at_timestamp := timestamp\<rparr>) s"

definition ap_req_del_event_after :: "ApEnv \<Rightarrow> u32 \<Rightarrow> DiagAp \<Rightarrow> (int \<times> DiagAp) option" where
  "ap_req_del_event_after env timestamp s =
     send_cmd env ((g_at_cmd s)\<lparr>at_type := CMD_TYPE_DEL_AF, at_timestamp := timestamp\<rparr>) s"

definition ap_req_get_del_events :: "ApEnv \<Rightarrow> DiagAp \<Rightarrow> (int \<times> DiagAp) option" where
  "ap_req_get_del_events env s = send_cmd env ((g_at_cmd s)\<lparr>at_type := CMD_TYPE_GET_DEL\<rparr>) s"

definition ap_req_clr_del_events :: "ApEnv \<Rightarrow> DiagAp \<Rightarrow> (int \<times> DiagAp) option" where
  "ap_req_clr_del_events env s = send_cmd env ((g_at_cmd s)\<lparr>at_type := CMD_TYPE_CLR_DEL\<rparr>) s"

definition ap_req_log_enable :: "ApEnv \<Rightarrow> u8 \<Rightarrow> DiagAp \<Rightarrow> (int \<times> DiagAp) option" where
  "ap_req_log_enable env state s =
     send_cmd env ((g_at_cmd s)\<lparr>at_type := CMD_TYPE_SET_LOG, at_log := state\<rparr>) (s\<lparr>log_info := (state \<noteq> 0)\<rparr>)"

definition ap_req_dbg_log_enable :: "ApEnv \<Rightarrow> u8 \<Rightarrow> DiagAp \<Rightarrow> (int \<times> DiagAp) option" where
  "ap_req_dbg_log_enable env state s =
     send_cmd env ((g_at_cmd s)\<lparr>at_type := CMD_TYPE_SET_DBG_LOG, at_log := state\<rparr>) (s\<lparr>g_diag_debug_log_state := state\<rparr>)"

section \<open>The network processor gives the lock back\<close>

lemma req_low_held:
  "rtk_diag_req_low env cmd p n err s = Some (r, s') \<Longrightarrow> sem_held s' = sem_held (s :: DiagNp)"
  by (auto simp: rtk_diag_req_low_def diag_send_def Let_def split: Option.bind_splits if_splits)

lemma locked_held:
  assumes "locked env cmd body s = Some (r, s')" and "\<not> as_ap env" and "\<not> sem_held s"
    and "\<And>s1. body s1 = Some (r, s') \<Longrightarrow> \<not> sem_held s'"
  shows "\<not> sem_held s'"
  using assms
  by (auto simp: locked_def rtk_diag_lock_acquire_def split: Option.bind_splits if_splits dest: req_low_held)

lemma unlocking_held: "\<not> as_ap env \<Longrightarrow> unlocking env rs = (r, s') \<Longrightarrow> \<not> sem_held s'"
  by (auto simp: unlocking_def rtk_diag_lock_release_def)

lemma get_event_held:
  assumes "rtk_diag_req_get_event env t off s = Some (r, s')" and "\<not> as_ap env" and "\<not> sem_held s"
  shows "\<not> sem_held s'"
  using assms unfolding rtk_diag_req_get_event_def
  by (rule locked_held)
    (use assms(2) in \<open>auto simp: Let_def rtk_diag_req_low_def split: Option.bind_splits if_splits prod.splits dest: unlocking_held\<close>)

lemma request_held:
  assumes "\<not> as_ap env" and "\<not> sem_held s"
  shows "rtk_diag_req_add_event env t lv ty info len s = Some (r, s') \<Longrightarrow> \<not> sem_held s'"
    and "rtk_diag_req_set_buf_evt_capacity env c s = Some (r, s') \<Longrightarrow> \<not> sem_held s'"
    and "rtk_diag_req_get_del_events env s = Some (r, s') \<Longrightarrow> \<not> sem_held s'"
    and "rtk_diag_req_clr_del_events env s = Some (r, s') \<Longrightarrow> \<not> sem_held s'"
    and "rtk_diag_req_del_event_before env t s = Some (r, s') \<Longrightarrow> \<not> sem_held s'"
    and "rtk_diag_req_del_event_after env t s = Some (r, s') \<Longrightarrow> \<not> sem_held s'"
  unfolding rtk_diag_req_add_event_def rtk_diag_req_set_buf_evt_capacity_def rtk_diag_req_get_del_events_def
    rtk_diag_req_clr_del_events_def rtk_diag_req_del_event_before_def rtk_diag_req_del_event_after_def
  by (erule locked_held [OF _ assms], (auto simp: Let_def assms(1) split: Option.bind_splits if_splits prod.splits
      dest: unlocking_held [OF assms(1)])[1])+


section \<open>Waiting for the other core\<close>

lemma ipc_wait_answered:
  assumes "k < n" and "rtk_diag_ipc_status_get s = IPC_WAIT_RESPONSE" and "ipc_deliver env s = Some s1"
    and "rtk_diag_ipc_status_get s1 \<noteq> IPC_WAIT_RESPONSE"
  shows "ipc_wait env n (Some k) s = Some (RTK_SUCCESS, s1)"
  using assms(1)
proof (induction n arbitrary: k)
  case 0
  then show ?case by simp
next
  case (Suc n)
  then show ?case using assms(2-4) by (cases k) simp_all
qed

lemma ipc_wait_silent:
  assumes "\<forall>k. d = Some k \<longrightarrow> n \<le> k" and "rtk_diag_ipc_status_get s = IPC_WAIT_RESPONSE"
  shows "ipc_wait env n d s = Some (RTK_ERR_TIMEOUT, s)"
  using assms(1)
proof (induction n arbitrary: d)
  case 0
  then show ?case by simp
next
  case (Suc n)
  have "ipc_wait env n (case d of Some (Suc k) \<Rightarrow> Some k | _ \<Rightarrow> None) s = Some (RTK_ERR_TIMEOUT, s)"
    by (rule Suc.IH) (use Suc.prems in \<open>auto split: option.splits nat.splits\<close>)
  then show ?case using Suc.prems assms(2) by auto
qed

text \<open>The state in which the message is sent.\<close>

definition with_msg :: "ipc_data \<Rightarrow> u32 \<Rightarrow> u8 \<Rightarrow> DiagAp \<Rightarrow> DiagAp" where
  "with_msg addr n ty s =
     s\<lparr>g_diag_ipc_msg := (g_diag_ipc_msg s)\<lparr>msg_addr := addr, msg_size := n, msg_type := ty, msg_flag := IPC_WAIT_RESPONSE\<rparr>\<rparr>"

lemma send_raw_wait:
  "rtk_diag_ipc_send_raw env addr n ty s = ipc_wait env IPC_WAIT_TIMEOUT (ipc_delay env) (with_msg addr n ty s)"
  by (simp add: rtk_diag_ipc_send_raw_def Let_def rtk_diag_ipc_status_set_def with_msg_def)

lemma send_raw_answered:
  assumes "ipc_delay env = Some k" and "k < 1000000" and "ipc_deliver env (with_msg addr n ty s) = Some s1"
    and "msg_flag (g_diag_ipc_msg s1) \<noteq> IPC_WAIT_RESPONSE"
  shows "rtk_diag_ipc_send_raw env addr n ty s = Some (RTK_SUCCESS, s1)"
  unfolding send_raw_wait assms(1)
  by (rule ipc_wait_answered) (use assms(2-4) in \<open>simp_all add: rtk_diag_ipc_status_get_def with_msg_def\<close>)

text \<open>
  C24. A message to the other core is always decided: when the other core does not answer within the limit of
  polls, the caller gets a time-out error, and nothing but the message itself has changed.
\<close>

theorem ipc_send_times_out:
  assumes "\<forall>k. ipc_delay env = Some k \<longrightarrow> 1000000 \<le> k"
  shows "rtk_diag_ipc_send_raw env addr n ty s = Some (RTK_ERR_TIMEOUT, with_msg addr n ty s)"
  unfolding send_raw_wait
  by (rule ipc_wait_silent) (use assms in \<open>simp_all add: rtk_diag_ipc_status_get_def with_msg_def\<close>)

section \<open>A request over two cores\<close>

lemma get_event_np:
  assumes "\<not> as_ap env" and "sem_ok env" and ok: "np_ok s q"
    and find: "rtk_diag_queue_find q t goff 0 = Some (Some e, goff', of_nat l, RTK_SUCCESS, q1)"
    and q1: "q1 = q\<lparr>prev_find_node := of_nat i\<rparr>" and ev: "i < length (q_events q)" "e = q_events q ! i" and l: "l < evt_size e"
  shows "\<exists>s' q' a f'. rtk_diag_req_get_event env t goff s = Some (RTK_SUCCESS, s') \<and> np_ok s' q' \<and> cursor_moved q q' \<and>
    g_using_frame_buffer s = Some a \<and> g_using_frame_buffer s' = Some a \<and> room s' = room s \<and> frames s' a = Some f' \<and>
    take (unat (5 + f_size f')) (frame_bytes f') = wire (frame_cmd (room s) e l)
      (le16_bytes goff' @ frame_data (rsvd_of env) (room s) e l (drop (Suc i) (q_events q))) \<and>
    unat (5 + f_size f') \<le> length (frame_bytes f')"
proof -
  let ?d = "frame_data (rsvd_of env) (room s) e l (drop (Suc i) (q_events q))"
  obtain h a f h' f' q' where P: "np_queue s = Some q" "np_proto s = Some h" "g_using_frame_buffer s = Some a" "frames s a = Some f"
    "rtk_diag_proto_pack_event rtk_diag_next_event_callback (rsvd_of env) h (frames s) q1 (Some e) goff' (of_nat l) =
      Some (h', (frames s)(a \<mapsto> f'), q')"
    "carries f' (frame_cmd (room s) e l) (le16_bytes goff' @ ?d)" "length (f_payload f') = length (f_payload f)"
    "data_frame h' = data_frame h" "event_capacity h' = event_capacity h" "cursor_moved q q'" "length ?d + 8 < 65536"
    by (rule pack_found [OF ok q1 ev l])
  let ?s = "s\<lparr>sem_held := False, np_proto := Some h', frames := (frames s)(a \<mapsto> f'), np_queue := Some q'\<rparr>"
  have "rtk_diag_req_get_event env t goff s = Some (RTK_SUCCESS, ?s)"
    using assms(1,2) P(1-3) find P(5)
    by (simp add: rtk_diag_req_get_event_def locked_def rtk_diag_lock_acquire_def unlocking_def rtk_diag_lock_release_def Let_def)
  moreover have "np_ok ?s q'" using ok P(1-4,6-10) by (auto simp: np_ok_def cursor_moved_def carries_def)
  moreover note frame_bytes_wire [OF P(6)]
  ultimately show ?thesis using P(3,10,11) by (intro exI [of _ ?s] exI [of _ q'] exI [of _ a] exI [of _ f']) (simp add: room_def)
qed

text \<open>The two cores know the same buffer, and the network processor is configured.\<close>

definition ap_ok :: "DiagAp \<Rightarrow> RtkDiagQueue \<Rightarrow> bool" where
  "ap_ok s q \<longleftrightarrow> np_ok ((ap_np s)\<lparr>frames := frames s\<rparr>) q \<and> g_using_frame_buffer s = g_using_frame_buffer (ap_np s) \<and>
     g_diag_sender s \<noteq> None"

text \<open>What a single core with the same queue, buffer and sender would be.\<close>

definition as_single :: "DiagAp \<Rightarrow> DiagNp" where
  "as_single s = (ap_np s)\<lparr>frames := frames s, g_diag_sender := g_diag_sender s, sent := sent s\<rparr>"

lemma as_single_ok: "ap_ok s q \<Longrightarrow> np_ok (as_single s) q" "g_diag_sender (as_single s) = g_diag_sender s"
  "room (as_single s) = room (ap_np s)" "sent (as_single s) = sent s"
  by (auto simp: ap_ok_def as_single_def np_ok_def room_def)

text \<open>
  C15. Two cores answer like one. A request for a byte of the log that the application processor hands to the
  network processor, which answers within the limit of polls and gets the semaphore, sends the same bytes
  and returns the same code as the request on a single core with the same queue, and the log stays.
\<close>

theorem ap_get_event_equiv:
  assumes "ap_ok s q" and "mutex_ok env" and "ipc_delay env = Some k" and "k < 1000000"
    and "\<not> as_ap (np_env env)" and "sem_ok (np_env env)" and "as_ap env1" and "rsvd_of env1 = rsvd_of (np_env env)"
    and "log_at q t i pos" and "unat off = pos + l" and "l < evt_size (q_events q ! i)"
  shows "\<exists>r bs s' s1 q'. ap_req_get_event env t off s = Some (r, s') \<and> sent s' = sent s @ [bs] \<and> ap_ok s' q' \<and>
    q_events q' = q_events q \<and>
    rtk_diag_req_get_event env1 t off (as_single s) = Some (r, s1) \<and> sent s1 = sent (as_single s) @ [bs]"
proof -
  let ?n = "(ap_np s)\<lparr>frames := frames s\<rparr>" and ?e = "q_events q ! i"
  have ok: "np_ok ?n q" and snd: "g_diag_sender s \<noteq> None" using assms(1) by (simp_all add: ap_ok_def)
  have inv: "q_inv q" using ok by (simp add: np_ok_def)
  have i: "i < length (q_events q)" by (rule log_at_index [OF assms(9)])
  have sz: "l < unat (EVENT_REAL_SIZE ?e)" using assms(11) by (simp add: unat_real_size evt_size_def)
  note f = log_at_find [OF inv assms(9,10) sz, of 0]
  let ?w = "wire (frame_cmd (room ?n) ?e l) (le16_bytes off @ frame_data (rsvd_of (np_env env)) (room ?n) ?e l (drop (Suc i) (q_events q)))"
  obtain n' q' a f' where N: "rtk_diag_req_get_event (np_env env) t off ?n = Some (RTK_SUCCESS, n')" "np_ok n' q'" "cursor_moved q q'"
      "g_using_frame_buffer ?n = Some a" "g_using_frame_buffer n' = Some a" "frames n' a = Some f'"
      "take (unat (5 + f_size f')) (frame_bytes f') = ?w" "unat (5 + f_size f') \<le> length (frame_bytes f')"
    using get_event_np [OF assms(5,6) ok f refl i refl assms(11)] by blast
  let ?c = "(g_at_cmd s)\<lparr>at_type := CMD_TYPE_READ, at_timestamp := t, at_offset := off\<rparr>"
  let ?m = "(g_diag_ipc_msg s)\<lparr>msg_addr := ToCmd ?c, msg_size := 20, msg_type := IPC_MSG_TYPE_ATCMD, msg_flag := IPC_DATA_READY\<rparr>"
  let ?s1 = "s\<lparr>g_at_cmd := ?c, g_diag_ipc_msg := ?m, ap_np := n', frames := frames n'\<rparr>"
  have "ipc_deliver env (with_msg (ToCmd ?c) 20 IPC_MSG_TYPE_ATCMD (s\<lparr>g_at_cmd := ?c\<rparr>)) = Some ?s1"
    using N(1) by (simp add: ipc_deliver_def with_msg_def rtk_diag_ipc_recv_def atcmd_switch_def Let_def)
  then have raw: "rtk_diag_ipc_send_raw env (ToCmd ?c) 20 IPC_MSG_TYPE_ATCMD (s\<lparr>g_at_cmd := ?c\<rparr>) = Some (RTK_SUCCESS, ?s1)"
    by (rule send_raw_answered [OF assms(3,4)]) simp
  have a: "g_using_frame_buffer s = Some a" using N(4) assms(1) by (simp add: ap_ok_def)
  obtain send where send: "g_diag_sender s = Some send" using snd by blast
  have "diag_send ?s1 = Some (send ?w, ?s1\<lparr>sent := sent s @ [?w]\<rparr>)"
    using a send N(6-8) by (simp add: diag_send_def Let_def)
  then have "ap_req_get_event env t off s = Some (send ?w, ?s1\<lparr>sent := sent s @ [?w]\<rparr>)"
    using raw assms(2) by (simp add: ap_req_get_event_def send_cmd_def rtk_diag_ipc_send_def)
  moreover have "ap_ok (?s1\<lparr>sent := sent s @ [?w]\<rparr>) q'"
    using N(2,5) a snd by (simp add: ap_ok_def)
  moreover have "q_events q' = q_events q" using N(3) by (auto simp: cursor_moved_def)
  moreover have "\<exists>s1. rtk_diag_req_get_event env1 t off (as_single s) = Some (send ?w, s1) \<and> sent s1 = sent (as_single s) @ [?w]"
    using get_event_found [OF assms(7) as_single_ok(1) [OF assms(1)] _ f refl i refl assms(11)] as_single_ok(2,3) [of s] assms(1,8) send
    by (auto simp: Let_def sent_one_def room_def as_single_def)
  ultimately show ?thesis by fastforce
qed

text \<open>
  C36. The application processor reports an event as added that the network processor refused. The flag of the
  message that comes back carries the error, here that the semaphore was taken, but only the fact that an
  answer came is looked at: the caller gets success while the queue is unchanged.
\<close>

theorem ap_event_add_hides_error:
  assumes "malloc_ok (ap_env env) 0" and "mutex_ok env" and "ipc_delay env = Some k" and "k < 1000000"
    and "\<not> as_ap (np_env env)" and "\<not> sem_ok (np_env env)" and "ap_ok s q"
  shows "\<exists>s'. ap_event_add env lv ty info len s = Some (RTK_SUCCESS, s') \<and> np_queue (ap_np s') = Some q \<and>
    msg_flag (g_diag_ipc_msg s') = RTK_ERR_BUSY"
proof -
  let ?e = "\<lparr>evt_type = ty, evt_len = len, evt_time = now_ms (ap_env env), evt_level = lv, evt_info = take (unat len) info\<rparr>"
  let ?n = "(ap_np s)\<lparr>frames := frames s\<rparr>"
  obtain a f where B: "np_queue ?n = Some q" "g_using_frame_buffer ?n = Some a" "frames ?n a = Some f" "4 \<le> length (f_payload f)"
    using assms(7) by (auto simp: ap_ok_def np_ok_def)
  obtain f' where "rtk_diag_proto_pack_error f CMD_TYPE_READ (of_int RTK_ERR_BUSY) = Some f'"
    using pack_custom_carries [of 1 "[of_int RTK_ERR_BUSY]" f "0x80 OR CMD_TYPE_READ"] B(4)
    by (auto simp: rtk_diag_proto_pack_error_def RTK_ERR_BUSY_def)
  then have "rtk_diag_req_add_event (np_env env) (evt_time ?e) (evt_level ?e) (evt_type ?e) (evt_info ?e) (evt_len ?e) ?n =
      Some (RTK_ERR_BUSY, ?n\<lparr>frames := (frames s)(a \<mapsto> f')\<rparr>)"
    using assms(5,6) B by (simp add: rtk_diag_req_add_event_def locked_def rtk_diag_lock_acquire_def rtk_diag_req_low_def Let_def)
  then obtain s1 where D: "ipc_deliver env (with_msg (ToEvent ?e) (EVENT_REAL_SIZE ?e) IPC_MSG_TYPE_EVT_ADD s) = Some s1"
      "np_queue (ap_np s1) = Some q" "msg_flag (g_diag_ipc_msg s1) = RTK_ERR_BUSY"
    using B(1) by (simp add: ipc_deliver_def with_msg_def rtk_diag_ipc_recv_def)
  have "rtk_diag_ipc_send_raw env (ToEvent ?e) (EVENT_REAL_SIZE ?e) IPC_MSG_TYPE_EVT_ADD s = Some (RTK_SUCCESS, s1)"
    by (rule send_raw_answered [OF assms(3,4) D(1)]) (simp add: D(3) RTK_ERR_BUSY_def)
  then show ?thesis using assms(1,2) D(2,3) by (simp add: ap_event_add_def rtk_diag_ipc_send_def)
qed

text \<open>
  The application processor loses a mutex with every start: the flag that it is initialised is never set,
  so that a second start creates a mutex again and the end deletes none. After \<open>k\<close> starts and ends there are
  \<open>k\<close> mutexes more.
\<close>

theorem ap_init_leaks_mutex:
  assumes "\<not> ap_initialized s" and "mutex_ok env"
  shows "mutexes (((\<lambda>s. ap_diag_deinit (snd (ap_diag_init env heap_cap buf s))) ^^ k) s) = mutexes s + k"
proof -
  let ?cycle = "\<lambda>s. ap_diag_deinit (snd (ap_diag_init env heap_cap buf s))"
  have "\<not> ap_initialized ((?cycle ^^ k) s) \<and> mutexes ((?cycle ^^ k) s) = mutexes s + k"
  proof (induction k)
    case 0
    then show ?case using assms(1) by simp
  next
    case (Suc k)
    then show ?case using assms(2) by (simp add: ap_diag_init_def ap_diag_deinit_def Let_def)
  qed
  then show ?thesis by simp
qed

section \<open>A concrete dual core system\<close>

definition two_cores :: "bool \<Rightarrow> ApEnv" where
  "two_cores free = \<lparr>ap_env = one_core, np_env = one_core\<lparr>as_ap := False, sem_ok := free\<rparr>, mutex_ok = True, ipc_delay = Some 3\<rparr>"

definition with_np :: "DiagNp \<Rightarrow> DiagAp" where
  "with_np n = \<lparr>g_diag_sender = Some rtk_diag_uart_send, g_using_frame_buffer = g_using_frame_buffer n,
     g_using_frame_buffer_capacity = g_using_frame_buffer_capacity n, frames = frames n, sent = [], g_diag_debug_log_state = 0,
     log_info = False, ap_initialized = False, g_ipc_mutex = None, mutexes = 0,
     g_at_cmd = \<lparr>at_type = 0, at_timestamp = 0, at_offset = 0, at_capacity = 0, at_log = 0\<rparr>,
     g_diag_ipc_msg = \<lparr>msg_addr = ToBuffer None, msg_size = 0, msg_type = 0, msg_flag = 0\<rparr>, ap_np = n\<rparr>"

lemma with_np_ok: "np_ok n q \<Longrightarrow> ap_ok (with_np n) q"
  by (simp add: ap_ok_def with_np_def)


theorem ipc_send_times_out_witness:
  "rtk_diag_ipc_send_raw ((two_cores True)\<lparr>ipc_delay := None\<rparr>) (ToBuffer None) 0 0 (with_np (power_up 507)) =
     Some (RTK_ERR_TIMEOUT, with_msg (ToBuffer None) 0 0 (with_np (power_up 507)))"
  using ipc_send_times_out [of "(two_cores True)\<lparr>ipc_delay := None\<rparr>"] by simp

theorem ap_get_event_equiv_witness:
  "\<exists>s r bs s' s1. ap_req_get_event (two_cores True) 5 0 s = Some (r, s') \<and> sent s' = [bs] \<and>
     rtk_diag_req_get_event one_core 5 0 (as_single s) = Some (r, s1) \<and> sent s1 = [bs]"
proof -
  obtain n q where N: "np_ok n q" "q_events q = [\<lparr>evt_type = 7, evt_len = 3, evt_time = 5, evt_level = 1, evt_info = [1, 2, 3]\<rparr>]"
      "log_at q 5 0 0"
    using one_event [of 507] by auto
  have s0: "sent (with_np n) = []" "sent (as_single (with_np n)) = []" by (simp_all add: with_np_def as_single_def)
  have "\<exists>r bs s' s1 q'. ap_req_get_event (two_cores True) 5 0 (with_np n) = Some (r, s') \<and> sent s' = sent (with_np n) @ [bs] \<and>
      ap_ok s' q' \<and> q_events q' = q_events q \<and>
      rtk_diag_req_get_event one_core 5 0 (as_single (with_np n)) = Some (r, s1) \<and> sent s1 = sent (as_single (with_np n)) @ [bs]"
    by (rule ap_get_event_equiv [OF with_np_ok [OF N(1)] _ _ _ _ _ _ _ N(3), where k = 3 and l = 0])
      (use N(2) in \<open>simp_all add: two_cores_def one_core_def evt_size_def\<close>)
  then show ?thesis unfolding s0 append_Nil by blast
qed

theorem ap_event_add_hides_error_witness:
  "\<exists>s s' q. ap_event_add (two_cores False) 1 7 [1] 1 s = Some (RTK_SUCCESS, s') \<and> np_queue (ap_np s') = Some q \<and>
     msg_flag (g_diag_ipc_msg s') = RTK_ERR_BUSY"
proof -
  obtain n q where N: "np_ok n q" using one_event [of 507] by auto
  show ?thesis
    using ap_event_add_hides_error [of "two_cores False" 3 "with_np n" q 1 7 "[1]" 1] with_np_ok [OF N]
    by (auto simp: two_cores_def one_core_def)
qed

theorem ap_init_leaks_mutex_witness:
  "mutexes (((\<lambda>s. ap_diag_deinit (snd (ap_diag_init (two_cores True) 2048 512 s))) ^^ 3) (with_np (power_up 507))) = 3"
  using ap_init_leaks_mutex [of "with_np (power_up 507)" "two_cores True" 3 2048 512] by (simp add: with_np_def two_cores_def)

end
