(* ===== verification/Boot_Lzma.thy ===== *)
theory Boot_Lzma
  imports Nor_Flash "HOL-Library.Monad_Syntax"
begin

text \<open>
  The extraction of a compressed update image in the boot loader,
  \<open>src/component/soc/common/lzma/ameba_boot_lzma.c\<close>. The image is a container: the number of files,
  the size of each, and the files, each of which decompresses to a piece of 16 KB of the application.
  The pieces are written one after the other over the application slot.

  The decoder \<open>LzmaDecode\<close> is an argument of the model: it gets the room in the output buffer, the
  compressed bytes and the properties, and gives its result code and the bytes it put into the
  buffer. The globals of the file are the record \<open>BootLzma\<close>, together with the flash. None stands for
  a write behind the output buffer, a division by zero, a failed assertion or a loop that does not
  end.
\<close>

section \<open>State\<close>

record BootLzma =
  bl_flash :: memory
  output_buf :: "u8 list"
  g_last_block_addr :: u32
  g_curr_block_addr :: u32

type_synonym lzma_dec = "u32 \<Rightarrow> u8 list \<Rightarrow> u8 list \<Rightarrow> int \<times> u8 list"

definition BOOTLZMA_DECOMP_FILE_SIZE :: u32 where "BOOTLZMA_DECOMP_FILE_SIZE = 16384"

definition bootLzma_buffer_set :: "u8 list \<Rightarrow> BootLzma \<Rightarrow> BootLzma" where
  "bootLzma_buffer_set bd_ram s = s\<lparr>output_buf := bd_ram\<rparr>"

section \<open>Writing\<close>

text \<open>The loop is the one of \<open>FLASH_WriteStream\<close>, statement by statement.\<close>

definition bootLzma_flash_write_stream :: "flash_tx \<Rightarrow> u32 \<Rightarrow> u32 \<Rightarrow> u8 list \<Rightarrow> memory \<Rightarrow> memory" where
  "bootLzma_flash_write_stream FLASH_TxData address len pbuf f =
     (let page_begin = address AND NOT 0xFF;
          page_end = (address + len - 1) AND NOT 0xFF;
          page_cnt = drop_bit 8 (page_end - page_begin) + 1;
          addr_begin = address;
          addr_end = (if page_cnt = 1 then address + len else page_begin + 0x100);
          sz = addr_end - addr_begin
      in FLASH_WriteStream_pages FLASH_TxData address len page_cnt addr_begin addr_end sz pbuf f)"

text \<open>What is done before a sector is written: the whole block is erased at its first sector, the
  sectors of a block that is already erased are left alone, any other sector is erased.\<close>

definition bootLzma_make_room :: "flash_er \<Rightarrow> u32 \<Rightarrow> BootLzma \<Rightarrow> BootLzma" where
  "bootLzma_make_room FLASH_Erase sector_addr s =
     (if sector_addr = sector_addr AND NOT 0xFFFF \<and> sector_addr < g_last_block_addr s
      then s\<lparr>bl_flash := FLASH_Erase EraseBlock sector_addr (bl_flash s),
             g_curr_block_addr := sector_addr\<rparr>
      else if g_curr_block_addr s < sector_addr \<and> sector_addr < g_curr_block_addr s + 0x10000 then s
      else s\<lparr>bl_flash := FLASH_Erase EraseSector sector_addr (bl_flash s)\<rparr>)"

text \<open>One round of the loop: a sector that already holds its piece of the data is not touched.\<close>

definition bootLzma_write_sector ::
  "flash_tx \<Rightarrow> flash_er \<Rightarrow> u32 \<Rightarrow> u32 \<Rightarrow> u8 list \<Rightarrow> BootLzma \<Rightarrow> BootLzma" where
  "bootLzma_write_sector FLASH_TxData FLASH_Erase sector_addr cmp_len piece s =
     (if piece = mem_read (bl_flash s) sector_addr (unat cmp_len) then s
      else let s1 = bootLzma_make_room FLASH_Erase sector_addr s
           in s1\<lparr>bl_flash :=
                bootLzma_flash_write_stream FLASH_TxData sector_addr cmp_len piece (bl_flash s1)\<rparr>)"

partial_function (option) bootLzma_flash_write_sectors ::
  "flash_tx \<Rightarrow> flash_er \<Rightarrow> u32 \<Rightarrow> u8 list \<Rightarrow> u32 \<Rightarrow> u32 \<Rightarrow> BootLzma \<Rightarrow> BootLzma option" where
  "bootLzma_flash_write_sectors FLASH_TxData FLASH_Erase write_addr write_data end_a sector_addr s =
     (if \<not> sector_addr < end_a then Some s
      else
        let cmp_len = (if 0x1000 \<le> end_a - sector_addr then 0x1000 else end_a - sector_addr);
            piece = take (unat cmp_len) (drop (unat (sector_addr - write_addr)) write_data)
        in if length piece < unat cmp_len then None
           else bootLzma_flash_write_sectors FLASH_TxData FLASH_Erase write_addr write_data end_a
                  (sector_addr + 0x1000)
                  (bootLzma_write_sector FLASH_TxData FLASH_Erase sector_addr cmp_len piece s))"

definition bootLzma_flash_write ::
  "flash_tx \<Rightarrow> flash_er \<Rightarrow> u32 \<Rightarrow> u32 \<Rightarrow> u8 list \<Rightarrow> BootLzma \<Rightarrow> BootLzma option" where
  "bootLzma_flash_write FLASH_TxData FLASH_Erase write_addr write_length write_data s =
     (let sector_addr = write_addr AND NOT 0xFFF;
          end_a = write_addr + write_length
      in if sector_addr \<noteq> write_addr then None
         else bootLzma_flash_write_sectors FLASH_TxData FLASH_Erase write_addr write_data end_a
                sector_addr s)"

text \<open>With the comparison before the erase the range is not erased here: only the end of the last
  whole block is remembered. A range that is not aligned is logged and nothing else.\<close>

definition bootLzma_flash_range_erase :: "u32 \<Rightarrow> u32 \<Rightarrow> BootLzma \<Rightarrow> BootLzma" where
  "bootLzma_flash_range_erase start_a erase_size_bytes s =
     (let end_a = start_a + erase_size_bytes;
          end_sector_addr = (end_a + 0x1000 - 1) AND NOT 0xFFF
      in s\<lparr>g_last_block_addr := end_sector_addr AND NOT 0xFFFF\<rparr>)"

section \<open>Decompressing\<close>

text \<open>A byte of the flash at the address the processor reads it.\<close>

definition xip_byte :: "memory \<Rightarrow> u32 \<Rightarrow> u8" where
  "xip_byte f a = f (a - SPI_FLASH_BASE)"

definition bootLzma_file_size :: "memory \<Rightarrow> u32 \<Rightarrow> u16 \<Rightarrow> u16" where
  "bootLzma_file_size f p_lzma_file_size_addr n_file =
     le16 (map (\<lambda>i. xip_byte f (p_lzma_file_size_addr + ucast n_file * 2 + of_nat i)) [0..<2])"

definition bootLzma_output_size :: "memory \<Rightarrow> u32 \<Rightarrow> u32" where
  "bootLzma_output_size f p =
     le32 [xip_byte f (p + 5), xip_byte f (p + 6), xip_byte f (p + 7), xip_byte f (p + 8)]"

function bootLzma_decompress_files ::
  "lzma_dec \<Rightarrow> flash_tx \<Rightarrow> flash_er \<Rightarrow> u32 \<Rightarrow> u32 \<Rightarrow> u32 \<Rightarrow> u16 \<Rightarrow> bool \<Rightarrow> u16 \<Rightarrow> BootLzma \<Rightarrow>
   (bool \<times> BootLzma) option" where
  "bootLzma_decompress_files LzmaDecode FLASH_TxData FLASH_Erase sizes p write_addr totalFiles
     isWriteNeeded n_file s =
     (if \<not> n_file < totalFiles then Some (True, s)
      else if totalFiles div 4 = 0 then None
      else
        let f = bl_flash s;
            curr_lzmaFileSize = bootLzma_file_size f sizes n_file
        in if xip_byte f (p + 13) = 0 \<and> xip_byte f p = 93 then
             let outputFileSize = bootLzma_output_size f p;
                 srcLen = ucast curr_lzmaFileSize - 5 - 8;
                 src = map (\<lambda>i. xip_byte f (p + 13 + of_nat i)) [0..<unat (srcLen :: u32)];
                 props = map (\<lambda>i. xip_byte f (p + of_nat i)) [0..<5];
                 (result, out) = LzmaDecode outputFileSize src props
             in if length (output_buf s) < length out then None
                else
                  let s1 = s\<lparr>output_buf := list_blit (output_buf s) 0 out\<rparr>;
                      outputFileSize1 = of_nat (length out)
                  in if result \<noteq> 0 then Some (False, s1)
                     else if isWriteNeeded then
                       do {
                         s2 \<leftarrow> bootLzma_flash_write FLASH_TxData FLASH_Erase write_addr
                                 outputFileSize1 (output_buf s1) s1;
                         bootLzma_decompress_files LzmaDecode FLASH_TxData FLASH_Erase sizes
                           (p + ucast curr_lzmaFileSize) (write_addr + outputFileSize1) totalFiles
                           isWriteNeeded (n_file + 1) s2
                       }
                     else bootLzma_decompress_files LzmaDecode FLASH_TxData FLASH_Erase sizes
                            (p + ucast curr_lzmaFileSize) write_addr totalFiles
                            isWriteNeeded (n_file + 1) s1
           else Some (False, s))"
  by pat_completeness auto

termination
  by (relation "measure (\<lambda>(_, _, _, _, _, _, totalFiles, _, n_file, _). unat totalFiles - unat n_file)")
     (auto simp: unat_next word_less_nat_alt)

declare bootLzma_decompress_files.simps [simp del]

text \<open>The progress messages and the watchdog have no effect on the result.\<close>

definition bootLzma_decompress ::
  "lzma_dec \<Rightarrow> flash_tx \<Rightarrow> flash_er \<Rightarrow> u32 \<Rightarrow> u32 \<Rightarrow> u32 \<Rightarrow> u16 \<Rightarrow> bool \<Rightarrow> BootLzma \<Rightarrow>
   (bool \<times> BootLzma) option" where
  "bootLzma_decompress LzmaDecode FLASH_TxData FLASH_Erase read_addr lzmafile_read_addr write_addr
     totalFiles isWriteNeeded s =
     bootLzma_decompress_files LzmaDecode FLASH_TxData FLASH_Erase (read_addr + 2)
       lzmafile_read_addr write_addr totalFiles isWriteNeeded 0 s"

definition bootLzma_main_function ::
  "lzma_dec \<Rightarrow> flash_tx \<Rightarrow> flash_er \<Rightarrow> u32 \<Rightarrow> u32 \<Rightarrow> u32 \<Rightarrow> BootLzma \<Rightarrow> (bool \<times> BootLzma) option" where
  "bootLzma_main_function LzmaDecode FLASH_TxData FLASH_Erase read_addr write_addr_st write_addr_end s =
     (let write_allowed_size = write_addr_end - write_addr_st;
          st = write_addr_st - SPI_FLASH_BASE;
          totalFiles = le16 (map (\<lambda>i. xip_byte (bl_flash s) (read_addr + of_nat i)) [0..<2]);
          lzmafile_read_addr = read_addr + (2 + ucast totalFiles * 2)
      in if ucast totalFiles * BOOTLZMA_DECOMP_FILE_SIZE \<le> write_allowed_size then
           bootLzma_decompress LzmaDecode FLASH_TxData FLASH_Erase read_addr lzmafile_read_addr st
             totalFiles True
             (bootLzma_flash_range_erase st (ucast totalFiles * BOOTLZMA_DECOMP_FILE_SIZE) s)
         else Some (True, s))"

section \<open>Writing is exact\<close>

text \<open>What the block that was erased last promises for the bytes from \<open>a\<close> on.\<close>

definition block_ready :: "nat \<Rightarrow> BootLzma \<Rightarrow> bool" where
  "block_ready a s \<longleftrightarrow> g_curr_block_addr s = 0xFFFFFFFF \<or>
     unat (g_curr_block_addr s) mod 4096 = 0 \<and>
     (\<forall>x. unat (g_curr_block_addr s) \<le> unat x \<and> unat x < unat (g_curr_block_addr s) + 65536 \<and>
        a \<le> unat x \<longrightarrow> bl_flash s x = 0xFF)"

lemma block_ready_mono: "block_ready a s \<Longrightarrow> a \<le> b \<Longrightarrow> block_ready b s"
  unfolding block_ready_def by (meson order_trans)

lemma bootLzma_flash_write_stream_eq:
  "len \<noteq> 0 \<Longrightarrow> FLASH_WriteStream tx address len (0, bs) f =
     Some (1, bootLzma_flash_write_stream tx address len bs f)"
  by (simp add: FLASH_WriteStream_def bootLzma_flash_write_stream_def IS_FLASH_ADDR_def Let_def)

lemma flash_wipe_nat:
  "unat a + n \<le> 4294967296 \<Longrightarrow>
     flash_wipe f a n x = (if unat a \<le> unat x \<and> unat x < unat a + n then 0xFF else f x)"
  by (simp add: flash_wipe_def unat_diff_less)

lemma mem_write_nat:
  "unat a + length bs \<le> 4294967296 \<Longrightarrow>
     mem_write f a bs x =
       (if unat a \<le> unat x \<and> unat x < unat a + length bs then bs ! (unat x - unat a) else f x)"
  by (simp add: mem_write_def unat_diff_less unat_sub_no_wrap Let_def)

text \<open>The bytes \<open>bs\<close> stand at \<open>lo\<close>; nothing before \<open>lo\<close> and nothing from \<open>hi\<close> on has changed.\<close>

definition wrote :: "nat \<Rightarrow> u8 list \<Rightarrow> nat \<Rightarrow> memory \<Rightarrow> memory \<Rightarrow> bool" where
  "wrote lo bs hi f f' \<longleftrightarrow>
     (\<forall>x. (unat x < lo \<or> hi \<le> unat x \<longrightarrow> f' x = f x) \<and>
       (lo \<le> unat x \<and> unat x < lo + length bs \<longrightarrow> f' x = bs ! (unat x - lo)))"

lemma wrote_Nil [simp]: "wrote lo [] hi f f"
  by (auto simp: wrote_def)

lemma wrote_append:
  assumes "wrote lo bs hi f f'" and "wrote (lo + length bs) cs hi f' f''"
  shows "wrote lo (bs @ cs) hi f f''"
  unfolding wrote_def
proof (intro allI conjI impI, goal_cases)
  case (1 x)
  with assms show ?case unfolding wrote_def by (metis trans_less_add1)
next
  case (2 x)
  then show ?case
    using assms unfolding wrote_def
    by (cases "unat x < lo + length bs") (auto simp: nth_append)
qed

lemma wrote_mem_write:
  assumes "unat a + length bs \<le> 4294967296" and "unat a + length bs \<le> hi"
    and "\<And>x. unat x < unat a \<or> hi \<le> unat x \<Longrightarrow> f1 x = f x"
  shows "wrote (unat a) bs hi f (mem_write f1 a bs)"
  using assms by (auto simp: wrote_def mem_write_nat)

lemma wrote_same:
  assumes "bs = mem_read f a (length bs)" and "unat a + length bs \<le> 4294967296"
  shows "wrote (unat a) bs hi f f"
proof -
  have "f x = bs ! (unat x - unat a)" if "unat a \<le> unat x" "unat x < unat a + length bs" for x
  proof -
    have "mem_read f a (length bs) ! (unat x - unat a) = f (a + of_nat (unat x - unat a))"
      using that by (intro nth_mem_read) linarith
    with assms(1) that show ?thesis by (simp add: of_nat_unat_diff)
  qed
  then show ?thesis by (simp add: wrote_def)
qed

lemma wrote_read:
  assumes "wrote (unat a) bs hi f f'" and "unat a + length bs \<le> 4294967296"
  shows "mem_read f' a (length bs) = bs"
proof (rule nth_equalityI)
  fix i assume "i < length (mem_read f' a (length bs))"
  then have i: "i < length bs" by simp
  then have "unat (a + of_nat i) = unat a + i"
    using assms(2) by (intro unat_add_of_nat_no_wrap) linarith
  with assms(1) i show "mem_read f' a (length bs) ! i = bs ! i"
    by (simp add: wrote_def)
qed simp

text \<open>The end of the last sector of a range that ends at \<open>e\<close>.\<close>

abbreviation sectors_end :: "nat \<Rightarrow> nat" where
  "sectors_end e \<equiv> (e + 4095) div 4096 * 4096"

lemma sectors_end_le: "x mod 4096 = 0 \<Longrightarrow> e \<le> x \<Longrightarrow> sectors_end e \<le> x"
  using div_le_mono [of "e + 4095" "x + 4095" 4096] by (auto elim!: dvdE simp: mod_eq_0_iff_dvd)

lemma sectors_end_gt: "x mod 4096 = 0 \<Longrightarrow> x < e \<Longrightarrow> x + 4096 \<le> sectors_end e"
  using div_le_mono [of "x + 4096" "e + 4095" 4096] by (auto elim!: dvdE simp: mod_eq_0_iff_dvd)

lemma sectors_end_aligned: "x mod 4096 = 0 \<Longrightarrow> sectors_end x = x"
  by (auto elim!: dvdE simp: mod_eq_0_iff_dvd)

lemma sectors_end_ge: "e \<le> sectors_end e"
  using div_mult_mod_eq [of "e + 4095" 4096] mod_less_divisor [of 4096 "e + 4095"] by linarith

context nor_flash
begin

lemma lzma_stream:
  assumes "len \<noteq> 0" and "unat address + unat len \<le> fsize" and "unat len = length bs"
    and "erased f address (unat len)"
  shows "bootLzma_flash_write_stream tx address len bs f = mem_write f address bs"
  using WriteStream [OF assms(1,2), of 0 bs f] assms(3,4)
    bootLzma_flash_write_stream_eq [OF assms(1), of tx address bs f]
  by (simp add: IS_FLASH_ADDR_def flash_prog_erased)

lemma lzma_make_room:
  assumes al: "unat a mod 4096 = 0" and a: "unat a < fsize" and r: "block_ready (unat a) s"
    and g: "unat (g_last_block_addr s) mod 65536 = 0"
    and hi: "unat a + 4096 \<le> hi" "unat (g_last_block_addr s) \<le> hi"
  defines "s' \<equiv> bootLzma_make_room er a s"
  shows "\<forall>x. unat a \<le> unat x \<and> unat x < unat a + 4096 \<longrightarrow> bl_flash s' x = 0xFF"
    and "\<forall>x. unat x < unat a \<or> hi \<le> unat x \<longrightarrow> bl_flash s' x = bl_flash s x"
    and "block_ready (unat a) s'"
proof -
  have lim: "unat a + 65536 \<le> 4294967296" using a fsize by simp
  have sec: "a AND NOT 0xFFF = a"
    unfolding word_unat_eq_iff unat_align using div_mult_mod_eq [of "unat a" 4096] al by linarith
  consider (block) "a = a AND NOT 0xFFFF" "a < g_last_block_addr s"
    | (ready) "\<not> (a = a AND NOT 0xFFFF \<and> a < g_last_block_addr s)" "g_curr_block_addr s < a"
        "a < g_curr_block_addr s + 0x10000"
    | (sector) "\<not> (a = a AND NOT 0xFFFF \<and> a < g_last_block_addr s)"
        "\<not> (g_curr_block_addr s < a \<and> a < g_curr_block_addr s + 0x10000)"
    by blast
  then have "(\<forall>x. unat a \<le> unat x \<and> unat x < unat a + 4096 \<longrightarrow> bl_flash s' x = 0xFF) \<and>
    (\<forall>x. unat x < unat a \<or> hi \<le> unat x \<longrightarrow> bl_flash s' x = bl_flash s x) \<and>
    block_ready (unat a) s'"
  proof cases
    case block
    have "unat a div 65536 * 65536 = unat a"
      using block(1) by (metis unat_align(3))
    then have "unat a mod 65536 = 0" by (metis mod_mult_self2_is_0)
    then have "unat a + 65536 \<le> unat (g_last_block_addr s)"
      using block(2) g unfolding word_less_nat_alt by (intro mod_step)
    moreover have "s' = s\<lparr>bl_flash := flash_wipe (bl_flash s) a 65536, g_curr_block_addr := a\<rparr>"
      unfolding s'_def bootLzma_make_room_def er_block [OF a] block(1) [symmetric]
      using block(2) by (simp only: if_True simp_thms)
    ultimately show ?thesis
      using lim hi(2) al by (simp add: flash_wipe_nat block_ready_def)
  next
    case ready
    have le: "unat (g_curr_block_addr s + 0x10000) \<le> unat (g_curr_block_addr s) + 65536"
      by (simp add: unat_word_ariths)
    have c: "unat (g_curr_block_addr s) < unat a" "unat a < unat (g_curr_block_addr s) + 65536"
      using ready(2,3) le
      by (simp_all add: word_less_nat_alt)
    then have "g_curr_block_addr s \<noteq> 0xFFFFFFFF"
      using lim by auto
    with r have m: "unat (g_curr_block_addr s) mod 4096 = 0"
      and ff: "\<And>x. unat (g_curr_block_addr s) \<le> unat x \<Longrightarrow> unat x < unat (g_curr_block_addr s) + 65536 \<Longrightarrow>
        unat a \<le> unat x \<Longrightarrow> bl_flash s x = 0xFF"
      by (simp_all add: block_ready_def)
    have "unat a + 4096 \<le> unat (g_curr_block_addr s) + 65536"
      using mod_step [OF al _ c(2)] m by (simp add: mod_add_eq [symmetric])
    moreover have "s' = s"
      using ready by (auto simp: s'_def bootLzma_make_room_def)
    ultimately show ?thesis using ff c(1) r by simp
  next
    case sector
    have "s' = s\<lparr>bl_flash := flash_wipe (bl_flash s) a 4096\<rparr>"
      unfolding s'_def bootLzma_make_room_def er_sector [OF a] sec using sector
      by (simp only: if_False)
    then show ?thesis
      using lim hi r by (auto simp: flash_wipe_nat block_ready_def)
  qed
  then show "\<forall>x. unat a \<le> unat x \<and> unat x < unat a + 4096 \<longrightarrow> bl_flash s' x = 0xFF"
    and "\<forall>x. unat x < unat a \<or> hi \<le> unat x \<longrightarrow> bl_flash s' x = bl_flash s x"
    and "block_ready (unat a) s'" by blast+
qed

lemma lzma_write_sector:
  assumes al: "unat a mod 4096 = 0" and fs: "unat a + length bs \<le> fsize" and r: "block_ready (unat a) s"
    and g: "unat (g_last_block_addr s) mod 65536 = 0"
    and hi: "unat a + 4096 \<le> hi" "unat (g_last_block_addr s) \<le> hi"
    and bs: "bs \<noteq> []" "length bs \<le> 4096" "unat len = length bs"
  defines "s' \<equiv> bootLzma_write_sector tx er a len bs s"
  shows "wrote (unat a) bs hi (bl_flash s) (bl_flash s')" and "block_ready (unat a + 4096) s'"
    and "g_last_block_addr s' = g_last_block_addr s" and "output_buf s' = output_buf s"
proof -
  have lim: "unat a + length bs \<le> 4294967296" using fs fsize by linarith
  have a: "unat a < fsize" using fs bs(1) by (cases bs) auto
  define s1 where "s1 = bootLzma_make_room er a s"
  note room = lzma_make_room [OF al a r g hi, folded s1_def]
  have er: "erased (bl_flash s1) a (unat len)"
    using room(1) lim bs by (intro erasedI) (auto simp: unat_diff_less)
  have ne: "len \<noteq> 0" using bs by auto
  have upd: "bootLzma_flash_write_stream tx a len bs (bl_flash s1) = mem_write (bl_flash s1) a bs"
    using fs bs(3) by (intro lzma_stream [OF ne _ bs(3) er]) simp
  have s': "s' = (if bs = mem_read (bl_flash s) a (length bs) then s
      else s1\<lparr>bl_flash := mem_write (bl_flash s1) a bs\<rparr>)"
    unfolding s'_def bootLzma_write_sector_def Let_def s1_def [symmetric] upd bs(3) ..
  show "g_last_block_addr s' = g_last_block_addr s" "output_buf s' = output_buf s"
    by (simp_all add: s' s1_def bootLzma_make_room_def)
  show "wrote (unat a) bs hi (bl_flash s) (bl_flash s')"
  proof (cases "bs = mem_read (bl_flash s) a (length bs)")
    case True
    then show ?thesis using wrote_same [OF True lim] by (simp add: s')
  next
    case False
    then have "bl_flash s' = mem_write (bl_flash s1) a bs" by (simp add: s')
    moreover have "wrote (unat a) bs hi (bl_flash s) (mem_write (bl_flash s1) a bs)"
      using room(2) bs(2) hi(1) by (intro wrote_mem_write [OF lim]) auto
    ultimately show ?thesis by simp
  qed
  have "block_ready (unat a + 4096) (s1\<lparr>bl_flash := mem_write (bl_flash s1) a bs\<rparr>)"
    using room(3) lim bs(2) by (auto simp: block_ready_def mem_write_nat)
  then show "block_ready (unat a + 4096) s'"
    using block_ready_mono [OF r] by (auto simp: s')
qed

lemma lzma_write_sectors:
  assumes "unat w \<le> unat a" and "unat a mod 4096 = 0" and "unat e \<le> fsize"
    and "unat e - unat w \<le> length d" and "block_ready (unat a) s"
    and "unat (g_last_block_addr s) mod 65536 = 0"
    and "sectors_end (unat e) \<le> hi" "unat (g_last_block_addr s) \<le> hi"
  shows "\<exists>s'. bootLzma_flash_write_sectors tx er w d e a s = Some s' \<and>
    wrote (unat a) (take (unat e - unat a) (drop (unat a - unat w) d)) hi (bl_flash s) (bl_flash s') \<and>
    block_ready (max (unat a) (sectors_end (unat e))) s' \<and>
    g_last_block_addr s' = g_last_block_addr s \<and> output_buf s' = output_buf s"
  using assms
proof (induction "unat e - unat a" arbitrary: a s rule: less_induct)
  case less
  show ?case
  proof (cases "a < e")
    case False
    then have le: "unat e \<le> unat a" by (simp add: word_le_nat_alt not_less)
    with False less.prems(5) sectors_end_le [OF less.prems(2) le] show ?thesis
      by (subst bootLzma_flash_write_sectors.simps) (simp add: max_absorb1)
  next
    case True
    then have lt: "unat a < unat e" by (simp add: word_less_nat_alt)
    define c where "c = (if 0x1000 \<le> e - a then 0x1000 else e - a)"
    define b where "b = take (unat c) (drop (unat (a - w)) d)"
    define s1 where "s1 = bootLzma_write_sector tx er a c b s"
    have ua: "unat (a + 0x1000) = unat a + 4096"
      using lt less.prems(3) fsize by (subst unat_add_no_wrap) auto
    have aw: "unat (a - w) = unat a - unat w" using less.prems(1) by (rule unat_sub_no_wrap)
    have c: "unat c = min 4096 (unat e - unat a)"
      using lt by (simp add: c_def word_le_nat_alt unat_sub_no_wrap)
    then have lb: "length b = unat c"
      using less.prems(1,4) lt by (simp add: b_def aw)
    have up: "unat a + 4096 \<le> sectors_end (unat e)" by (rule sectors_end_gt [OF less.prems(2) lt])
    have step: "bootLzma_flash_write_sectors tx er w d e a s =
        bootLzma_flash_write_sectors tx er w d e (a + 0x1000) s1"
      using True lb by (subst bootLzma_flash_write_sectors.simps)
        (simp add: Let_def s1_def del: length_take flip: c_def b_def)
    have "b \<noteq> []" using lb c lt by auto
    note sec = lzma_write_sector [OF less.prems(2) _ less.prems(5,6) _ less.prems(8) this _ lb [symmetric],
        folded s1_def]
    have s1: "wrote (unat a) b hi (bl_flash s) (bl_flash s1)" "block_ready (unat a + 4096) s1"
      "g_last_block_addr s1 = g_last_block_addr s" "output_buf s1 = output_buf s"
      using lb c lt less.prems(3,7) up by (auto intro!: sec)
    have "unat e - (unat a + 4096) < unat e - unat a" using lt by linarith
    then obtain s' where s': "bootLzma_flash_write_sectors tx er w d e (a + 0x1000) s1 = Some s'"
      "wrote (unat a + 4096) (take (unat e - (unat a + 4096)) (drop (unat a + 4096 - unat w) d)) hi
         (bl_flash s1) (bl_flash s')"
      "block_ready (max (unat a + 4096) (sectors_end (unat e))) s'"
      "g_last_block_addr s' = g_last_block_addr s1 \<and> output_buf s' = output_buf s1"
      using less.hyps [of "a + 0x1000" s1] less.prems lt s1 by (auto simp: ua)
    have "wrote (unat a) (take (unat e - unat a) (drop (unat a - unat w) d)) hi
        (bl_flash s) (bl_flash s')"
    proof (cases "4096 \<le> unat e - unat a")
      case True
      then have "take (unat e - unat a) (drop (unat a - unat w) d) =
          b @ take (unat e - (unat a + 4096)) (drop (unat a + 4096 - unat w) d)"
        using less.prems(1) take_add [of 4096 "unat e - (unat a + 4096)" "drop (unat a - unat w) d"]
        by (simp add: b_def aw c add.commute)
      with wrote_append [OF s1(1)] s'(2) lb c True show ?thesis by (simp add: min_absorb1)
    next
      case False
      then have "\<not> a + 0x1000 < e" using ua by (simp add: word_less_nat_alt)
      then have "s' = s1" using s'(1) by (subst (asm) bootLzma_flash_write_sectors.simps) simp
      with s1(1) False show ?thesis by (simp add: b_def aw c min_absorb2)
    qed
    with step s' s1 up show ?thesis by (simp add: max_absorb2)
  qed
qed

lemma lzma_flash_write:
  assumes "unat w mod 4096 = 0" and "unat w + length d \<le> fsize" and "unat len = length d"
    and "block_ready (unat w) s" and "unat (g_last_block_addr s) mod 65536 = 0"
    and "sectors_end (unat w + length d) \<le> hi" "unat (g_last_block_addr s) \<le> hi"
  shows "\<exists>s'. bootLzma_flash_write tx er w len (d @ ds) s = Some s' \<and>
    wrote (unat w) d hi (bl_flash s) (bl_flash s') \<and>
    block_ready (sectors_end (unat w + length d)) s' \<and>
    g_last_block_addr s' = g_last_block_addr s \<and> output_buf s' = output_buf s"
proof -
  have e: "unat (w + len) = unat w + length d"
    using assms(2,3) fsize by (subst unat_add_no_wrap) auto
  have al: "w AND NOT 0xFFF = w"
    unfolding word_unat_eq_iff unat_align using div_mult_mod_eq [of "unat w" 4096] assms(1) by linarith
  have "max (unat w) (sectors_end (unat w + length d)) = sectors_end (unat w + length d)"
    using sectors_end_ge [of "unat w + length d"] by simp
  then show ?thesis
    using lzma_write_sectors [of w w "w + len" "d @ ds" s hi] assms al
    by (simp add: bootLzma_flash_write_def e)
qed

end

section \<open>The container\<close>

text \<open>A file of the container and the bytes it stands for.\<close>

definition lzma_piece :: "lzma_dec \<Rightarrow> u8 list \<Rightarrow> u8 list \<Rightarrow> bool" where
  "lzma_piece LzmaDecode file plain \<longleftrightarrow>
     14 \<le> length file \<and> length file < 65536 \<and> file ! 0 = 93 \<and> file ! 13 = 0 \<and>
     LzmaDecode (le32 (take 4 (drop 5 file))) (drop 13 file) (take 5 file) = (0, plain)"

definition lzma_container :: "u8 list list \<Rightarrow> u8 list" where
  "lzma_container files =
     le16_bytes (of_nat (length files)) @ concat (map (\<lambda>f. le16_bytes (of_nat (length f))) files) @
     concat files"

lemma xip_read: "map (\<lambda>i. xip_byte f (SPI_FLASH_BASE + a + of_nat i)) [0..<n] = mem_read f a n"
  by (simp add: mem_read_def xip_byte_def)

lemma mem_read_sub:
  assumes "mem_read f c (length bs) = bs" and "i + n \<le> length bs"
  shows "mem_read f (c + of_nat i) n = take n (drop i bs)"
proof -
  have "take n (drop i (mem_read f c (length bs))) = mem_read f (c + of_nat i) n"
    using assms(2) by (simp add: drop_mem_read min_absorb1)
  with assms(1) show ?thesis by simp
qed

lemma le32_list: "le32 [bs ! 0, bs ! 1, bs ! 2, bs ! 3] = le32 bs"
  by (simp add: le32_def)

lemma lzma_file_read:
  assumes f: "mem_read f a (length fl) = fl" and p: "lzma_piece dec fl pl"
  shows "xip_byte f (SPI_FLASH_BASE + a + 13) = 0" and "xip_byte f (SPI_FLASH_BASE + a) = 93"
    and "dec (bootLzma_output_size f (SPI_FLASH_BASE + a))
      (map (\<lambda>i. xip_byte f (SPI_FLASH_BASE + a + 13 + of_nat i))
        [0..<unat (ucast (of_nat (length fl) :: u16) - 5 - 8 :: u32)])
      (map (\<lambda>i. xip_byte f (SPI_FLASH_BASE + a + of_nat i)) [0..<5]) = (0, pl)"
proof -
  have l: "14 \<le> length fl" "length fl < 65536" using p by (simp_all add: lzma_piece_def)
  have at: "f (a + of_nat i) = fl ! i" if "i < length fl" for i
    using nth_mem_read [OF that, of f a] f by simp
  show "xip_byte f (SPI_FLASH_BASE + a + 13) = 0" "xip_byte f (SPI_FLASH_BASE + a) = 93"
    using at [of 13] at [of 0] l p less_le_trans [of 0 14 "length fl"]
    by (auto simp: xip_byte_def lzma_piece_def add.commute)
  have "unat (ucast (of_nat (length fl) :: u16) - 5 - 8 :: u32) = length fl - 13"
    using l by (simp add: unat_sub_no_wrap unat_of_nat)
  moreover have "mem_read f (a + 13) (length fl - 13) = drop 13 fl"
    using mem_read_sub [OF f, of 13 "length fl - 13"] l by simp
  moreover have "mem_read f a 5 = take 5 fl"
    using mem_read_sub [OF f, of 0 5] l by simp
  moreover have "bootLzma_output_size f (SPI_FLASH_BASE + a) = le32 (take 4 (drop 5 fl))"
    using at [of 5] at [of 6] at [of 7] at [of 8] l
    by (simp add: bootLzma_output_size_def xip_byte_def add.commute add.left_commute le32_def)
  ultimately show "dec (bootLzma_output_size f (SPI_FLASH_BASE + a))
      (map (\<lambda>i. xip_byte f (SPI_FLASH_BASE + a + 13 + of_nat i))
        [0..<unat (ucast (of_nat (length fl) :: u16) - 5 - 8 :: u32)])
      (map (\<lambda>i. xip_byte f (SPI_FLASH_BASE + a + of_nat i)) [0..<5]) = (0, pl)"
    using p xip_read [of f "a + 13"] xip_read [of f a]
    by (simp add: lzma_piece_def add.assoc [symmetric])
qed

text \<open>Where the container keeps the size of a file and the file.\<close>

lemma take_drop_concat:
  "k < length xss \<Longrightarrow>
     take (length (xss ! k)) (drop (length (concat (take k xss))) (concat xss)) = xss ! k"
proof (induction xss arbitrary: k)
  case (Cons xs xss)
  then show ?case by (cases k) auto
qed simp

lemma concat_take_sizes:
  "k \<le> length fs \<Longrightarrow> length (concat (take k (map (\<lambda>f. le16_bytes (g f)) fs))) = 2 * k"
  by (induction fs arbitrary: k) (auto simp: take_Cons split: nat.splits)

lemma concat_length_Suc:
  "k < length xss \<Longrightarrow> length (concat (take (Suc k) xss)) = length (concat (take k xss)) + length (xss ! k)"
  by (simp add: take_Suc_conv_app_nth)

lemma concat_take_le: "length (concat (take k xss)) \<le> length (concat xss)"
  by (metis append_take_drop_id concat_append le_add1 length_append)

lemma container_size:
  assumes "mem_read f c (length (lzma_container fs)) = lzma_container fs" and "k < length fs"
  shows "mem_read f (c + of_nat (2 + 2 * k)) 2 = le16_bytes (of_nat (length (fs ! k)))"
proof -
  let ?ss = "map (\<lambda>f. le16_bytes (of_nat (length f))) fs"
  have l: "length (concat ?ss) = 2 * length fs"
    using concat_take_sizes [of "length fs" fs] by simp
  have "take 2 (drop (2 * k) (concat ?ss)) = le16_bytes (of_nat (length (fs ! k)))"
    using take_drop_concat [of k ?ss] assms(2) concat_take_sizes [of k fs] by simp
  moreover have "take 2 (drop (2 + 2 * k) (lzma_container fs)) = take 2 (drop (2 * k) (concat ?ss))"
    using assms(2) l by (simp add: lzma_container_def)
  ultimately show ?thesis
    using mem_read_sub [OF assms(1), of "2 + 2 * k" 2] assms(2) l by (simp add: lzma_container_def)
qed

lemma container_file:
  assumes "mem_read f c (length (lzma_container fs)) = lzma_container fs" and "k < length fs"
  shows "mem_read f (c + of_nat (2 + 2 * length fs + length (concat (take k fs)))) (length (fs ! k)) = fs ! k"
proof -
  let ?ss = "map (\<lambda>f. le16_bytes (of_nat (length f))) fs" and ?i = "length (concat (take k fs))"
  have l: "length (concat ?ss) = 2 * length fs"
    using concat_take_sizes [of "length fs" fs] by simp
  have "?i + length (fs ! k) \<le> length (concat fs)"
    using concat_take_le [of "Suc k" fs] concat_length_Suc [OF assms(2)] by simp
  then show ?thesis
    using mem_read_sub [OF assms(1), of "2 + 2 * length fs + ?i" "length (fs ! k)"] l
      take_drop_concat [OF assms(2)]
    by (simp add: lzma_container_def)
qed

lemma prefix_aligned:
  assumes "\<forall>p \<in> set (butlast ps). length p mod 4096 = 0" and "k < length ps"
  shows "length (concat (take k ps)) mod 4096 = 0"
  using assms(2)
proof (induction k)
  case (Suc k)
  then have "ps ! k \<in> set (butlast ps)"
    by (metis Suc_lessD Suc_lessE butlast_conv_take diff_Suc_1 length_butlast nth_butlast nth_mem not_less_eq Suc_less_eq)
  with Suc assms(1) show ?case
    by (simp add: concat_length_Suc mod_add_eq [symmetric, of _ "length (ps ! k)"])
qed simp

lemma prefix_bound: "\<forall>p \<in> set ps. length p \<le> m \<Longrightarrow> length (concat (take k ps)) \<le> length ps * m"
proof (induction ps arbitrary: k)
  case (Cons p ps)
  then show ?case by (cases k) (auto simp: add_mono)
qed simp

lemma container_kept:
  assumes "mem_read f c n = bs" and "wrote lo b hi f f'" and "unat c + n \<le> 4294967296"
    and "unat c + n \<le> lo \<or> hi \<le> unat c"
  shows "mem_read f' c n = bs"
proof -
  have "f' (c + of_nat i) = f (c + of_nat i)" if "i < n" for i
    using assms(2-4) that unat_add_of_nat_no_wrap [of c i] unfolding wrote_def by auto
  with assms(1) show ?thesis by (auto simp: mem_read_def)
qed

lemma container_file_size:
  assumes "mem_read f c (length (lzma_container fs)) = lzma_container fs" and "k < length fs"
    and "length fs < 65536"
  shows "bootLzma_file_size f (SPI_FLASH_BASE + (c + 2)) (of_nat k) = of_nat (length (fs ! k))"
proof -
  have "ucast (of_nat k :: u16) = (of_nat k :: u32)"
    using assms(2,3) by (simp add: word_unat_eq_iff unat_of_nat)
  then have "map (\<lambda>i. xip_byte f (SPI_FLASH_BASE + (c + 2) + ucast (of_nat k :: u16) * 2 + of_nat i)) [0..<2] =
      mem_read f (c + of_nat (2 + 2 * k)) 2"
    using xip_read [of f "c + of_nat (2 + 2 * k)" 2] by (simp add: algebra_simps)
  then show ?thesis
    using le16_roundtrip [of "of_nat (length (fs ! k))" "[]"]
    unfolding bootLzma_file_size_def container_size [OF assms(1,2)] by simp
qed

lemma block_ready_output [simp]: "block_ready a (s\<lparr>output_buf := b\<rparr>) = block_ready a s"
  by (simp add: block_ready_def)

text \<open>One file: it is decoded into the buffer and written, and the loop goes on behind it.\<close>

lemma decompress_step:
  assumes "lzma_piece dec fl pl" and "mem_read (bl_flash s) a (length fl) = fl" and "n_file < tot"
    and "4 \<le> unat tot" and "bootLzma_file_size (bl_flash s) sizes n_file = of_nat (length fl)"
    and "length pl \<le> length (output_buf s)"
  shows "bootLzma_decompress_files dec tx er sizes (SPI_FLASH_BASE + a) w tot True n_file s =
    do { s2 \<leftarrow> bootLzma_flash_write tx er w (of_nat (length pl)) (pl @ drop (length pl) (output_buf s))
                 (s\<lparr>output_buf := pl @ drop (length pl) (output_buf s)\<rparr>);
         bootLzma_decompress_files dec tx er sizes (SPI_FLASH_BASE + (a + of_nat (length fl)))
           (w + of_nat (length pl)) tot True (n_file + 1) s2 }"
proof -
  have "ucast (of_nat (length fl) :: u16) = (of_nat (length fl) :: u32)"
    using assms(1) by (simp add: word_unat_eq_iff unat_of_nat lzma_piece_def)
  moreover have "tot div 4 \<noteq> 0"
    using assms(4) by (simp add: word_unat_eq_iff unat_div)
  ultimately show ?thesis
    using assms(3,5,6) lzma_file_read [OF assms(2,1)]
    by (subst bootLzma_decompress_files.simps)
      (simp add: Let_def list_blit_def add.assoc del: unat_sub_no_wrap)
qed

context nor_flash
begin

lemma lzma_files:
  assumes pieces: "list_all2 (lzma_piece dec) fs ps" and n: "4 \<le> length fs" "length fs < 65536"
    and sz: "\<forall>p \<in> set ps. length p \<le> 16384" and al: "\<forall>p \<in> set (butlast ps). length p mod 4096 = 0"
    and st: "unat st mod 4096 = 0" "unat st + length fs * 16384 \<le> hi" "hi \<le> fsize" "hi mod 4096 = 0"
    and c: "unat c + length (lzma_container fs) \<le> fsize"
      "unat c + length (lzma_container fs) \<le> unat st \<or> hi \<le> unat c"
    and k: "k \<le> length fs"
    and s: "mem_read (bl_flash s) c (length (lzma_container fs)) = lzma_container fs"
      "16384 \<le> length (output_buf s)" "k < length fs \<Longrightarrow> block_ready (unat st + length (concat (take k ps))) s"
      "unat (g_last_block_addr s) mod 65536 = 0" "unat (g_last_block_addr s) \<le> hi"
  shows "\<exists>s'. bootLzma_decompress_files dec tx er (SPI_FLASH_BASE + (c + 2))
      (SPI_FLASH_BASE + (c + of_nat (2 + 2 * length fs + length (concat (take k fs)))))
      (st + of_nat (length (concat (take k ps)))) (of_nat (length fs)) True (of_nat k) s =
        Some (True, s') \<and>
    wrote (unat st + length (concat (take k ps))) (concat (drop k ps)) hi (bl_flash s) (bl_flash s')"
  using k s
proof (induction "length fs - k" arbitrary: k s)
  case 0
  then show ?case
    using list_all2_lengthD [OF pieces] by (subst bootLzma_decompress_files.simps) simp
next
  case (Suc d)
  let ?L = "length (concat (take k ps))" and ?pl = "ps ! k" and ?fl = "fs ! k"
  have lp: "length ps = length fs" using list_all2_lengthD [OF pieces] by simp
  have k: "k < length fs" using Suc.hyps(2) by simp
  have L: "length (concat (take (Suc k) ps)) = ?L + length ?pl"
    using k lp by (intro concat_length_Suc) simp
  then have bound: "unat st + (?L + length ?pl) \<le> hi"
    using prefix_bound [OF sz, of "Suc k"] st(2) lp by simp
  have w: "unat (st + of_nat ?L) = unat st + ?L"
    using bound st(3) fsize by (intro unat_add_of_nat_no_wrap) linarith
  have wal: "unat (st + of_nat ?L) mod 4096 = 0"
    using prefix_aligned [OF al, of k] k lp st(1) by (simp add: w mod_add_eq [symmetric, of _ ?L])
  have pl: "length ?pl \<le> 16384" using sz k lp by simp
  define s1 where "s1 = s\<lparr>output_buf := ?pl @ drop (length ?pl) (output_buf s)\<rparr>"
  have "sectors_end (unat st + ?L + length ?pl) \<le> hi"
    using bound st(4) by (intro sectors_end_le) simp_all
  then have "\<exists>s2. bootLzma_flash_write tx er (st + of_nat ?L) (of_nat (length ?pl))
      (?pl @ drop (length ?pl) (output_buf s)) s1 = Some s2 \<and>
    wrote (unat (st + of_nat ?L)) ?pl hi (bl_flash s1) (bl_flash s2) \<and>
    block_ready (sectors_end (unat (st + of_nat ?L) + length ?pl)) s2 \<and>
    g_last_block_addr s2 = g_last_block_addr s1 \<and> output_buf s2 = output_buf s1"
    using Suc.prems k bound st(3) pl by (intro lzma_flash_write [OF wal]) (simp_all add: w s1_def)
  then obtain s2 where s2: "bootLzma_flash_write tx er (st + of_nat ?L) (of_nat (length ?pl))
      (?pl @ drop (length ?pl) (output_buf s)) s1 = Some s2"
    "wrote (unat st + ?L) ?pl hi (bl_flash s) (bl_flash s2)"
    "block_ready (sectors_end (unat st + ?L + length ?pl)) s2"
    "g_last_block_addr s2 = g_last_block_addr s" "length (output_buf s2) = length (output_buf s)"
    using Suc.prems(3) pl by (auto simp: w s1_def)
  have r2: "block_ready (unat st + length (concat (take (Suc k) ps))) s2" if "Suc k < length fs"
  proof -
    have "length (concat (take (Suc k) ps)) mod 4096 = 0"
      using prefix_aligned [OF al, of "Suc k"] that lp by simp
    then have "sectors_end (unat st + ?L + length ?pl) = unat st + length (concat (take (Suc k) ps))"
      using st(1) L sectors_end_aligned [of "unat st + length (concat (take (Suc k) ps))"]
      by (simp add: add.assoc mod_add_eq [symmetric, of "unat st"])
    with s2(3) show ?thesis by simp
  qed
  have c2: "mem_read (bl_flash s2) c (length (lzma_container fs)) = lzma_container fs"
    using container_kept [OF Suc.prems(2) s2(2)] c fsize by auto
  have d: "d = length fs - Suc k" using Suc.hyps(2) by linarith
  obtain s' where s': "bootLzma_decompress_files dec tx er (SPI_FLASH_BASE + (c + 2))
      (SPI_FLASH_BASE + (c + of_nat (2 + 2 * length fs + length (concat (take (Suc k) fs)))))
      (st + of_nat (length (concat (take (Suc k) ps)))) (of_nat (length fs)) True (of_nat (Suc k)) s2 =
        Some (True, s')"
    "wrote (unat st + (?L + length ?pl)) (concat (drop (Suc k) ps)) hi (bl_flash s2) (bl_flash s')"
    using Suc.hyps(1) [OF d, of s2] Suc.prems k c2 r2 s2(4,5) L by auto
  have fl: "length (concat (take (Suc k) fs)) = length (concat (take k fs)) + length ?fl"
    by (rule concat_length_Suc [OF k])
  have dr: "concat (drop k ps) = ?pl @ concat (drop (Suc k) ps)"
    using k lp by (simp add: Cons_nth_drop_Suc [symmetric])
  have piece: "lzma_piece dec ?fl ?pl" using list_all2_nthD [OF pieces k] .
  have lt: "of_nat k < (of_nat (length fs) :: u16)" "4 \<le> unat (of_nat (length fs) :: u16)"
    using k n by (simp_all add: word_less_nat_alt unat_of_nat)
  have nx: "c + of_nat (2 + 2 * length fs + length (concat (take k fs))) + of_nat (length ?fl) =
      c + of_nat (2 + 2 * length fs + length (concat (take (Suc k) fs)))"
    "st + of_nat ?L + of_nat (length ?pl) = st + of_nat (length (concat (take (Suc k) ps)))"
    "of_nat k + 1 = (of_nat (Suc k) :: u16)"
    by (simp_all add: fl L)
  have "length ?pl \<le> length (output_buf s)" using pl Suc.prems(3) by linarith
  note step = decompress_step [OF piece container_file [OF Suc.prems(2) k] lt
      container_file_size [OF Suc.prems(2) k n(2)] this, of tx er "st + of_nat ?L",
      unfolded nx, folded s1_def, unfolded s2(1) bind.bind_lunit s'(1)]
  show ?case
    using step wrote_append [OF s2(2), of "concat (drop (Suc k) ps)"] s'(2)
    unfolding dr add.assoc by blast
qed

lemma lzma_main:
  assumes pieces: "list_all2 (lzma_piece dec) fs ps" and n: "4 \<le> length fs" "length fs < 65536"
    and sz: "\<forall>p \<in> set ps. length p \<le> 16384" and al: "\<forall>p \<in> set (butlast ps). length p mod 4096 = 0"
    and st: "unat st mod 4096 = 0" "unat st + length fs * 16384 \<le> fsize"
      "length fs * 16384 \<le> unat (wend - (SPI_FLASH_BASE + st))"
    and c: "unat c + length (lzma_container fs) \<le> fsize"
      "unat c + length (lzma_container fs) \<le> unat st \<or> unat st + length fs * 16384 \<le> unat c"
    and s: "mem_read (bl_flash s) c (length (lzma_container fs)) = lzma_container fs"
      "16384 \<le> length (output_buf s)" "g_curr_block_addr s = 0xFFFFFFFF"
  shows "\<exists>s'. bootLzma_main_function dec tx er (SPI_FLASH_BASE + c) (SPI_FLASH_BASE + st) wend s =
      Some (True, s') \<and>
    wrote (unat st) (concat ps) (unat st + length fs * 16384) (bl_flash s) (bl_flash s')"
proof -
  let ?n = "of_nat (length fs) :: u16" and ?hi = "unat st + length fs * 16384"
  have "mem_read (bl_flash s) c 2 = le16_bytes ?n"
    using mem_read_sub [OF s(1), of 0 2] by (simp add: lzma_container_def)
  then have tot: "le16 (map (\<lambda>i. xip_byte (bl_flash s) (SPI_FLASH_BASE + c + of_nat i)) [0..<2]) = ?n"
    unfolding xip_read using le16_roundtrip [of ?n "[]"] by simp
  have nn: "unat (ucast ?n * 16384 :: u32) = length fs * 16384"
    using n(2) by (simp add: unat_word_ariths unat_of_nat)
  define s1 where "s1 = bootLzma_flash_range_erase st (ucast ?n * 16384) s"
  have "unat (st + ucast ?n * 16384) = ?hi"
    using st(2) fsize nn by (subst unat_add_no_wrap) auto
  then have "unat (st + ucast ?n * 16384 + 4095) = ?hi + 4095"
    using st(2) fsize by (subst unat_add_no_wrap) auto
  moreover have "sectors_end ?hi = ?hi"
    using st(1) by (intro sectors_end_aligned) (simp add: mod_add_eq [symmetric, of "unat st"])
  ultimately have "unat (g_last_block_addr s1) = ?hi div 65536 * 65536"
    unfolding s1_def bootLzma_flash_range_erase_def Let_def
    by (simp only: BootLzma.simps unat_align add_diff_eq [symmetric]) simp
  moreover have "bl_flash s1 = bl_flash s" "output_buf s1 = output_buf s"
    "g_curr_block_addr s1 = g_curr_block_addr s"
    by (simp_all add: s1_def bootLzma_flash_range_erase_def Let_def)
  ultimately have "\<exists>s'. bootLzma_decompress_files dec tx er (SPI_FLASH_BASE + (c + 2))
      (SPI_FLASH_BASE + (c + of_nat (2 + 2 * length fs + length (concat (take 0 fs)))))
      (st + of_nat (length (concat (take 0 ps)))) ?n True (of_nat 0) s1 = Some (True, s') \<and>
    wrote (unat st + length (concat (take 0 ps))) (concat (drop 0 ps)) ?hi (bl_flash s1) (bl_flash s')"
    using st c s by (intro lzma_files [OF pieces n sz al])
      (simp_all add: block_ready_def mod_add_eq [symmetric, of "unat st"])
  moreover have "ucast ?n * 16384 \<le> wend - (SPI_FLASH_BASE + st)"
    using st(3) nn by (simp add: word_le_nat_alt)
  moreover have "ucast ?n = (of_nat (length fs) :: u32)"
    using n(2) by (simp add: word_unat_eq_iff unat_of_nat)
  ultimately show ?thesis
    using tot \<open>bl_flash s1 = bl_flash s\<close>
    by (simp add: bootLzma_main_function_def bootLzma_decompress_def BOOTLZMA_DECOMP_FILE_SIZE_def Let_def
        s1_def add.assoc algebra_simps)
qed

end

lemma few_files:
  assumes "n_file < tot" and "unat tot < 4"
  shows "bootLzma_decompress_files dec tx er sizes p w tot wr n_file s = None"
proof -
  have "tot div 4 = 0" using assms(2) by (simp add: word_unat_eq_iff unat_div)
  with assms(1) show ?thesis by (subst bootLzma_decompress_files.simps) simp
qed

section \<open>Properties\<close>

text \<open>
  C12. A container of at least four files that fits the slot is extracted exactly: the slot holds the
  decoded pieces one after the other, whatever it held before (so also after an extraction that was cut
  off), although only sectors that differ are erased and whole blocks are erased ahead. Nothing outside
  the room for the pieces changes, the container itself included.
\<close>

theorem bootLzma_extract:
  assumes "nor_flash tx er fsize" and "list_all2 (lzma_piece dec) fs ps"
    and "4 \<le> length fs" and "length fs < 65536"
    and "\<forall>p \<in> set ps. length p \<le> 16384" and "\<forall>p \<in> set (butlast ps). length p mod 4096 = 0"
    and "unat st mod 4096 = 0" and "unat st + length fs * 16384 \<le> fsize"
    and "length fs * 16384 \<le> unat (wend - (SPI_FLASH_BASE + st))"
    and "unat c + length (lzma_container fs) \<le> fsize"
    and "unat c + length (lzma_container fs) \<le> unat st \<or> unat st + length fs * 16384 \<le> unat c"
    and "mem_read (bl_flash s) c (length (lzma_container fs)) = lzma_container fs"
    and "16384 \<le> length (output_buf s)" and "g_curr_block_addr s = 0xFFFFFFFF"
  shows "\<exists>s'. bootLzma_main_function dec tx er (SPI_FLASH_BASE + c) (SPI_FLASH_BASE + st) wend s =
      Some (True, s') \<and>
    mem_read (bl_flash s') st (length (concat ps)) = concat ps \<and>
    (\<forall>x. unat x < unat st \<or> unat st + length fs * 16384 \<le> unat x \<longrightarrow> bl_flash s' x = bl_flash s x)"
proof -
  have "length (concat ps) \<le> length fs * 16384"
    using prefix_bound [OF assms(5), of "length ps"] list_all2_lengthD [OF assms(2)] by simp
  then have l: "unat st + length (concat ps) \<le> 4294967296"
    using assms(8) nor_flash.fsize [OF assms(1)] by linarith
  obtain s' where "bootLzma_main_function dec tx er (SPI_FLASH_BASE + c) (SPI_FLASH_BASE + st) wend s =
      Some (True, s')"
    and w: "wrote (unat st) (concat ps) (unat st + length fs * 16384) (bl_flash s) (bl_flash s')"
    using nor_flash.lzma_main [OF assms] by blast
  with wrote_read [OF w l] show ?thesis unfolding wrote_def by blast
qed

definition plain_dec :: lzma_dec where
  "plain_dec n src props = (0, tl src)"

definition plain_file :: "u8 list \<Rightarrow> u8 list" where
  "plain_file d = 93 # replicate 4 0 @ le32_bytes (of_nat (length d)) @ replicate 4 0 @ 0 # d"

theorem bootLzma_extract_witness:
  "\<exists>s'. bootLzma_main_function plain_dec chip_tx chip_er (SPI_FLASH_BASE + 0x214000)
      (SPI_FLASH_BASE + 0x14000) 0x081FFFFF
      \<lparr>bl_flash = mem_write (\<lambda>_. 0xFF) 0x214000 (lzma_container
          [plain_file (replicate 4096 7), plain_file (replicate 4096 8), plain_file (replicate 4096 9),
           plain_file [1, 2, 3]]),
       output_buf = replicate 16384 0, g_last_block_addr = 0, g_curr_block_addr = 0xFFFFFFFF\<rparr> =
      Some (True, s') \<and>
    mem_read (bl_flash s') 0x14000 12291 =
      replicate 4096 7 @ replicate 4096 8 @ replicate 4096 9 @ [1, 2, 3]"
proof -
  let ?ps = "[replicate 4096 7, replicate 4096 8, replicate 4096 9, [1, 2, 3]] :: u8 list list"
  let ?fs = "[plain_file (replicate 4096 7), plain_file (replicate 4096 8),
    plain_file (replicate 4096 9), plain_file [1, 2, 3]]"
  let ?s = "\<lparr>bl_flash = mem_write (\<lambda>_. 0xFF) 0x214000 (lzma_container ?fs),
    output_buf = replicate 16384 0, g_last_block_addr = 0, g_curr_block_addr = 0xFFFFFFFF\<rparr>"
  have len: "length (lzma_container ?fs) = 12357"
    by (simp add: lzma_container_def plain_file_def)
  have pieces: "list_all2 (lzma_piece plain_dec) ?fs ?ps"
    by (simp add: lzma_piece_def plain_file_def plain_dec_def nth_append)
  have at: "mem_read (bl_flash ?s) 0x214000 (length (lzma_container ?fs)) = lzma_container ?fs"
    unfolding BootLzma.select_convs by (rule mem_read_write_same) (simp only: len)
  show ?thesis
    using bootLzma_extract [OF chip.nor_flash_axioms pieces, of "0x14000" "0x081FFFFF" "0x214000" ?s] at
    by (auto simp: len chip_size_def)
qed

text \<open>
  C40. A container of one to three files never gets extracted: the progress message divides by the
  number of files over four, which is zero.
\<close>

theorem bootLzma_few_files:
  assumes "tot = le16 (map (\<lambda>i. xip_byte (bl_flash s) (read_addr + of_nat i)) [0..<2])"
    and "tot \<noteq> 0" and "unat tot < 4" and "unat tot * 16384 \<le> unat (wend - wst)"
  shows "bootLzma_main_function dec tx er read_addr wst wend s = None"
proof -
  have "unat (ucast tot * 16384 :: u32) = unat tot * 16384"
    using assms(3) by (simp add: unat_word_ariths)
  then have "ucast tot * 16384 \<le> wend - wst" using assms(4) by (simp add: word_le_nat_alt)
  moreover have "0 < tot" using assms(2) by (simp add: word_neq_0_conv)
  ultimately show ?thesis
    using assms(3) unfolding assms(1)
    by (simp add: bootLzma_main_function_def bootLzma_decompress_def BOOTLZMA_DECOMP_FILE_SIZE_def Let_def
        few_files)
qed

theorem bootLzma_few_files_witness:
  "bootLzma_main_function plain_dec chip_tx chip_er (SPI_FLASH_BASE + 0x214000) (SPI_FLASH_BASE + 0x14000)
     0x081FFFFF
     \<lparr>bl_flash = (\<lambda>x. if x = 0x214000 then 1 else 0), output_buf = replicate 16384 0,
      g_last_block_addr = 0, g_curr_block_addr = 0xFFFFFFFF\<rparr> = None"
  by (rule bootLzma_few_files [OF refl]) (simp_all add: le16_def xip_byte_def upt_rec)

end
