(* ===== verification/Boot_Security.thy ===== *)
theory Boot_Security
  imports Boot_Lzma
begin

text \<open>
  The checks of the boot loader: certificate, manifest and image of an application slot,
  \<open>src/component/soc/amebadplus/loader/bootloader/boot_security_km4.c\<close>, and the loading of the parts
  of an image, \<open>BOOT_LoadSubImage\<close> of \<open>boot_ota_km4.c\<close>, which the decryption of the secure image calls.

  The functions of the ROM (the one-time programmable memory, signature and hash checks, the remapping
  and decrypting flash controller RSIP, random numbers), the decoders and the settings of the build are
  the record \<open>BootRom\<close>, an argument of every definition; \<open>'h\<close> is the state of the hardware they act
  on. The globals of the boot loader are the record \<open>Boot\<close>, which extends the state of the extraction;
  memory that is not flash is \<open>boot_ram\<close>, apart from the globals. None stands for an access out of the
  bounds of an array. Log output and cache maintenance are left out.
\<close>

section \<open>Headers in flash\<close>

record Certificate_TypeDef =
  cPattern :: "u8 list"
  cRsvd1 :: "u8 list"
  cVer :: u8
  cImgID :: u8
  cAuthAlg :: u8
  cHashAlg :: u8
  MajorKeyVer :: u16
  MinorKeyVer :: u16
  TableSize :: u32
  EntryNum :: u32
  cSBPubKey :: "u8 list"
  PKInfo :: "(u32 \<times> u8 list) list"

record Manifest_TypeDef =
  mPattern :: "u8 list"
  mRsvd1 :: "u8 list"
  mVer :: u8
  mImgID :: u8
  mAuthAlg :: u8
  mHashAlg :: u8
  MajorImgVer :: u16
  MinorImgVer :: u16
  ImgSize :: u32
  SecEpoch :: u32
  RsipIV :: "u8 list"
  ImgHash :: "u8 list"
  mSBPubKey :: "u8 list"
  mSignature :: "u8 list"

text \<open>The structs are packed without gaps: 356 and 400 bytes.\<close>

definition sizeof_Certificate :: nat where "sizeof_Certificate = 356"

definition sizeof_Manifest :: nat where "sizeof_Manifest = 400"

abbreviation (input) bytes_at :: "u8 list \<Rightarrow> nat \<Rightarrow> nat \<Rightarrow> u8 list" where
  "bytes_at b i n \<equiv> take n (drop i b)"

definition Certificate_of :: "u8 list \<Rightarrow> Certificate_TypeDef" where
  "Certificate_of b =
     \<lparr>cPattern = bytes_at b 0 8, cRsvd1 = bytes_at b 8 8, cVer = b ! 16, cImgID = b ! 17,
      cAuthAlg = b ! 18, cHashAlg = b ! 19, MajorKeyVer = le16 (bytes_at b 20 2),
      MinorKeyVer = le16 (bytes_at b 22 2), TableSize = le32 (bytes_at b 24 4),
      EntryNum = le32 (bytes_at b 28 4), cSBPubKey = bytes_at b 32 144,
      PKInfo = map (\<lambda>i. (le32 (bytes_at b (176 + 36 * i) 4), bytes_at b (180 + 36 * i) 32)) [0..<5]\<rparr>"

definition Certificate_bytes :: "Certificate_TypeDef \<Rightarrow> u8 list" where
  "Certificate_bytes c =
     cPattern c @ cRsvd1 c @ [cVer c, cImgID c, cAuthAlg c, cHashAlg c] @ le16_bytes (MajorKeyVer c) @
     le16_bytes (MinorKeyVer c) @ le32_bytes (TableSize c) @ le32_bytes (EntryNum c) @ cSBPubKey c @
     concat (map (\<lambda>(k, h). le32_bytes k @ h) (PKInfo c))"

definition Manifest_of :: "u8 list \<Rightarrow> Manifest_TypeDef" where
  "Manifest_of b =
     \<lparr>mPattern = bytes_at b 0 8, mRsvd1 = bytes_at b 8 8, mVer = b ! 16, mImgID = b ! 17,
      mAuthAlg = b ! 18, mHashAlg = b ! 19, MajorImgVer = le16 (bytes_at b 20 2),
      MinorImgVer = le16 (bytes_at b 22 2), ImgSize = le32 (bytes_at b 24 4),
      SecEpoch = le32 (bytes_at b 28 4), RsipIV = bytes_at b 32 16, ImgHash = bytes_at b 48 64,
      mSBPubKey = bytes_at b 112 144, mSignature = bytes_at b 256 144\<rparr>"

definition Manifest_bytes :: "Manifest_TypeDef \<Rightarrow> u8 list" where
  "Manifest_bytes m =
     mPattern m @ mRsvd1 m @ [mVer m, mImgID m, mAuthAlg m, mHashAlg m] @ le16_bytes (MajorImgVer m) @
     le16_bytes (MinorImgVer m) @ le32_bytes (ImgSize m) @ le32_bytes (SecEpoch m) @ RsipIV m @
     ImgHash m @ mSBPubKey m @ mSignature m"

definition APP_IMAGE_PATTERN :: "u8 list" where
  "APP_IMAGE_PATTERN = le32_bytes 0x35393138 @ le32_bytes 0x31313738"

text \<open>A part of an image: where it is and its length, header included.\<close>

record SubImgInfo_TypeDef =
  Addr :: u32
  Len :: u32

section \<open>The ROM and the state\<close>

record 'h BootRom =
  CONFIG_IMG1_PQC_SBOOT :: bool
  CONFIG_TRUSTZONE_EN :: bool
  CONFIG_COMPRESS_OTA_IMG :: bool
  SYSCFG_OTP_AntiRollback :: bool
  SYSCFG_OTP_RMAMode :: bool
  SYSCFG_OTP_SBootEn :: bool
  SYSCFG_OTP_RSIPEn :: bool
  SYSCFG_OTP_RDPEn :: bool
  SYSCFG_OTP_RSIPMode :: u32
  otp_read8 :: "u32 \<Rightarrow> u8"
  SEC_BOOT_IMGVER0 :: u16
  Cert_PKHash_OTP_ADDR :: u32
  rom_rand :: "'h \<Rightarrow> u32 \<times> 'h"
  xip :: "'h \<Rightarrow> memory \<Rightarrow> u32 \<Rightarrow> u8"
  RSIP_IV_Set :: "u32 \<Rightarrow> u8 list \<Rightarrow> 'h \<Rightarrow> 'h"
  RSIP_OTF_Enable :: "u32 \<Rightarrow> u32 \<Rightarrow> u32 \<Rightarrow> u32 \<Rightarrow> u32 \<Rightarrow> 'h \<Rightarrow> 'h"
  RSIP_OTF_Cmd :: "'h \<Rightarrow> 'h"
  RSIP_MMU_Config :: "u32 \<Rightarrow> u32 \<Rightarrow> u32 \<Rightarrow> u32 \<Rightarrow> 'h \<Rightarrow> 'h"
  RSIP_MMU_Cmd :: "u32 \<Rightarrow> 'h \<Rightarrow> 'h"
  SBOOT_Validate_Algorithm :: "u8 \<Rightarrow> u8 \<Rightarrow> int \<times> u8 \<times> u8"
  SBOOT_Validate_PubKey :: "u8 \<Rightarrow> u8 list \<Rightarrow> u8 list \<Rightarrow> int"
  SBOOT_Validate_Signature :: "u8 \<Rightarrow> u8 \<Rightarrow> u8 list \<Rightarrow> u8 list \<Rightarrow> u8 list \<Rightarrow> int"
  SBOOT_Validate_ImgHash :: "u8 \<Rightarrow> u8 list \<Rightarrow> u8 list list \<Rightarrow> int"
  rtl_crypto_sha2_256 :: "u8 list \<Rightarrow> int \<times> u8 list"
  MLDSA65_verify :: "u8 list \<Rightarrow> u8 list \<Rightarrow> u8 list \<Rightarrow> int"
  rtl_crypto_aes_cbc_decrypt :: "u8 list \<Rightarrow> u8 list \<Rightarrow> u8 list"
  rom_LzmaDecode :: lzma_dec
  FLASH_TxData :: flash_tx
  FLASH_Erase :: flash_er
  km0_flash_text_start :: u32
  km4_flash_text_start :: u32
  km4_bd_ram_start :: u32
  km4_bd_ram_end :: u32

record 'h Boot = BootLzma +
  hw :: 'h
  boot_ram :: memory
  Certs :: "Certificate_TypeDef list"
  Manifests :: "Manifest_TypeDef list"
  Signatures :: "u8 list list"
  Vers :: "int list"
  ValidIMGNum :: nat
  region_cert :: "u32 list"
  region_img2 :: "u32 list"
  SecureBootEn :: bool
  SecureBootEn_PQC :: bool
  g_pqc_verify_ret :: int

text \<open>A byte as the processor reads it: flash addresses go through the RSIP.\<close>

definition bus :: "'h BootRom \<Rightarrow> 'h Boot \<Rightarrow> u32 \<Rightarrow> u8" where
  "bus R s a = (if IS_FLASH_ADDR a then xip R (hw s) (bl_flash s) a else boot_ram s a)"

definition bus_read :: "'h BootRom \<Rightarrow> 'h Boot \<Rightarrow> u32 \<Rightarrow> nat \<Rightarrow> u8 list" where
  "bus_read R s a n = mem_read (bus R s) a n"

text \<open>The contents of the parts of an image.\<close>

definition sub_images :: "'h BootRom \<Rightarrow> 'h Boot \<Rightarrow> SubImgInfo_TypeDef list \<Rightarrow> u8 list list" where
  "sub_images R s infos = map (\<lambda>i. bus_read R s (Addr i) (unat (Len i))) infos"

text \<open>The copied parts are cleared when a check fails.\<close>

fun clear_images :: "SubImgInfo_TypeDef list \<Rightarrow> 'h Boot \<Rightarrow> 'h Boot" where
  "clear_images [] s = s"
| "clear_images (i # is) s =
     clear_images is (if IS_FLASH_ADDR (Addr i) then s
                      else s\<lparr>boot_ram := mem_write (boot_ram s) (Addr i) (replicate (unat (Len i)) 0)\<rparr>)"

section \<open>Loading the parts of an image\<close>

abbreviation (input) "IMAGE_HEADER_LEN \<equiv> 0x20 :: u32"

fun BOOT_LoadSubImage :: "'h BootRom \<Rightarrow> u32 \<Rightarrow> nat \<Rightarrow> 'h Boot \<Rightarrow> bool \<times> SubImgInfo_TypeDef list \<times> 'h Boot" where
  "BOOT_LoadSubImage R StartAddr 0 s = (True, [], s)"
| "BOOT_LoadSubImage R StartAddr (Suc Num) s =
     (let ImgHdr = bus_read R s StartAddr 32
      in if take 8 ImgHdr \<noteq> APP_IMAGE_PATTERN then (False, [], s)
         else
           let DstAddr = le32 (bytes_at ImgHdr 12 4) - IMAGE_HEADER_LEN;
               L = le32 (bytes_at ImgHdr 8 4) + IMAGE_HEADER_LEN;
               s1 = (if \<not> IS_FLASH_ADDR DstAddr \<and> IMAGE_HEADER_LEN < L
                     then s\<lparr>boot_ram := mem_write (boot_ram s) DstAddr (bus_read R s StartAddr (unat L))\<rparr>
                     else s);
               DstAddr1 = (if L = IMAGE_HEADER_LEN then StartAddr else DstAddr);
               (ok, infos, s2) = BOOT_LoadSubImage R (StartAddr + L) Num s1
           in (ok, \<lparr>Addr = DstAddr1, Len = L\<rparr> # infos, s2))"

section \<open>The encrypted secure image\<close>

text \<open>The \<open>while (TotalLen > 0)\<close> loop. The next initial vector is the last 16 bytes of the segment; a
  shorter segment makes the code read before its buffer.\<close>

function rdp_segments ::
  "'h BootRom \<Rightarrow> u32 \<Rightarrow> u32 \<Rightarrow> u32 \<Rightarrow> u8 list \<Rightarrow> 'h Boot \<Rightarrow> (u32 \<times> u8 list \<times> 'h Boot) option" where
  "rdp_segments R SrcAddr DestAddr TotalLen TmpIV s =
     (if TotalLen = 0 then Some (SrcAddr, TmpIV, s)
      else
        let sz = (if 256 < TotalLen then 256 else TotalLen);
            InBuf = bus_read R s SrcAddr (unat sz);
            s1 = s\<lparr>boot_ram := mem_write (boot_ram s) DestAddr (rtl_crypto_aes_cbc_decrypt R TmpIV InBuf)\<rparr>
        in if sz < 16 then None
           else rdp_segments R (SrcAddr + sz) (DestAddr + sz) (TotalLen - sz)
                  (drop (unat sz - 16) InBuf) s1)"
  by pat_completeness auto

termination
  by (relation "measure (\<lambda>(_, _, _, TotalLen, _). unat TotalLen)")
     (auto simp: word_less_nat_alt unat_sub_no_wrap unat_gt_0 split: if_splits)

declare rdp_segments.simps [simp del]

fun rdp_images ::
  "'h BootRom \<Rightarrow> u32 \<Rightarrow> u8 list \<Rightarrow> nat \<Rightarrow> 'h Boot \<Rightarrow> (bool \<times> SubImgInfo_TypeDef list \<times> 'h Boot) option" where
  "rdp_images R SrcAddr TmpIV 0 s = Some (True, [], s)"
| "rdp_images R SrcAddr TmpIV (Suc n) s =
     (let Hdr = rtl_crypto_aes_cbc_decrypt R TmpIV (bus_read R s SrcAddr 16)
      in if take 8 Hdr \<noteq> APP_IMAGE_PATTERN then Some (False, [], s)
         else
           let DestAddr = le32 (bytes_at Hdr 12 4) - IMAGE_HEADER_LEN;
               TotalLen = le32 (bytes_at Hdr 8 4) + IMAGE_HEADER_LEN
           in do {
                (Src1, IV1, s1) \<leftarrow> rdp_segments R SrcAddr DestAddr TotalLen TmpIV s;
                (ok, infos, s2) \<leftarrow> rdp_images R Src1 IV1 n s1;
                Some (ok, \<lparr>Addr = DestAddr, Len = TotalLen\<rparr> # infos, s2)
              })"

definition BOOT_DecRDPImg ::
  "'h BootRom \<Rightarrow> u32 \<Rightarrow> u8 list \<Rightarrow> 'h Boot \<Rightarrow> (bool \<times> SubImgInfo_TypeDef list \<times> 'h Boot) option" where
  "BOOT_DecRDPImg R SrcAddr RdpIV s =
     (case BOOT_LoadSubImage R SrcAddr 2 s of
        (ok, infos, s1) \<Rightarrow>
          if ok then Some (True, infos, s1)
          else if \<not> SYSCFG_OTP_RDPEn R then Some (False, infos, s1)
          else rdp_images R SrcAddr RdpIV 2 s1)"

section \<open>Failure\<close>

text \<open>The stack is cleared, and the boot loader waits for ever.\<close>

definition BOOT_Validate_Fail_Stuck :: "'h Boot \<Rightarrow> 'h Boot" where
  "BOOT_Validate_Fail_Stuck s =
     s\<lparr>boot_ram := mem_write (boot_ram s) 0x30009000 (replicate 0xFFC 0)\<rparr>"

section \<open>Signatures\<close>

text \<open>The search for a key in the certificate: the index where the loop ends, which is the number of
  entries when there is no such key.\<close>

function key_index :: "(u32 \<times> u8 list) list \<Rightarrow> u32 \<Rightarrow> u32 \<Rightarrow> nat \<Rightarrow> nat option" where
  "key_index infos num KeyID i =
     (if \<not> i < unat num then Some i
      else if length infos \<le> i then None
      else if fst (infos ! i) = KeyID then Some i
      else key_index infos num KeyID (i + 1))"
  by pat_completeness auto

termination
  by (relation "measure (\<lambda>(infos, _, _, i). length infos - i)") auto

declare key_index.simps [simp del]

definition cert_key :: "Certificate_TypeDef \<Rightarrow> u32 \<Rightarrow> u8 list option" where
  "cert_key c KeyID =
     do { i \<leftarrow> key_index (PKInfo c) (EntryNum c) KeyID 0;
          if i < length (PKInfo c) then Some (snd (PKInfo c ! i)) else None }"

text \<open>The failure branch names the image by its number, out of three names.\<close>

definition signature_fail ::
  "Manifest_TypeDef \<Rightarrow> SubImgInfo_TypeDef list \<Rightarrow> int \<Rightarrow> 'h Boot \<Rightarrow> (u8 \<times> 'h Boot) option" where
  "signature_fail m infos ret s =
     (if 3 \<le> mImgID m then None else Some (of_int ret, clear_images infos s))"

definition BOOT_SignatureCheck ::
  "'h BootRom \<Rightarrow> Manifest_TypeDef \<Rightarrow> SubImgInfo_TypeDef list \<Rightarrow> Certificate_TypeDef \<Rightarrow> u32 \<Rightarrow> 'h Boot \<Rightarrow>
   (u8 \<times> 'h Boot) option" where
  "BOOT_SignatureCheck R m infos c KeyID s =
     (if \<not> SecureBootEn s then Some (0, s)
      else
        let (ret, AuthAlg, HashAlg) = SBOOT_Validate_Algorithm R (mAuthAlg m) (mHashAlg m)
        in if ret \<noteq> 0 then signature_fail m infos ret s
           else do {
             h \<leftarrow> cert_key c KeyID;
             let ret1 = SBOOT_Validate_PubKey R AuthAlg (mSBPubKey m) h;
             if ret1 \<noteq> 0 then signature_fail m infos ret1 s
             else
               let ret2 = SBOOT_Validate_Signature R AuthAlg HashAlg (mSBPubKey m)
                            (take 256 (Manifest_bytes m)) (mSignature m)
               in if ret2 \<noteq> 0 then signature_fail m infos ret2 s else Some (of_int ret2, s)
           })"

text \<open>The hash of the public key is read from the one-time programmable memory, from a random index
  on.\<close>

fun otp_hash :: "(u32 \<Rightarrow> u8) \<Rightarrow> u32 \<Rightarrow> nat \<Rightarrow> nat \<Rightarrow> u8 list \<Rightarrow> u8 list" where
  "otp_hash rd base 0 j pk_hash = pk_hash"
| "otp_hash rd base (Suc n) j pk_hash =
     otp_hash rd base n ((j + 1) mod 32) (pk_hash[j := rd (base + of_nat j)])"

definition BOOT_SbootEn_Check :: "'h BootRom \<Rightarrow> u8 list \<Rightarrow> 'h Boot \<Rightarrow> bool \<times> u8 list \<times> 'h Boot" where
  "BOOT_SbootEn_Check R pk_hash s =
     (if SYSCFG_OTP_RMAMode R then
        let (r, h) = rom_rand R (hw s);
            pk = otp_hash (otp_read8 R) 0x720 32 (unat r mod 32) pk_hash;
            s1 = s\<lparr>hw := h, SecureBootEn := SecureBootEn s \<or> (\<exists>b \<in> set pk. b \<noteq> 0xFF)\<rparr>
        in (SecureBootEn s1, pk, s1)
      else if \<not> SYSCFG_OTP_SBootEn R then (SecureBootEn s, pk_hash, s)
      else
        let (r, h) = rom_rand R (hw s)
        in (True, otp_hash (otp_read8 R) (Cert_PKHash_OTP_ADDR R) 32 (unat r mod 32) pk_hash,
            s\<lparr>hw := h, SecureBootEn := True\<rparr>))"

definition BOOT_CertificateCheck ::
  "'h BootRom \<Rightarrow> Certificate_TypeDef \<Rightarrow> nat \<Rightarrow> 'h Boot \<Rightarrow> (u8 \<times> 'h Boot) option" where
  "BOOT_CertificateCheck R c idx s =
     (let (en, PubKeyHash, s1) = BOOT_SbootEn_Check R (replicate 32 0) s
      in if \<not> en then Some (0, s1)
         else
           let (ret, AuthAlg, HashAlg) = SBOOT_Validate_Algorithm R (cAuthAlg c) (cHashAlg c)
           in if ret \<noteq> 0 then Some (of_int ret, s1)
              else
                let ret1 = SBOOT_Validate_PubKey R AuthAlg (cSBPubKey c) PubKeyHash
                in if ret1 \<noteq> 0 then Some (of_int ret1, s1)
                   else if sizeof_Certificate < unat (TableSize c) then None
                   else Some (of_int (SBOOT_Validate_Signature R AuthAlg HashAlg (cSBPubKey c)
                          (take (unat (TableSize c)) (Certificate_bytes c)) (Signatures s1 ! idx)), s1))"

definition BOOT_Extract_SignatureCheck ::
  "'h BootRom \<Rightarrow> Manifest_TypeDef \<Rightarrow> SubImgInfo_TypeDef list \<Rightarrow> 'h Boot \<Rightarrow> u8 \<times> 'h Boot" where
  "BOOT_Extract_SignatureCheck R m infos s =
     (let (en, PubKeyHash, s1) = BOOT_SbootEn_Check R (replicate 32 0) s
      in if \<not> en then (0, s1)
         else
           let (ret, AuthAlg, HashAlg) = SBOOT_Validate_Algorithm R (mAuthAlg m) (mHashAlg m)
           in if ret = 0 \<and> SBOOT_Validate_PubKey R AuthAlg (mSBPubKey m) PubKeyHash = 0 \<and>
                 SBOOT_Validate_Signature R AuthAlg HashAlg (mSBPubKey m) (take 256 (Manifest_bytes m))
                   (mSignature m) = 0 \<and>
                 SBOOT_Validate_ImgHash R HashAlg (ImgHash m) (sub_images R s1 infos) = 0
              then (1, s1) else (0, s1))"

section \<open>Post-quantum signatures\<close>

text \<open>The stack of the check is overwritten with memory below it, ten kilobytes at a time.\<close>

function pqc_clear :: "u32 \<Rightarrow> u32 \<Rightarrow> u32 \<Rightarrow> 'h BootRom \<Rightarrow> 'h Boot \<Rightarrow> 'h Boot" where
  "pqc_clear stack_top rand_val_addr bottom R s =
     (if \<not> bottom < stack_top then s
      else
        let cleared_size = (if 10240 < stack_top - bottom then 10240 else stack_top - bottom)
        in pqc_clear stack_top rand_val_addr (bottom + cleared_size) R
             (s\<lparr>boot_ram := mem_write (boot_ram s) bottom (bus_read R s rand_val_addr (unat cleared_size))\<rparr>))"
  by pat_completeness auto

termination
proof (relation "measure (\<lambda>(stack_top, _, bottom, _). unat stack_top - unat bottom)", goal_cases)
  case (2 top rv bot R s c)
  have lt: "unat bot < unat top" using 2(1) by (simp add: word_less_nat_alt)
  have c: "0 < unat c \<and> unat c \<le> unat top - unat bot"
    using 2 lt by (simp add: word_less_nat_alt unat_sub_no_wrap)
  then have "unat (bot + c) = unat bot + unat c"
    using lt unat_lt_space [of top] by (intro unat_add_no_wrap) linarith
  then have "unat top - unat (bot + c) < unat top - unat bot" using c lt by linarith
  then show ?case by simp
qed simp

declare pqc_clear.simps [simp del]

definition SBOOT_Clear_PQC_Stack :: "'h BootRom \<Rightarrow> u32 \<Rightarrow> u32 \<Rightarrow> 'h Boot \<Rightarrow> 'h Boot" where
  "SBOOT_Clear_PQC_Stack R stack_top_addr sz s =
     (let bottom = stack_top_addr - sz
      in pqc_clear stack_top_addr (bottom - 10240) bottom R s)"

text \<open>All 32 bytes are compared, from a random index on.\<close>

fun pqc_diff :: "u8 list \<Rightarrow> u8 list \<Rightarrow> nat \<Rightarrow> nat \<Rightarrow> u8 \<Rightarrow> u8" where
  "pqc_diff CalcHash ExpectedHash 0 j err = err"
| "pqc_diff CalcHash ExpectedHash (Suc n) j err =
     pqc_diff CalcHash ExpectedHash n ((j + 1) mod 32) (err OR (CalcHash ! j XOR ExpectedHash ! j))"

definition SBOOT_Validate_PubKey_PQC ::
  "'h BootRom \<Rightarrow> u8 list \<Rightarrow> u16 \<Rightarrow> u8 list \<Rightarrow> 'h Boot \<Rightarrow> int \<times> 'h Boot" where
  "SBOOT_Validate_PubKey_PQC R PubKey PubKeySize ExpectedHash s =
     (let (ret, CalcHash) = rtl_crypto_sha2_256 R (take (unat PubKeySize) PubKey)
      in if ret \<noteq> 0 then (- 1, s)
         else
           let (r, h) = rom_rand R (hw s)
           in (if pqc_diff CalcHash ExpectedHash 32 (unat r mod 32) 0 \<noteq> 0 then - 1 else 0, s\<lparr>hw := h\<rparr>))"

definition BOOT_Read_PQC_PubKeyHash_OTP :: "'h BootRom \<Rightarrow> u8 list \<Rightarrow> 'h Boot \<Rightarrow> u8 list \<times> 'h Boot" where
  "BOOT_Read_PQC_PubKeyHash_OTP R pk_hash s =
     (let (r, h) = rom_rand R (hw s)
      in (otp_hash (otp_read8 R) 0x340 32 (unat r mod 32) pk_hash, s\<lparr>hw := h\<rparr>))"

definition BOOT_PQC_En_Check :: "Manifest_TypeDef \<Rightarrow> 'h Boot \<Rightarrow> bool \<times> 'h Boot" where
  "BOOT_PQC_En_Check m s = (let en = (2 \<le> mVer m) in (en, s\<lparr>SecureBootEn_PQC := en\<rparr>))"

text \<open>The extension behind a certificate or manifest: algorithm, sizes, key and signature; the check is
  the same for both. Its result goes to a global.\<close>

definition sizeof_pqc :: nat where "sizeof_pqc = 7248"

definition pqc_verify ::
  "'h BootRom \<Rightarrow> u8 list \<Rightarrow> u8 list \<Rightarrow> u8 list option \<Rightarrow> 'h Boot \<Rightarrow> 'h Boot option" where
  "pqc_verify R PQC_PubKeyHash ext msg s =
     (let KeySize = le16 (bytes_at ext 4 2);
          SigSize = le16 (bytes_at ext 6 2);
          PubKey = bytes_at ext 16 2592;
          Sig = bytes_at ext 2608 4640
      in if ext ! 0 \<noteq> 241 \<or> KeySize \<noteq> 1952 \<or> SigSize \<noteq> 3309 then Some (s\<lparr>g_pqc_verify_ret := - 12\<rparr>)
         else
           let (ret, s1) = SBOOT_Validate_PubKey_PQC R PubKey KeySize PQC_PubKeyHash s
           in if ret \<noteq> 0 then Some (s1\<lparr>g_pqc_verify_ret := ret\<rparr>)
              else do {
                m \<leftarrow> msg;
                Some (s1\<lparr>g_pqc_verify_ret :=
                  (if MLDSA65_verify R (take (unat SigSize) Sig) m PubKey \<noteq> 0 then - 3 else 0)\<rparr>)
              })"

definition SBOOT_CertificateVerify_PQC_Execute ::
  "'h BootRom \<Rightarrow> u8 list \<Rightarrow> Certificate_TypeDef \<Rightarrow> u32 \<Rightarrow> 'h Boot \<Rightarrow> 'h Boot option" where
  "SBOOT_CertificateVerify_PQC_Execute R PQC_PubKeyHash c ImgAddr s =
     pqc_verify R PQC_PubKeyHash (bus_read R s (ImgAddr + TableSize c + 144) sizeof_pqc)
       (if sizeof_Certificate < unat (TableSize c) then None
        else Some (take (unat (TableSize c)) (Certificate_bytes c))) s"

definition pqc_stack_top :: "'h BootRom \<Rightarrow> u32" where
  "pqc_stack_top R = km4_bd_ram_end R OR 0x10000000"

definition SBOOT_CertificateVerify_PQC ::
  "'h BootRom \<Rightarrow> u8 list \<Rightarrow> Certificate_TypeDef \<Rightarrow> u32 \<Rightarrow> 'h Boot \<Rightarrow> (int \<times> 'h Boot) option" where
  "SBOOT_CertificateVerify_PQC R PQC_PubKeyHash c ImgAddr s =
     do { s1 \<leftarrow> SBOOT_CertificateVerify_PQC_Execute R PQC_PubKeyHash c ImgAddr s;
          let s2 = SBOOT_Clear_PQC_Stack R (pqc_stack_top R) 65536 s1;
          Some (g_pqc_verify_ret s2, s2) }"

definition BOOT_CertificateCheck_PQC ::
  "'h BootRom \<Rightarrow> Manifest_TypeDef \<Rightarrow> Certificate_TypeDef \<Rightarrow> nat \<Rightarrow> 'h Boot \<Rightarrow> (int \<times> 'h Boot) option" where
  "BOOT_CertificateCheck_PQC R m c idx s =
     (let (en, s1) = BOOT_PQC_En_Check m s
      in if \<not> en then Some (0, s1)
         else
           let (PQC_PubKeyHash, s2) = BOOT_Read_PQC_PubKeyHash_OTP R (replicate 32 0) s1
           in SBOOT_CertificateVerify_PQC R PQC_PubKeyHash c (region_cert s2 ! idx) s2)"

definition SBOOT_SignatureVerify_PQC_Execute ::
  "'h BootRom \<Rightarrow> u8 list \<Rightarrow> Manifest_TypeDef \<Rightarrow> u32 \<Rightarrow> 'h Boot \<Rightarrow> 'h Boot option" where
  "SBOOT_SignatureVerify_PQC_Execute R PQC_PubKeyHash m ManifestAddr s =
     pqc_verify R PQC_PubKeyHash (bus_read R s (ManifestAddr + 400) sizeof_pqc)
       (Some (take 256 (Manifest_bytes m))) s"

definition SBOOT_SignatureVerify_PQC ::
  "'h BootRom \<Rightarrow> u8 list \<Rightarrow> Manifest_TypeDef \<Rightarrow> u32 \<Rightarrow> 'h Boot \<Rightarrow> (int \<times> 'h Boot) option" where
  "SBOOT_SignatureVerify_PQC R PQC_PubKeyHash m ManifestAddr s =
     do { s1 \<leftarrow> SBOOT_SignatureVerify_PQC_Execute R PQC_PubKeyHash m ManifestAddr s;
          let s2 = SBOOT_Clear_PQC_Stack R (pqc_stack_top R) 65536 s1;
          Some (g_pqc_verify_ret s2, s2) }"

text \<open>Here a key that is not in the certificate is an error.\<close>

definition BOOT_SignatureCheck_PQC ::
  "'h BootRom \<Rightarrow> Manifest_TypeDef \<Rightarrow> Certificate_TypeDef \<Rightarrow> nat \<Rightarrow> u32 \<Rightarrow> 'h Boot \<Rightarrow> (int \<times> 'h Boot) option" where
  "BOOT_SignatureCheck_PQC R m c idx KeyID s =
     (if \<not> SecureBootEn_PQC s then Some (0, s)
      else do {
        i \<leftarrow> key_index (PKInfo c) (EntryNum c) KeyID 0;
        if \<not> i < unat (EntryNum c) then Some (- 1, s)
        else SBOOT_SignatureVerify_PQC R (snd (PKInfo c ! i)) m (region_img2 s ! idx) s
      })"

section \<open>Headers and bytes\<close>

lemma u8_high: "8 \<le> n \<Longrightarrow> \<not> bit (x :: u8) n"
  using bit_imp_le_length [of x n] by auto

lemma le_bytes_of:
  "length b = 2 \<Longrightarrow> le16_bytes (le16 b) = b" "length b = 4 \<Longrightarrow> le32_bytes (le32 b) = b"
proof -
  assume "length b = 2"
  then obtain x y where b: "b = [x, y]" by (auto simp: numeral_2_eq_2 length_Suc_conv)
  show "le16_bytes (le16 b) = b"
    by (auto simp: b le16_def le16_bytes_def bit_simps u8_high intro!: bit_word_eqI)
next
  assume "length b = 4"
  then obtain x y z w where b: "b = [x, y, z, w]" by (auto simp: numeral_eq_Suc length_Suc_conv)
  show "le32_bytes (le32 b) = b"
    by (auto simp: b le32_def le32_bytes_def bit_simps u8_high intro!: bit_word_eqI)
qed

lemma bytes_join: "j = i + n \<Longrightarrow> bytes_at b i n @ drop j b = drop i b"
  by (metis add.commute append_take_drop_id drop_drop)

lemma nth_join: "j = Suc i \<Longrightarrow> i < length b \<Longrightarrow> b ! i # drop j b = drop i b"
  by (simp add: Cons_nth_drop_Suc)

lemma Certificate_of_bytes: "length b = 356 \<Longrightarrow> Certificate_bytes (Certificate_of b) = b"
  by (simp add: Certificate_bytes_def Certificate_of_def le_bytes_of upt_rec [of 0] upt_rec [of "Suc _"]
      bytes_join nth_join)

lemma Manifest_of_bytes: "length b = 400 \<Longrightarrow> Manifest_bytes (Manifest_of b) = b"
  by (simp add: Manifest_bytes_def Manifest_of_def le_bytes_of bytes_join nth_join)

section \<open>What the checks keep\<close>

text \<open>The flash, the headers read from it, the versions and the regions stay, and a secure boot that is
  on stays on.\<close>

definition keeps_slots :: "'h Boot \<Rightarrow> 'h Boot \<Rightarrow> bool" where
  "keeps_slots s s' \<longleftrightarrow>
     bl_flash s' = bl_flash s \<and> Certs s' = Certs s \<and> Manifests s' = Manifests s \<and>
     Signatures s' = Signatures s \<and> Vers s' = Vers s \<and> ValidIMGNum s' = ValidIMGNum s \<and>
     region_cert s' = region_cert s \<and> region_img2 s' = region_img2 s \<and>
     (SecureBootEn s \<longrightarrow> SecureBootEn s')"

lemma keeps_slots_refl [simp, intro]: "keeps_slots s s"
  by (simp add: keeps_slots_def)

lemma keeps_slots_trans [trans]: "keeps_slots s1 s2 \<Longrightarrow> keeps_slots s2 s3 \<Longrightarrow> keeps_slots s1 s3"
  by (simp add: keeps_slots_def)

lemma keeps_slots_updates [simp]:
  "keeps_slots s (s'\<lparr>boot_ram := m\<rparr>) = keeps_slots s s'" "keeps_slots s (s'\<lparr>hw := h\<rparr>) = keeps_slots s s'"
  "keeps_slots s (s'\<lparr>SecureBootEn_PQC := b\<rparr>) = keeps_slots s s'"
  "keeps_slots s (s'\<lparr>g_pqc_verify_ret := r\<rparr>) = keeps_slots s s'"
  "keeps_slots (s\<lparr>boot_ram := m\<rparr>) s' = keeps_slots s s'" "keeps_slots (s\<lparr>hw := h\<rparr>) s' = keeps_slots s s'"
  "keeps_slots (s\<lparr>SecureBootEn_PQC := b\<rparr>) s' = keeps_slots s s'"
  "keeps_slots (s\<lparr>g_pqc_verify_ret := r\<rparr>) s' = keeps_slots s s'"
  by (simp_all add: keeps_slots_def)

text \<open>Many steps change nothing but the memory.\<close>

definition only_ram :: "'h Boot \<Rightarrow> 'h Boot \<Rightarrow> bool" where
  "only_ram s s' \<longleftrightarrow> (\<exists>m. s' = s\<lparr>boot_ram := m\<rparr>)"

lemma only_ram_update [simp, intro]: "only_ram s (s\<lparr>boot_ram := m\<rparr>)"
  by (auto simp: only_ram_def)

lemma only_ram_update_left [simp]: "only_ram (s\<lparr>boot_ram := m\<rparr>) s' = only_ram s s'"
  by (auto simp: only_ram_def)

lemma only_ram_refl [simp, intro]: "only_ram s s"
  using only_ram_update [of s "boot_ram s"] by simp

lemma only_ram_trans [trans]: "only_ram s1 s2 \<Longrightarrow> only_ram s2 s3 \<Longrightarrow> only_ram s1 s3"
  by (auto simp: only_ram_def)

lemma only_ram_keeps: "only_ram s s' \<Longrightarrow> keeps_slots s s'"
  by (auto simp: only_ram_def)

lemma only_ram_fields:
  assumes "only_ram s s'"
  shows "hw s' = hw s" "SecureBootEn s' = SecureBootEn s" "SecureBootEn_PQC s' = SecureBootEn_PQC s"
    "bl_flash s' = bl_flash s" "Certs s' = Certs s" "Manifests s' = Manifests s"
    "region_cert s' = region_cert s" "region_img2 s' = region_img2 s"
  using assms by (auto simp: only_ram_def)

lemma clear_images_ram: "only_ram s (clear_images infos s)"
proof (induction infos s rule: clear_images.induct)
  case (2 i "is" s)
  then show ?case by (cases "IS_FLASH_ADDR (Addr i)") (auto)
qed simp

lemma BOOT_LoadSubImage_ram: "BOOT_LoadSubImage R a n s = (ok, infos, s') \<Longrightarrow> only_ram s s'"
proof (induction n arbitrary: a s ok infos s')
  case (Suc n)
  from Suc.prems show ?case
    by (auto simp: Let_def split: if_splits prod.splits dest!: Suc.IH)
qed simp

lemma rdp_segments_ram: "rdp_segments R a d n iv s = Some (a', iv', s') \<Longrightarrow> only_ram s s'"
proof (induction R a d n iv s rule: rdp_segments.induct)
  case (1 R a d n iv s)
  show ?case
  proof (cases "n = 0")
    case True
    then show ?thesis using "1.prems" by (subst (asm) rdp_segments.simps) simp
  next
    case False
    then show ?thesis
      using "1.prems" "1.IH" [OF False refl refl refl]
      by (subst (asm) rdp_segments.simps)
        (auto simp: Let_def split: if_splits)
  qed
qed

lemma rdp_images_ram: "rdp_images R a iv n s = Some (ok, infos, s') \<Longrightarrow> only_ram s s'"
proof (induction n arbitrary: a iv s ok infos s')
  case (Suc n)
  from Suc.prems show ?case
    by (auto simp: Let_def split: if_splits Option.bind_splits prod.splits
        dest!: Suc.IH rdp_segments_ram intro: only_ram_trans)
qed simp

lemma BOOT_DecRDPImg_ram: "BOOT_DecRDPImg R a iv s = Some (ok, infos, s') \<Longrightarrow> only_ram s s'"
  by (auto simp: BOOT_DecRDPImg_def split: prod.splits if_splits
      dest: BOOT_LoadSubImage_ram rdp_images_ram intro: only_ram_trans)

lemma signature_fail_ram: "signature_fail m infos r s = Some (ret, s') \<Longrightarrow> only_ram s s'"
  by (auto simp: signature_fail_def clear_images_ram split: if_splits)

lemma BOOT_SignatureCheck_ram: "BOOT_SignatureCheck R m infos c k s = Some (ret, s') \<Longrightarrow> only_ram s s'"
  by (auto simp: BOOT_SignatureCheck_def Let_def split: if_splits prod.splits Option.bind_splits
      dest: signature_fail_ram)

lemma pqc_clear_ram: "only_ram s (pqc_clear t rv b R s)"
proof (induction t rv b R s rule: pqc_clear.induct)
  case (1 t rv b R s)
  then show ?case
    by (subst pqc_clear.simps) (auto simp: Let_def)
qed

lemma pqc_verify_keeps: "pqc_verify R h ext msg s = Some s' \<Longrightarrow> keeps_slots s s'"
  by (auto simp: pqc_verify_def SBOOT_Validate_PubKey_PQC_def Let_def
      split: if_splits prod.splits Option.bind_splits)

lemma SBOOT_Clear_PQC_Stack_ram: "only_ram s (SBOOT_Clear_PQC_Stack R a n s)"
  by (simp add: SBOOT_Clear_PQC_Stack_def Let_def pqc_clear_ram)

lemma keeps_then_ram: "keeps_slots s s' \<Longrightarrow> only_ram s' s'' \<Longrightarrow> keeps_slots s s''"
  by (auto intro: keeps_slots_trans only_ram_keeps)

lemma BOOT_CertificateCheck_PQC_keeps:
  "BOOT_CertificateCheck_PQC R m c i s = Some (ret, s') \<Longrightarrow> keeps_slots s s'"
  by (auto simp: BOOT_CertificateCheck_PQC_def SBOOT_CertificateVerify_PQC_def BOOT_PQC_En_Check_def
      SBOOT_CertificateVerify_PQC_Execute_def BOOT_Read_PQC_PubKeyHash_OTP_def Let_def
      split: if_splits prod.splits Option.bind_splits
      dest!: pqc_verify_keeps intro: keeps_then_ram [OF _ SBOOT_Clear_PQC_Stack_ram])

lemma BOOT_SignatureCheck_PQC_keeps:
  "BOOT_SignatureCheck_PQC R m c i k s = Some (ret, s') \<Longrightarrow> keeps_slots s s'"
  by (auto simp: BOOT_SignatureCheck_PQC_def SBOOT_SignatureVerify_PQC_def
      SBOOT_SignatureVerify_PQC_Execute_def Let_def
      split: if_splits Option.bind_splits
      dest!: pqc_verify_keeps intro: keeps_then_ram [OF _ SBOOT_Clear_PQC_Stack_ram])

lemma BOOT_SbootEn_Check_keeps: "BOOT_SbootEn_Check R pk s = (en, pk', s') \<Longrightarrow> keeps_slots s s' \<and> en = SecureBootEn s'"
  by (auto simp: BOOT_SbootEn_Check_def Let_def keeps_slots_def split: if_splits prod.splits)

lemma BOOT_CertificateCheck_keeps: "BOOT_CertificateCheck R c i s = Some (ret, s') \<Longrightarrow> keeps_slots s s'"
  by (auto simp: BOOT_CertificateCheck_def Let_def split: if_splits prod.splits dest: BOOT_SbootEn_Check_keeps)

section \<open>What a passed check means\<close>

lemma length_otp_hash [simp]: "length (otp_hash rd b n j pk) = length pk"
  by (induction rd b n j pk rule: otp_hash.induct) simp_all

lemma nth_otp_hash:
  assumes "length pk = 32" and "j < 32" and "n \<le> 32" and "i < 32"
  shows "otp_hash rd b n j pk ! i =
    (if (i + 32 - j) mod 32 < n then rd (b + of_nat i) else pk ! i)"
  using assms
proof (induction n arbitrary: j pk)
  case (Suc n)
  have step: "(i + 32 - (j + 1) mod 32) mod 32 < n \<or> i = j \<longleftrightarrow> (i + 32 - j) mod 32 < Suc n"
    using Suc.prems by (auto simp: mod_if split: if_splits)
  have "(i + 32 - (j + 1) mod 32) mod 32 = 31" if "i = j"
    using Suc.prems that by (auto simp: mod_if)
  with step Suc show ?case by (auto simp: nth_list_update)
qed simp

lemma otp_hash_full:
  assumes "length pk = 32" and "j < 32"
  shows "otp_hash rd b 32 j pk = map (\<lambda>i. rd (b + of_nat i)) [0..<32]"
  using assms by (intro nth_equalityI) (auto simp: nth_otp_hash)

text \<open>The key in the one-time programmable memory, and whether secure boot is on.\<close>

definition otp_key :: "'h BootRom \<Rightarrow> u8 list" where
  "otp_key R =
     map (\<lambda>i. otp_read8 R ((if SYSCFG_OTP_RMAMode R then 0x720 else Cert_PKHash_OTP_ADDR R) + of_nat i)) [0..<32]"

definition sboot_on :: "'h BootRom \<Rightarrow> bool" where
  "sboot_on R \<longleftrightarrow>
     (if SYSCFG_OTP_RMAMode R then \<exists>b \<in> set (otp_key R). b \<noteq> 0xFF else SYSCFG_OTP_SBootEn R)"

text \<open>The ROM gives small result codes, which the conversion to a byte keeps apart from success.\<close>

definition rom_codes :: "'h BootRom \<Rightarrow> bool" where
  "rom_codes R \<longleftrightarrow>
     (\<forall>a h. fst (SBOOT_Validate_Algorithm R a h) \<in> {- 128..127}) \<and>
     (\<forall>a p h. SBOOT_Validate_PubKey R a p h \<in> {- 128..127}) \<and>
     (\<forall>a h p m g. SBOOT_Validate_Signature R a h p m g \<in> {- 128..127}) \<and>
     (\<forall>h x b. SBOOT_Validate_ImgHash R h x b \<in> {- 128..127})"

definition cert_authentic :: "'h BootRom \<Rightarrow> Certificate_TypeDef \<Rightarrow> u8 list \<Rightarrow> bool" where
  "cert_authentic R c sg \<longleftrightarrow>
     (case SBOOT_Validate_Algorithm R (cAuthAlg c) (cHashAlg c) of
        (ret, AuthAlg, HashAlg) \<Rightarrow>
          ret = 0 \<and> SBOOT_Validate_PubKey R AuthAlg (cSBPubKey c) (otp_key R) = 0 \<and>
          unat (TableSize c) \<le> sizeof_Certificate \<and>
          SBOOT_Validate_Signature R AuthAlg HashAlg (cSBPubKey c)
            (take (unat (TableSize c)) (Certificate_bytes c)) sg = 0)"

definition manifest_authentic :: "'h BootRom \<Rightarrow> Certificate_TypeDef \<Rightarrow> Manifest_TypeDef \<Rightarrow> bool" where
  "manifest_authentic R c m \<longleftrightarrow>
     (case SBOOT_Validate_Algorithm R (mAuthAlg m) (mHashAlg m) of
        (ret, AuthAlg, HashAlg) \<Rightarrow>
          ret = 0 \<and>
          (case cert_key c 0 of None \<Rightarrow> False
           | Some h \<Rightarrow> SBOOT_Validate_PubKey R AuthAlg (mSBPubKey m) h = 0) \<and>
          SBOOT_Validate_Signature R AuthAlg HashAlg (mSBPubKey m) (take 256 (Manifest_bytes m))
            (mSignature m) = 0)"

lemma code_zero: "- 128 \<le> r \<Longrightarrow> r \<le> 127 \<Longrightarrow> (of_int r :: u8) = 0 \<longleftrightarrow> r = 0"
proof -
  assume r: "- 128 \<le> r" "r \<le> 127"
  have "(of_int r :: u8) = 0 \<longleftrightarrow> 256 dvd r"
    by (simp add: word_of_int_eq_0_iff)
  with r show ?thesis by presburger
qed

lemma rom_codes_zero [simp]:
  assumes "rom_codes R"
  shows "SBOOT_Validate_Algorithm R a h = (r, x) \<Longrightarrow> (of_int r :: u8) = 0 \<longleftrightarrow> r = 0"
    and "(of_int (SBOOT_Validate_PubKey R a p k) :: u8) = 0 \<longleftrightarrow> SBOOT_Validate_PubKey R a p k = 0"
    and "(of_int (SBOOT_Validate_Signature R a h p m g) :: u8) = 0 \<longleftrightarrow>
      SBOOT_Validate_Signature R a h p m g = 0"
    and "(of_int (SBOOT_Validate_ImgHash R h y b) :: u8) = 0 \<longleftrightarrow> SBOOT_Validate_ImgHash R h y b = 0"
  using assms unfolding rom_codes_def
  by (auto intro!: code_zero) (metis fst_conv)+

lemma BOOT_SbootEn_Check_on:
  assumes "sboot_on R" and "BOOT_SbootEn_Check R (replicate 32 0) s = (en, pk, s')"
  shows "en" and "pk = otp_key R"
  using assms
  by (auto simp: BOOT_SbootEn_Check_def Let_def sboot_on_def otp_key_def otp_hash_full
      split: if_splits prod.splits)

lemma BOOT_CertificateCheck_pass:
  assumes "sboot_on R" and "rom_codes R" and "BOOT_CertificateCheck R c i s = Some (0, s')"
  shows "SecureBootEn s' \<and> cert_authentic R c (Signatures s ! i)"
proof -
  obtain en pk s1 where chk: "BOOT_SbootEn_Check R (replicate 32 0) s = (en, pk, s1)"
    by (metis prod_cases3)
  note on = BOOT_SbootEn_Check_on [OF assms(1) chk] BOOT_SbootEn_Check_keeps [OF chk]
  show ?thesis
    using assms(2,3) on
    by (auto simp: BOOT_CertificateCheck_def chk cert_authentic_def keeps_slots_def Let_def
        split: if_splits prod.splits)
qed

lemma BOOT_SignatureCheck_pass:
  assumes "rom_codes R" and "SecureBootEn s" and "BOOT_SignatureCheck R m infos c 0 s = Some (0, s')"
  shows "manifest_authentic R c m \<and> s' = s"
  using assms
  by (auto simp: BOOT_SignatureCheck_def manifest_authentic_def signature_fail_def Let_def
      split: if_splits prod.splits Option.bind_splits)

end
