(* ===== verification/Boot_Ota.thy ===== *)
theory Boot_Ota
  imports Boot_Security
begin

text \<open>
  The choice of the application slot, its loading and the extraction of a compressed update in the
  boot loader, \<open>src/component/soc/amebadplus/loader/bootloader/boot_ota_km4.c\<close>. Slot 0 is OTA1, slot 1
  is OTA2. \<open>BOOT_OTA_IMG\<close> gives the slot that is started, or no slot when the boot loader stops for ever
  in \<open>BOOT_Validate_Fail_Stuck\<close>.
\<close>

section \<open>Versions\<close>

definition BOOT_OTA_GetManifestSize :: "Manifest_TypeDef \<Rightarrow> u32" where
  "BOOT_OTA_GetManifestSize m = (if mVer m = 2 then 0x2000 else 0x1000)"

definition CompressFlag :: "u8 list" where
  "CompressFlag = le32_bytes 0x504D4F43 @ le32_bytes 0x53534552"

fun zero_bits :: "u16 \<Rightarrow> nat \<Rightarrow> u32" where
  "zero_bits tmp 0 = 0"
| "zero_bits tmp (Suc i) = zero_bits tmp i + (if bit tmp i then 0 else 1)"

definition BOOT_OTA_GetCertRollbackVer :: "'h BootRom \<Rightarrow> int" where
  "BOOT_OTA_GetCertRollbackVer R =
     (if SYSCFG_OTP_AntiRollback R then uint (push_bit 16 (zero_bits (SEC_BOOT_IMGVER0 R) 16)) else 0)"

text \<open>The version of a header, major and minor part.\<close>

definition full_version :: "u16 \<Rightarrow> u16 \<Rightarrow> int" where
  "full_version major minor = uint (push_bit 16 (ucast major) OR ucast minor :: u32)"

definition valid_images :: "int \<Rightarrow> int list \<Rightarrow> nat" where
  "valid_images VN_CERT ver =
     (if ver ! 0 < VN_CERT \<and> ver ! 1 < VN_CERT then 0
      else if VN_CERT \<le> ver ! 0 \<and> VN_CERT \<le> ver ! 1 then 2
      else 1)"

section \<open>Choosing a slot\<close>

definition slot_load :: "'h BootRom \<Rightarrow> nat \<Rightarrow> 'h Boot \<Rightarrow> 'h Boot" where
  "slot_load R i s =
     (let c = Certificate_of (bus_read R s (region_cert s ! i) sizeof_Certificate);
          s1 = s\<lparr>Certs := (Certs s)[i := c]\<rparr>
      in if cPattern c = APP_IMAGE_PATTERN then
           let s2 = (if 2 \<le> cVer c
                     then s1\<lparr>region_img2 := (region_img2 s1)[i := region_cert s1 ! i + 0x2000]\<rparr>
                     else s1)
           in s2\<lparr>Signatures := (Signatures s2)[i := bus_read R s2 (region_cert s2 ! i + TableSize c) 144],
                 Manifests := (Manifests s2)[i := Manifest_of (bus_read R s2 (region_img2 s2 ! i) sizeof_Manifest)],
                 Vers := (Vers s2)[i := full_version (MajorKeyVer c) (MinorKeyVer c)]\<rparr>
         else s1\<lparr>Vers := (Vers s1)[i := - 1]\<rparr>)"

definition BOOT_OTA_SlotSelect :: "'h BootRom \<Rightarrow> 'h Boot \<Rightarrow> nat \<times> 'h Boot" where
  "BOOT_OTA_SlotSelect R s =
     (let s1 = slot_load R 1 (slot_load R 0 s);
          s2 = s1\<lparr>ValidIMGNum := valid_images (BOOT_OTA_GetCertRollbackVer R) (Vers s1)\<rparr>
      in (if Vers s2 ! 1 \<le> Vers s2 ! 0 then 0 else 1, s2))"

section \<open>Loading an image\<close>

definition BOOT_RSIPIvSet :: "'h BootRom \<Rightarrow> Manifest_TypeDef \<Rightarrow> u32 \<Rightarrow> 'h Boot \<Rightarrow> 'h Boot" where
  "BOOT_RSIPIvSet R m IV_index s =
     (if \<not> SYSCFG_OTP_RSIPEn R then s
      else s\<lparr>hw := RSIP_IV_Set R IV_index (take 8 (RsipIV m)) (hw s)\<rparr>)"

definition BOOT_OTFCheck :: "'h BootRom \<Rightarrow> u32 \<Rightarrow> u32 \<Rightarrow> u32 \<Rightarrow> u32 \<Rightarrow> 'h Boot \<Rightarrow> 'h Boot" where
  "BOOT_OTFCheck R start_a end_a IV_index OTF_index s =
     (if \<not> SYSCFG_OTP_RSIPEn R then s
      else if IS_FLASH_ADDR start_a \<and> IS_FLASH_ADDR end_a then
        let mode = SYSCFG_OTP_RSIPMode R
        in if mode = 0 then
             s\<lparr>hw := RSIP_OTF_Cmd R (RSIP_OTF_Enable R OTF_index start_a end_a IV_index 2 (hw s))\<rparr>
           else if mode = 1 then
             s\<lparr>hw := RSIP_OTF_Cmd R (RSIP_OTF_Enable R OTF_index start_a end_a IV_index 1 (hw s))\<rparr>
           else s
      else s)"

text \<open>The remapping of a virtual address to the image in flash, for either core.\<close>

definition remap_image :: "'h BootRom \<Rightarrow> u32 \<Rightarrow> u32 \<Rightarrow> u32 \<Rightarrow> 'h Boot \<Rightarrow> 'h Boot" where
  "remap_image R idx LogAddr PhyAddr s =
     (let s1 = s\<lparr>hw := RSIP_MMU_Cmd R idx
                  (RSIP_MMU_Config R idx LogAddr (LogAddr + 0x01000000 - 0x20) PhyAddr (hw s))\<rparr>
      in BOOT_OTFCheck R LogAddr (LogAddr + 0x01000000 - 0x20) 1 idx s1)"

definition total_len :: "SubImgInfo_TypeDef list \<Rightarrow> u32" where
  "total_len infos = sum_list (map Len infos)"

definition padding_info :: "u32 \<Rightarrow> u32 \<Rightarrow> SubImgInfo_TypeDef" where
  "padding_info ImgAddr TotalLen =
     \<lparr>Addr = ImgAddr + TotalLen, Len = push_bit 12 (drop_bit 12 (TotalLen - 1) + 1) - TotalLen\<rparr>"

definition validate_image ::
  "'h BootRom \<Rightarrow> nat \<Rightarrow> SubImgInfo_TypeDef list \<Rightarrow> 'h Boot \<Rightarrow> (bool \<times> 'h Boot) option" where
  "validate_image R ImgIndex infos s =
     (let m = Manifests s ! ImgIndex; c = Certs s ! ImgIndex
      in do {
           (ret, s1) \<leftarrow> BOOT_SignatureCheck R m infos c 0 s;
           if ret \<noteq> 0 then Some (False, s1)
           else do {
             (ret1, s2) \<leftarrow> (if CONFIG_IMG1_PQC_SBOOT R then BOOT_SignatureCheck_PQC R m c ImgIndex 1 s1
                            else Some (0, s1));
             if (of_int ret1 :: u8) \<noteq> 0 then Some (False, s2)
             else if \<not> SecureBootEn s2 \<and> \<not> SecureBootEn_PQC s2 then Some (True, s2)
             else if (of_int (SBOOT_Validate_ImgHash R (mHashAlg m) (ImgHash m) (sub_images R s2 infos)) :: u8) \<noteq> 0
             then Some (False, clear_images infos s2)
             else Some (True, s2)
           }
         })"

definition BOOT_OTA_LoadIMGAll :: "'h BootRom \<Rightarrow> nat \<Rightarrow> 'h Boot \<Rightarrow> (bool \<times> 'h Boot) option" where
  "BOOT_OTA_LoadIMGAll R ImgIndex s =
     (let m = Manifests s ! ImgIndex;
          PhyAddr = region_img2 s ! ImgIndex + BOOT_OTA_GetManifestSize m;
          ImgAddr = km0_flash_text_start R - IMAGE_HEADER_LEN;
          s1 = remap_image R 1 ImgAddr PhyAddr (BOOT_RSIPIvSet R m 1 s);
          (ok, km0, s2) = BOOT_LoadSubImage R ImgAddr 4 s1
      in if \<not> ok then Some (False, s2)
         else
           let TotalLen = total_len km0;
               pad = padding_info ImgAddr TotalLen;
               PhyAddr1 = PhyAddr + (TotalLen + Len pad);
               ImgAddr1 = km4_flash_text_start R - IMAGE_HEADER_LEN;
               s3 = remap_image R 2 ImgAddr1 PhyAddr1 s2;
               (ok1, km4, s4) = BOOT_LoadSubImage R ImgAddr1 4 s3
           in if \<not> ok1 then Some (False, s4)
              else do {
                (ok2, img3, s5) \<leftarrow> (if CONFIG_TRUSTZONE_EN R
                                    then BOOT_DecRDPImg R (PhyAddr1 + total_len km4) (RsipIV m) s4
                                    else Some (True, [], s4));
                if \<not> ok2 then Some (False, s5)
                else validate_image R ImgIndex (km0 @ pad # km4 @ img3) s5
              })"

section \<open>Extraction\<close>

definition BOOT_OTA_Region_Init :: "'h Boot \<Rightarrow> 'h Boot" where
  "BOOT_OTA_Region_Init s =
     (let c0 = fst (flash_get_layout_info IMG_APP_OTA1 (Some (region_cert s ! 0)) None);
          c1 = fst (flash_get_layout_info IMG_APP_OTA2 (Some (region_cert s ! 1)) None)
      in s\<lparr>region_cert := [the c0, the c1], region_img2 := [the c0 + 0x1000, the c1 + 0x1000]\<rparr>)"

text \<open>A slot is read as a manifest; a compressed update has its own pattern.\<close>

definition extract_probe :: "'h BootRom \<Rightarrow> nat \<Rightarrow> 'h Boot \<Rightarrow> bool \<times> 'h Boot" where
  "extract_probe R i s =
     (let m = Manifest_of (bus_read R s (region_cert s ! i) sizeof_Manifest);
          s1 = s\<lparr>Manifests := (Manifests s)[i := m]\<rparr>
      in if mPattern m = CompressFlag
         then (True, s1\<lparr>Vers := (Vers s1)[i := full_version (MajorImgVer m) (MinorImgVer m)]\<rparr>)
         else (False, s1\<lparr>Vers := (Vers s1)[i := - 1]\<rparr>))"

definition extract_other :: "'h BootRom \<Rightarrow> nat \<Rightarrow> 'h Boot \<Rightarrow> 'h Boot" where
  "extract_other R i s =
     (let m = Manifest_of (bus_read R s (region_cert s ! i) sizeof_Manifest);
          s1 = s\<lparr>Manifests := (Manifests s)[i := m]\<rparr>
      in if mPattern m = APP_IMAGE_PATTERN
         then s1\<lparr>Vers := (Vers s1)[i := full_version (MajorImgVer m) (MinorImgVer m)]\<rparr>
         else s1)"

definition BOOT_Extract_SlotSelect :: "'h BootRom \<Rightarrow> 'h Boot \<Rightarrow> nat \<times> 'h Boot" where
  "BOOT_Extract_SlotSelect R s =
     (let (found0, s1) = extract_probe R 0 s;
          (found1, s2) = (if found0 then (False, s1) else extract_probe R 1 s1)
      in if \<not> found0 \<and> \<not> found1 then (0, s2\<lparr>ValidIMGNum := 0\<rparr>)
         else
           let ExtractIdx = (if found0 then 0 else 1);
               s3 = extract_other R ((ExtractIdx + 1) mod 2) s2
           in (ExtractIdx,
               s3\<lparr>ValidIMGNum := valid_images (BOOT_OTA_GetCertRollbackVer R) (Vers s3)\<rparr>))"

text \<open>The decompression works on the part of the state it knows.\<close>

definition extract_image :: "'h BootRom \<Rightarrow> u32 \<Rightarrow> u32 \<Rightarrow> u32 \<Rightarrow> 'h Boot \<Rightarrow> 'h Boot option" where
  "extract_image R read_addr start_a end_a s =
     do { (_, l) \<leftarrow> bootLzma_main_function (rom_LzmaDecode R) (FLASH_TxData R) (FLASH_Erase R) read_addr
            start_a end_a (bootLzma_buffer_set (mem_read (boot_ram s) (km4_bd_ram_start R) 16384) (BootLzma.truncate s));
          Some (BootLzma.extend l (BootLzma.more s)
                \<lparr>boot_ram := mem_write (boot_ram s) (km4_bd_ram_start R) (output_buf l)\<rparr>) }"

definition BOOT_OTA_Extract :: "'h BootRom \<Rightarrow> 'h Boot \<Rightarrow> 'h Boot option" where
  "BOOT_OTA_Extract R s =
     (let (ExtractIdx, s1) = BOOT_Extract_SlotSelect R s;
          OverrideIdx = (ExtractIdx + 1) mod 2;
          ExtractAddr = region_cert s1 ! ExtractIdx;
          OverrideAddr = region_cert s1 ! OverrideIdx;
          m = Manifests s1 ! ExtractIdx
      in if ValidIMGNum s1 = 0 then Some s1
         else if Vers s1 ! OverrideIdx \<le> Vers s1 ! ExtractIdx then
           let info = \<lparr>Addr = ExtractAddr + BOOT_OTA_GetManifestSize m, Len = ImgSize m\<rparr>;
               (ret, s2) = BOOT_Extract_SignatureCheck R m [info] s1
           in do {
                s3 \<leftarrow> (if ret = 0 then
                         case flash_get_layout_info (IMG_APP_OTA1 + of_nat OverrideIdx) (Some 0) (Some 0) of
                           (st, en) \<Rightarrow>
                             if st \<noteq> Some OverrideAddr then None
                             else extract_image R (Addr info) (the st) (the en) s2
                       else Some s2);
                Some (s3\<lparr>bl_flash := FLASH_TxData R (ExtractAddr - SPI_FLASH_BASE) (replicate 8 0) (bl_flash s3)\<rparr>)
              }
         else Some s1)"

section \<open>Booting\<close>

text \<open>Both certificate checks of a try, and the tries.\<close>

definition certificate_checks :: "'h BootRom \<Rightarrow> nat \<Rightarrow> 'h Boot \<Rightarrow> (u8 \<times> 'h Boot) option" where
  "certificate_checks R ImgIndex s =
     do {
       (ret, s1) \<leftarrow> BOOT_CertificateCheck R (Certs s ! ImgIndex) ImgIndex s;
       if ret = 0 \<and> CONFIG_IMG1_PQC_SBOOT R then
         do { (ret1, s2) \<leftarrow> BOOT_CertificateCheck_PQC R (Manifests s1 ! ImgIndex) (Certs s1 ! ImgIndex) ImgIndex s1;
              Some (of_int ret1, s2) }
       else Some (ret, s1)
     }"

fun boot_tries :: "'h BootRom \<Rightarrow> nat \<Rightarrow> nat \<Rightarrow> 'h Boot \<Rightarrow> (nat option \<times> 'h Boot) option" where
  "boot_tries R 0 ImgIndex s = Some (None, s)"
| "boot_tries R (Suc n) ImgIndex s =
     do {
       (ret, s1) \<leftarrow> certificate_checks R ImgIndex s;
       if ret \<noteq> 0 then boot_tries R n ((ImgIndex + 1) mod 2) s1
       else do {
         (ok, s2) \<leftarrow> BOOT_OTA_LoadIMGAll R ImgIndex s1;
         if ok then Some (Some ImgIndex, s2)
         else boot_tries R n ((ImgIndex + 1) mod 2) s2
       }
     }"

definition BOOT_OTA_IMG :: "'h BootRom \<Rightarrow> 'h Boot \<Rightarrow> (nat option \<times> 'h Boot) option" where
  "BOOT_OTA_IMG R s =
     do {
       s1 \<leftarrow> (if CONFIG_COMPRESS_OTA_IMG R then BOOT_OTA_Extract R (BOOT_OTA_Region_Init s)
               else Some (BOOT_OTA_Region_Init s));
       let (ImgIndex, s2) = BOOT_OTA_SlotSelect R s1;
       (r, s3) \<leftarrow> boot_tries R (ValidIMGNum s2) ImgIndex s2;
       case r of
         None \<Rightarrow> Some (None, BOOT_Validate_Fail_Stuck s3)
       | Some i \<Rightarrow> Some (Some i, s3)
     }"

section \<open>What the boot loader keeps\<close>

lemma remap_image_hw: "\<exists>h. remap_image R i a p s = s\<lparr>hw := h\<rparr>"
  by (auto simp: remap_image_def BOOT_OTFCheck_def Let_def)

lemma remap_image_fields [simp]:
  "keeps_slots s0 (remap_image R i a p s) = keeps_slots s0 s"
  "SecureBootEn (remap_image R i a p s) = SecureBootEn s"
  "SecureBootEn_PQC (remap_image R i a p s) = SecureBootEn_PQC s"
  "bl_flash (remap_image R i a p s) = bl_flash s"
  using remap_image_hw [of R i a p s] by auto

lemma BOOT_RSIPIvSet_fields [simp]:
  "keeps_slots s0 (BOOT_RSIPIvSet R m i s) = keeps_slots s0 s"
  "SecureBootEn (BOOT_RSIPIvSet R m i s) = SecureBootEn s"
  "SecureBootEn_PQC (BOOT_RSIPIvSet R m i s) = SecureBootEn_PQC s"
  "bl_flash (BOOT_RSIPIvSet R m i s) = bl_flash s"
  by (simp_all add: BOOT_RSIPIvSet_def)

lemma clear_images_keeps [simp]: "keeps_slots s0 (clear_images infos s) = keeps_slots s0 s"
  using clear_images_ram [of s infos] by (auto simp: only_ram_def)

lemma validate_image_keeps: "validate_image R i infos s = Some (ok, s') \<Longrightarrow> keeps_slots s s'"
  by (auto simp: validate_image_def Let_def split: if_splits Option.bind_splits
      dest!: BOOT_SignatureCheck_ram [THEN only_ram_keeps] BOOT_SignatureCheck_PQC_keeps)
    (blast intro: keeps_slots_trans)+

lemma length_LoadSubImage: "BOOT_LoadSubImage R a n s = (True, infos, s') \<Longrightarrow> length infos = n"
proof (induction n arbitrary: a s infos s')
  case (Suc n)
  from Suc.prems show ?case
    by (auto simp: Let_def split: if_splits prod.splits dest!: Suc.IH)
qed simp

lemma LoadIMGAll_cases:
  assumes "BOOT_OTA_LoadIMGAll R i s = Some (ok, s')"
  shows "keeps_slots s s'"
    and "ok \<Longrightarrow> \<exists>infos s1. 9 \<le> length infos \<and> keeps_slots s s1 \<and> validate_image R i infos s1 = Some (True, s')"
proof -
  define s1 where "s1 = remap_image R 1 (km0_flash_text_start R - 0x20)
    (region_img2 s ! i + BOOT_OTA_GetManifestSize (Manifests s ! i)) (BOOT_RSIPIvSet R (Manifests s ! i) 1 s)"
  obtain ok0 km0 s2 where l0: "BOOT_LoadSubImage R (km0_flash_text_start R - 0x20) 4 s1 = (ok0, km0, s2)"
    by (metis prod_cases3)
  have k2: "keeps_slots s s2"
    by (rule keeps_slots_trans [OF _ only_ram_keeps [OF BOOT_LoadSubImage_ram [OF l0]]]) (simp add: s1_def)
  define p where "p = region_img2 s ! i + BOOT_OTA_GetManifestSize (Manifests s ! i) +
    (total_len km0 + Len (padding_info (km0_flash_text_start R - 0x20) (total_len km0)))"
  define s3 where "s3 = remap_image R 2 (km4_flash_text_start R - 0x20) p s2"
  obtain ok1 km4 s4 where l1: "BOOT_LoadSubImage R (km4_flash_text_start R - 0x20) 4 s3 = (ok1, km4, s4)"
    by (metis prod_cases3)
  have "keeps_slots s s3" using k2 by (simp add: s3_def)
  then have k4: "keeps_slots s s4"
    using only_ram_keeps [OF BOOT_LoadSubImage_ram [OF l1]] by (rule keeps_slots_trans)
  note eq = assms [unfolded BOOT_OTA_LoadIMGAll_def Let_def, folded s1_def, unfolded l0 prod.case,
      folded p_def, folded s3_def, unfolded l1 prod.case]
  have "keeps_slots s s' \<and> (ok \<longrightarrow> (\<exists>infos s1. 9 \<le> length infos \<and> keeps_slots s s1 \<and>
      validate_image R i infos s1 = Some (True, s')))"
  proof (cases "ok0 \<and> ok1")
    case False
    then show ?thesis using eq k2 k4 by (auto split: if_splits)
  next
    case True
    let ?d = "if CONFIG_TRUSTZONE_EN R then BOOT_DecRDPImg R (p + total_len km4) (RsipIV (Manifests s ! i)) s4
      else Some (True, [], s4)"
    obtain ok2 img3 s5 where d: "?d = Some (ok2, img3, s5)"
      and v: "(if \<not> ok2 then Some (False, s5) else validate_image R i
        (km0 @ padding_info (km0_flash_text_start R - 0x20) (total_len km0) # km4 @ img3) s5) = Some (ok, s')"
      using eq True by (cases ?d) auto
    have k5: "keeps_slots s s5"
      using d k4 by (auto split: if_splits intro: keeps_then_ram [OF k4 BOOT_DecRDPImg_ram])
    have "length km0 = 4" "length km4 = 4"
      using True l0 l1 by (auto dest: length_LoadSubImage)
    then have l: "9 \<le> length (km0 @ padding_info (km0_flash_text_start R - 0x20) (total_len km0) # km4 @ img3)"
      by simp
    show ?thesis
    proof (cases ok2)
      case True
      with v have val: "validate_image R i
          (km0 @ padding_info (km0_flash_text_start R - 0x20) (total_len km0) # km4 @ img3) s5 = Some (ok, s')"
        by simp
      have "keeps_slots s s'" by (rule keeps_slots_trans [OF k5 validate_image_keeps [OF val]])
      moreover have "ok \<Longrightarrow> validate_image R i
          (km0 @ padding_info (km0_flash_text_start R - 0x20) (total_len km0) # km4 @ img3) s5 = Some (True, s')"
        using val by simp
      ultimately show ?thesis using l k5 by metis
    next
      case False
      with v k5 show ?thesis by simp
    qed
  qed
  then show "keeps_slots s s'"
    and "ok \<Longrightarrow> \<exists>infos s1. 9 \<le> length infos \<and> keeps_slots s s1 \<and> validate_image R i infos s1 = Some (True, s')"
    by blast+
qed

section \<open>Secure boot\<close>

text \<open>What is checked of the slot \<open>i\<close> before it is started: the certificate against the key in the
  one-time programmable memory, the manifest against the certificate, the loaded parts against the
  manifest.\<close>

definition slot_authentic :: "'h BootRom \<Rightarrow> 'h Boot \<Rightarrow> nat \<Rightarrow> bool" where
  "slot_authentic R s i \<longleftrightarrow>
     cert_authentic R (Certs s ! i) (Signatures s ! i) \<and>
     manifest_authentic R (Certs s ! i) (Manifests s ! i) \<and>
     (\<exists>infos. 9 \<le> length infos \<and>
       SBOOT_Validate_ImgHash R (mHashAlg (Manifests s ! i)) (ImgHash (Manifests s ! i))
         (sub_images R s infos) = 0)"

lemma validate_image_pass:
  assumes "rom_codes R" and "SecureBootEn s" and "validate_image R i infos s = Some (True, s')"
  shows "manifest_authentic R (Certs s ! i) (Manifests s ! i) \<and>
    SBOOT_Validate_ImgHash R (mHashAlg (Manifests s ! i)) (ImgHash (Manifests s ! i)) (sub_images R s' infos) = 0"
proof -
  let ?m = "Manifests s ! i" and ?c = "Certs s ! i"
  obtain ret s1 where sc: "BOOT_SignatureCheck R ?m infos ?c 0 s = Some (ret, s1)"
    using assms(3) by (auto simp: validate_image_def Let_def split: Option.bind_splits)
  have ret: "ret = 0" using assms(3) sc by (auto simp: validate_image_def Let_def split: if_splits)
  have auth: "manifest_authentic R ?c ?m" "s1 = s"
    using BOOT_SignatureCheck_pass [OF assms(1,2)] sc ret by auto
  have "SecureBootEn s2"
    if "BOOT_SignatureCheck_PQC R ?m ?c i 1 s = Some (ret1, s2)" for ret1 s2
    using BOOT_SignatureCheck_PQC_keeps [OF that] assms(2) by (simp add: keeps_slots_def)
  then show ?thesis
    using assms(3) sc ret auth assms(1,2)
    by (auto simp: validate_image_def Let_def split: if_splits Option.bind_splits)
qed

lemma keeps_slotsD:
  assumes "keeps_slots s s'"
  shows "bl_flash s' = bl_flash s" "Certs s' = Certs s" "Manifests s' = Manifests s"
    "Signatures s' = Signatures s" "Vers s' = Vers s" "ValidIMGNum s' = ValidIMGNum s"
    "region_cert s' = region_cert s" "region_img2 s' = region_img2 s"
    "SecureBootEn s \<Longrightarrow> SecureBootEn s'"
  using assms by (simp_all add: keeps_slots_def)

lemma LoadIMGAll_authentic:
  assumes "rom_codes R" and "SecureBootEn s" and "cert_authentic R (Certs s ! i) (Signatures s ! i)"
    and "BOOT_OTA_LoadIMGAll R i s = Some (True, s')"
  shows "slot_authentic R s' i"
proof -
  obtain infos s1 where l: "9 \<le> length infos" "keeps_slots s s1"
    and v: "validate_image R i infos s1 = Some (True, s')"
    using LoadIMGAll_cases(2) [OF assms(4)] by blast
  note k = keeps_slotsD [OF l(2)] keeps_slotsD [OF validate_image_keeps [OF v]]
  have "SecureBootEn s1" using k assms(2) by simp
  from validate_image_pass [OF assms(1) this v] l(1) assms(3) k
  show ?thesis by (auto simp: slot_authentic_def)
qed

lemma certificate_checks_keeps: "certificate_checks R i s = Some (ret, s') \<Longrightarrow> keeps_slots s s'"
  by (auto simp: certificate_checks_def split: Option.bind_splits if_splits
      dest!: BOOT_CertificateCheck_keeps BOOT_CertificateCheck_PQC_keeps elim: keeps_slots_trans)

lemma certificate_checks_pass:
  assumes "sboot_on R" and "rom_codes R" and "certificate_checks R i s = Some (0, s')"
  shows "SecureBootEn s' \<and> cert_authentic R (Certs s ! i) (Signatures s ! i)"
proof -
  obtain s1 where c: "BOOT_CertificateCheck R (Certs s ! i) i s = Some (0, s1)" "keeps_slots s1 s'"
    using assms(3) by (auto simp: certificate_checks_def split: Option.bind_splits if_splits
        dest!: BOOT_CertificateCheck_PQC_keeps)
  with BOOT_CertificateCheck_pass [OF assms(1,2) c(1)] show ?thesis
    by (auto simp: keeps_slots_def)
qed

lemma boot_tries_authentic:
  assumes "sboot_on R" and "rom_codes R" and "boot_tries R n i s = Some (Some j, s')" and "i < 2"
  shows "keeps_slots s s' \<and> j < 2 \<and> (n = 1 \<longrightarrow> j = i) \<and> slot_authentic R s' j"
  using assms(3,4)
proof (induction n arbitrary: i s)
  case (Suc n)
  obtain ret s1 where c: "certificate_checks R i s = Some (ret, s1)"
    using Suc.prems by (auto split: Option.bind_splits)
  note k1 = certificate_checks_keeps [OF c]
  have i2: "(i + 1) mod 2 < 2" by simp
  have again: "keeps_slots s s' \<and> j < 2 \<and> (Suc n = 1 \<longrightarrow> j = i) \<and> slot_authentic R s' j"
    if "keeps_slots s s2" "boot_tries R n ((i + 1) mod 2) s2 = Some (Some j, s')" for s2
    using Suc.IH [OF that(2) i2] that keeps_slots_trans by (cases n) auto
  show ?case
  proof (cases "ret = 0")
    case False
    with Suc.prems c k1 show ?thesis by (intro again [of s1]) auto
  next
    case True
    obtain ok s2 where l: "BOOT_OTA_LoadIMGAll R i s1 = Some (ok, s2)"
      using Suc.prems c True by (auto split: Option.bind_splits)
    have k2: "keeps_slots s s2" using keeps_slots_trans [OF k1 LoadIMGAll_cases(1) [OF l]] .
    show ?thesis
    proof (cases ok)
      case False
      with Suc.prems c l True k2 show ?thesis by (intro again [of s2]) auto
    next
      case ok: True
      have a: "SecureBootEn s1" "cert_authentic R (Certs s1 ! i) (Signatures s1 ! i)"
        using certificate_checks_pass [OF assms(1,2)] c True keeps_slotsD [OF k1] by auto
      have "j = i \<and> s' = s2" using Suc.prems c l True ok by auto
      with LoadIMGAll_authentic [OF assms(2) a] l ok k2 Suc.prems(2) show ?thesis by simp
    qed
  qed
qed simp

section \<open>What the slots hold\<close>

definition slot_base :: "nat \<Rightarrow> u32" where
  "slot_base i = (if i = 0 then 0x14000 else 0x214000)"

definition slot_cert :: "memory \<Rightarrow> nat \<Rightarrow> Certificate_TypeDef" where
  "slot_cert f i = Certificate_of (mem_read f (slot_base i) sizeof_Certificate)"

definition slot_img2 :: "memory \<Rightarrow> nat \<Rightarrow> u32" where
  "slot_img2 f i = slot_base i + (if 2 \<le> cVer (slot_cert f i) then 0x2000 else 0x1000)"

definition slot_manifest :: "memory \<Rightarrow> nat \<Rightarrow> Manifest_TypeDef" where
  "slot_manifest f i = Manifest_of (mem_read f (slot_img2 f i) sizeof_Manifest)"

definition slot_signature :: "memory \<Rightarrow> nat \<Rightarrow> u8 list" where
  "slot_signature f i = mem_read f (slot_base i + TableSize (slot_cert f i)) 144"

definition slot_valid :: "memory \<Rightarrow> nat \<Rightarrow> bool" where
  "slot_valid f i \<longleftrightarrow> cPattern (slot_cert f i) = APP_IMAGE_PATTERN"

definition slot_version :: "memory \<Rightarrow> nat \<Rightarrow> int" where
  "slot_version f i =
     (if slot_valid f i then full_version (MajorKeyVer (slot_cert f i)) (MinorKeyVer (slot_cert f i)) else - 1)"

definition boot_wf :: "'h Boot \<Rightarrow> bool" where
  "boot_wf s \<longleftrightarrow> length (Certs s) = 2 \<and> length (Manifests s) = 2 \<and> length (Signatures s) = 2 \<and>
     length (Vers s) = 2"

definition regions_set :: "'h Boot \<Rightarrow> bool" where
  "regions_set s \<longleftrightarrow>
     region_cert s = [SPI_FLASH_BASE + 0x14000, SPI_FLASH_BASE + 0x214000] \<and>
     region_img2 s = [SPI_FLASH_BASE + 0x15000, SPI_FLASH_BASE + 0x215000]"

lemma bus_read_updates [simp]:
  "bus_read R (s\<lparr>Certs := c\<rparr>) a n = bus_read R s a n" "bus_read R (s\<lparr>Manifests := m\<rparr>) a n = bus_read R s a n"
  "bus_read R (s\<lparr>region_img2 := r\<rparr>) a n = bus_read R s a n" "bus_read R (s\<lparr>Vers := v\<rparr>) a n = bus_read R s a n"
  by (simp_all add: bus_read_def bus_def mem_read_def)

text \<open>
  The flash as the processor sees it through the RSIP. Addresses below \<open>0x0C000000\<close> are not remapped as
  long as only regions from there on have been set up; a region that has just been set up maps its
  addresses to the flash from the given physical address on.
\<close>

locale flash_view =
  fixes R :: "'h BootRom" and hw_ok :: "'h \<Rightarrow> bool"
  assumes plain: "hw_ok h \<Longrightarrow> SPI_FLASH_BASE \<le> a \<Longrightarrow> a < 0x0C000000 \<Longrightarrow> xip R h f a = f (a - SPI_FLASH_BASE)"
    and remapped: "hw_ok h \<Longrightarrow> 0x0C000000 \<le> lo \<Longrightarrow> lo \<le> a \<Longrightarrow> a \<le> hi \<Longrightarrow>
      xip R (RSIP_MMU_Cmd R i (RSIP_MMU_Config R i lo hi p h)) f a = f (a - lo + p - SPI_FLASH_BASE)"
    and remap_ok: "hw_ok h \<Longrightarrow> 0x0C000000 \<le> lo \<Longrightarrow>
      hw_ok (RSIP_MMU_Cmd R i (RSIP_MMU_Config R i lo hi p h))"
    and rand_ok: "hw_ok h \<Longrightarrow> hw_ok (snd (rom_rand R h))"
begin

lemma direct_read:
  assumes "hw_ok (hw s)" and "unat a + n \<le> 0x4000000"
  shows "bus_read R s (SPI_FLASH_BASE + a) n = mem_read (bl_flash s) a n"
proof (rule nth_equalityI)
  fix i assume "i < length (bus_read R s (SPI_FLASH_BASE + a) n)"
  then have i: "i < n" by (simp add: bus_read_def)
  have ai: "unat (a + of_nat i) = unat a + i"
    using assms(2) i by (intro unat_add_of_nat_no_wrap) linarith
  have "unat (SPI_FLASH_BASE + (a + of_nat i)) = 134217728 + (unat a + i)"
    using ai assms(2) i by (subst unat_add_no_wrap) auto
  then have u: "unat (SPI_FLASH_BASE + a + of_nat i) = 134217728 + (unat a + i)"
    by (simp only: add.assoc)
  then have "SPI_FLASH_BASE \<le> SPI_FLASH_BASE + a + of_nat i" "SPI_FLASH_BASE + a + of_nat i < 0x0C000000"
    "SPI_FLASH_BASE + a + of_nat i \<le> 0x0FFFFFFF"
    using assms(2) i unfolding word_le_nat_alt word_less_nat_alt u by simp_all
  then show "bus_read R s (SPI_FLASH_BASE + a) n ! i = mem_read (bl_flash s) a n ! i"
    using i plain [OF assms(1)] by (simp add: bus_read_def bus_def IS_FLASH_ADDR_def)
qed (simp add: bus_read_def)

lemma slot_load_facts:
  assumes i: "i < 2" and wf: "boot_wf s" "length (region_img2 s) = 2" and ok: "hw_ok (hw s)"
    and rc: "region_cert s ! i = SPI_FLASH_BASE + slot_base i"
    and ri: "region_img2 s ! i = SPI_FLASH_BASE + slot_base i + 0x1000"
  defines "s' \<equiv> slot_load R i s" and "f \<equiv> bl_flash s"
  shows "boot_wf s'" and "length (region_img2 s') = 2" and "region_cert s' = region_cert s"
    and "hw s' = hw s" and "bl_flash s' = f" and "SecureBootEn s' = SecureBootEn s"
    and "SecureBootEn_PQC s' = SecureBootEn_PQC s"
    and "Certs s' ! i = slot_cert f i" and "Vers s' ! i = slot_version f i"
    and "slot_valid f i \<Longrightarrow> region_img2 s' ! i = SPI_FLASH_BASE + slot_img2 f i"
    and "slot_valid f i \<Longrightarrow> Manifests s' ! i = slot_manifest f i"
    and "slot_valid f i \<Longrightarrow> unat (TableSize (slot_cert f i)) \<le> sizeof_Certificate \<Longrightarrow>
      Signatures s' ! i = slot_signature f i"
    and "j \<noteq> i \<Longrightarrow> region_img2 s' ! j = region_img2 s ! j \<and> Certs s' ! j = Certs s ! j \<and>
      Manifests s' ! j = Manifests s ! j \<and> Signatures s' ! j = Signatures s ! j \<and> Vers s' ! j = Vers s ! j"
proof -
  have b: "unat (slot_base i) \<le> 0x214000" by (simp add: slot_base_def)
  have c: "Certificate_of (bus_read R s (SPI_FLASH_BASE + slot_base i) sizeof_Certificate) = slot_cert f i"
    unfolding f_def using b by (subst direct_read [OF ok]) (simp_all add: sizeof_Certificate_def slot_cert_def)
  have img: "SPI_FLASH_BASE + slot_base i + (if 2 \<le> cVer (slot_cert f i) then 0x2000 else 0x1000) =
      SPI_FLASH_BASE + slot_img2 f i"
    by (simp add: slot_img2_def)
  have "unat (slot_img2 f i) \<le> 0x216000" by (simp add: slot_img2_def slot_base_def)
  then have m: "bus_read R s (SPI_FLASH_BASE + slot_img2 f i) sizeof_Manifest =
      mem_read f (slot_img2 f i) sizeof_Manifest"
    unfolding f_def by (intro direct_read [OF ok]) (simp add: sizeof_Manifest_def)
  have load: "s' = (if slot_valid f i then
      s\<lparr>Certs := (Certs s)[i := slot_cert f i], region_img2 := (region_img2 s)[i := SPI_FLASH_BASE + slot_img2 f i],
        Signatures := (Signatures s)[i := bus_read R s (SPI_FLASH_BASE + slot_base i + TableSize (slot_cert f i)) 144],
        Manifests := (Manifests s)[i := slot_manifest f i], Vers := (Vers s)[i := slot_version f i]\<rparr>
      else s\<lparr>Certs := (Certs s)[i := slot_cert f i], Vers := (Vers s)[i := slot_version f i]\<rparr>)"
  proof (cases "slot_valid f i")
    case False
    then show ?thesis
      by (simp add: s'_def slot_load_def rc c Let_def slot_version_def slot_valid_def)
  next
    case True
    have id: "(region_img2 s)[i := SPI_FLASH_BASE + slot_base i + 0x1000] = region_img2 s"
      using ri by (metis list_update_id)
    show ?thesis
    proof (cases "2 \<le> cVer (slot_cert f i)")
      case v: True
      have eq: "SPI_FLASH_BASE + slot_img2 f i = SPI_FLASH_BASE + slot_base i + 0x2000"
        using v by (simp add: slot_img2_def)
      show ?thesis
        unfolding s'_def slot_load_def Let_def rc c using True v wf i m
        by (simp add: slot_valid_def slot_version_def slot_manifest_def eq rc)
    next
      case v: False
      have eq: "SPI_FLASH_BASE + slot_img2 f i = SPI_FLASH_BASE + slot_base i + 0x1000"
        using v by (simp add: slot_img2_def)
      show ?thesis
        unfolding s'_def slot_load_def Let_def rc c using True v m ri
        by (simp add: slot_valid_def slot_version_def slot_manifest_def eq id [simplified] rc)
    qed
  qed
  show "boot_wf s'" "length (region_img2 s') = 2" "region_cert s' = region_cert s"
    "hw s' = hw s" "bl_flash s' = f" "SecureBootEn s' = SecureBootEn s"
    "SecureBootEn_PQC s' = SecureBootEn_PQC s"
    "Certs s' ! i = slot_cert f i" "Vers s' ! i = slot_version f i"
    using wf i by (simp_all add: load boot_wf_def f_def)
  show "region_img2 s' ! i = SPI_FLASH_BASE + slot_img2 f i" "Manifests s' ! i = slot_manifest f i"
    if "slot_valid f i" using wf i that by (simp_all add: load boot_wf_def)
  show "Signatures s' ! i = slot_signature f i"
    if "slot_valid f i" "unat (TableSize (slot_cert f i)) \<le> sizeof_Certificate"
  proof -
    have "unat (slot_base i + TableSize (slot_cert f i)) \<le> 0x214000 + 356"
      using that(2) b by (subst unat_add_no_wrap) (simp_all add: sizeof_Certificate_def)
    then have "bus_read R s (SPI_FLASH_BASE + (slot_base i + TableSize (slot_cert f i))) 144 = slot_signature f i"
      unfolding slot_signature_def f_def by (intro direct_read [OF ok]) simp
    then show ?thesis using wf i that(1) by (simp add: load boot_wf_def add.assoc)
  qed
  show "region_img2 s' ! j = region_img2 s ! j \<and> Certs s' ! j = Certs s ! j \<and>
      Manifests s' ! j = Manifests s ! j \<and> Signatures s' ! j = Signatures s ! j \<and> Vers s' ! j = Vers s ! j"
    if "j \<noteq> i" using that by (simp add: load)
qed

lemma slot_select:
  assumes wf: "boot_wf s" "regions_set s" and ok: "hw_ok (hw s)" and sel: "BOOT_OTA_SlotSelect R s = (i, s')"
  defines "f \<equiv> bl_flash s"
  shows "i = (if slot_version f 1 \<le> slot_version f 0 then 0 else 1)" and "bl_flash s' = f"
    and "hw s' = hw s" and "SecureBootEn s' = SecureBootEn s" and "SecureBootEn_PQC s' = SecureBootEn_PQC s"
    and "Vers s' ! 0 = slot_version f 0" and "Vers s' ! 1 = slot_version f 1"
    and "ValidIMGNum s' = valid_images (BOOT_OTA_GetCertRollbackVer R) [slot_version f 0, slot_version f 1]"
    and "j < 2 \<Longrightarrow> Certs s' ! j = slot_cert f j"
    and "j < 2 \<Longrightarrow> slot_valid f j \<Longrightarrow> region_img2 s' ! j = SPI_FLASH_BASE + slot_img2 f j"
    and "j < 2 \<Longrightarrow> slot_valid f j \<Longrightarrow> Manifests s' ! j = slot_manifest f j"
    and "j < 2 \<Longrightarrow> slot_valid f j \<Longrightarrow> unat (TableSize (slot_cert f j)) \<le> sizeof_Certificate \<Longrightarrow>
      Signatures s' ! j = slot_signature f j"
proof -
  define s0 where "s0 = slot_load R 0 s"
  define s1 where "s1 = slot_load R 1 s0"
  have l0: "0 < (2 :: nat)" and l1: "1 < (2 :: nat)" by simp_all
  have r: "length (region_img2 s) = 2" "region_cert s ! 0 = SPI_FLASH_BASE + slot_base 0"
    "region_img2 s ! 0 = SPI_FLASH_BASE + slot_base 0 + 0x1000"
    "region_cert s ! 1 = SPI_FLASH_BASE + slot_base 1" "region_img2 s ! 1 = SPI_FLASH_BASE + slot_base 1 + 0x1000"
    using wf(2) by (simp_all add: regions_set_def slot_base_def)
  note f0 = slot_load_facts [OF l0 wf(1) r(1) ok r(2,3), folded s0_def f_def]
  have r1: "length (region_img2 s0) = 2" "region_cert s0 ! 1 = SPI_FLASH_BASE + slot_base 1"
    "region_img2 s0 ! 1 = SPI_FLASH_BASE + slot_base 1 + 0x1000" "hw_ok (hw s0)"
    using r(4,5) f0(2,3,4) f0(13) [of 1] ok by simp_all
  note f1 = slot_load_facts [OF l1 f0(1) r1(1,4,2,3), folded s1_def, unfolded f0(5)]
  have eq: "i = (if Vers s1 ! 1 \<le> Vers s1 ! 0 then 0 else 1)"
    "s' = s1\<lparr>ValidIMGNum := valid_images (BOOT_OTA_GetCertRollbackVer R) (Vers s1)\<rparr>"
    using sel by (auto simp: BOOT_OTA_SlotSelect_def Let_def s0_def s1_def split: if_splits)
  have k: "region_img2 s1 ! 0 = region_img2 s0 ! 0" "Certs s1 ! 0 = Certs s0 ! 0"
    "Manifests s1 ! 0 = Manifests s0 ! 0" "Signatures s1 ! 0 = Signatures s0 ! 0" "Vers s1 ! 0 = Vers s0 ! 0"
    using f1(13) [of 0] by simp_all
  have j01: "j = 0 \<or> j = 1" if "j < 2" using that by auto
  show "i = (if slot_version f 1 \<le> slot_version f 0 then 0 else 1)" "bl_flash s' = f" "hw s' = hw s"
    "SecureBootEn s' = SecureBootEn s" "SecureBootEn_PQC s' = SecureBootEn_PQC s"
    "Vers s' ! 0 = slot_version f 0" "Vers s' ! 1 = slot_version f 1"
    "ValidIMGNum s' = valid_images (BOOT_OTA_GetCertRollbackVer R) [slot_version f 0, slot_version f 1]"
    by (simp_all add: eq k f0(4-9) f1(4-9) f1(9) [simplified] valid_images_def)
  show "Certs s' ! j = slot_cert f j" if "j < 2" using j01 [OF that] k f0(8) f1(8) by (auto simp: eq)
  show "region_img2 s' ! j = SPI_FLASH_BASE + slot_img2 f j" "Manifests s' ! j = slot_manifest f j"
    if "j < 2" "slot_valid f j"
    using j01 [OF that(1)] that(2) k f0(10,11) f1(10,11) by (auto simp: eq)
  show "Signatures s' ! j = slot_signature f j"
    if "j < 2" "slot_valid f j" "unat (TableSize (slot_cert f j)) \<le> sizeof_Certificate"
    using j01 [OF that(1)] that(2,3) k f0(12) f1(12) by (auto simp: eq)
qed

end

lemma Region_Init_facts:
  "regions_set (BOOT_OTA_Region_Init s)" "boot_wf (BOOT_OTA_Region_Init s) = boot_wf s"
  "hw (BOOT_OTA_Region_Init s) = hw s" "bl_flash (BOOT_OTA_Region_Init s) = bl_flash s"
  "SecureBootEn (BOOT_OTA_Region_Init s) = SecureBootEn s"
  "SecureBootEn_PQC (BOOT_OTA_Region_Init s) = SecureBootEn_PQC s"
  by (simp_all add: BOOT_OTA_Region_Init_def regions_set_def boot_wf_def flash_get_layout_info_def Flash_Layout_def
      IMG_BOOT_def IMG_APP_OTA1_def IMG_APP_OTA2_def IMG_BOOT_OTA2_def Let_def)

section \<open>What the extraction keeps\<close>

text \<open>The globals the extraction must not disturb.\<close>

definition boot_ready :: "('h \<Rightarrow> bool) \<Rightarrow> 'h Boot \<Rightarrow> bool" where
  "boot_ready hw_ok s \<longleftrightarrow> boot_wf s \<and> regions_set s \<and> hw_ok (hw s)"

lemma boot_ready_updates [simp]:
  "boot_ready P (s\<lparr>bl_flash := f\<rparr>) = boot_ready P s" "boot_ready P (s\<lparr>boot_ram := m\<rparr>) = boot_ready P s"
  "boot_ready P (s\<lparr>SecureBootEn := b\<rparr>) = boot_ready P s" "boot_ready P (s\<lparr>ValidIMGNum := n\<rparr>) = boot_ready P s"
  by (simp_all add: boot_ready_def boot_wf_def regions_set_def)

lemma extend_more [simp]:
  "hw (BootLzma.extend l (BootLzma.more s)) = hw s" "Certs (BootLzma.extend l (BootLzma.more s)) = Certs s"
  "Manifests (BootLzma.extend l (BootLzma.more s)) = Manifests s"
  "Signatures (BootLzma.extend l (BootLzma.more s)) = Signatures s"
  "Vers (BootLzma.extend l (BootLzma.more s)) = Vers s"
  "region_cert (BootLzma.extend l (BootLzma.more s)) = region_cert s"
  "region_img2 (BootLzma.extend l (BootLzma.more s)) = region_img2 s"
  "SecureBootEn (BootLzma.extend l (BootLzma.more s)) = SecureBootEn s"
  "SecureBootEn_PQC (BootLzma.extend l (BootLzma.more s)) = SecureBootEn_PQC s"
  "bl_flash (BootLzma.extend l (BootLzma.more s)) = bl_flash l"
  by (cases s, cases l, simp add: BootLzma.defs)+

lemma extract_image_ready: "extract_image R a b e s = Some s' \<Longrightarrow> boot_ready P s \<Longrightarrow> boot_ready P s'"
  by (auto simp: extract_image_def boot_ready_def boot_wf_def regions_set_def split: Option.bind_splits)

lemma Extract_SlotSelect_ready:
  "BOOT_Extract_SlotSelect R s = (i, s') \<Longrightarrow> boot_ready P s \<Longrightarrow>
     boot_ready P s' \<and> bl_flash s' = bl_flash s \<and> SecureBootEn s' = SecureBootEn s \<and>
     SecureBootEn_PQC s' = SecureBootEn_PQC s"
  by (auto simp: BOOT_Extract_SlotSelect_def extract_probe_def extract_other_def Let_def boot_ready_def
      boot_wf_def regions_set_def split: if_splits prod.splits)

context flash_view
begin

lemma Extract_SignatureCheck_ready:
  "BOOT_Extract_SignatureCheck R m infos s = (ret, s') \<Longrightarrow> boot_ready hw_ok s \<Longrightarrow> boot_ready hw_ok s'"
  using rand_ok [of "hw s"]
  by (auto simp: BOOT_Extract_SignatureCheck_def BOOT_SbootEn_Check_def Let_def boot_ready_def
      boot_wf_def regions_set_def split: if_splits prod.splits)

lemma Extract_ready:
  assumes "BOOT_OTA_Extract R s = Some s'" and "boot_ready hw_ok s"
  shows "boot_ready hw_ok s'"
proof -
  obtain i s1 where sel: "BOOT_Extract_SlotSelect R s = (i, s1)" by fastforce
  have r1: "boot_ready hw_ok s1" using Extract_SlotSelect_ready [OF sel assms(2)] by simp
  define info where "info = \<lparr>Addr = region_cert s1 ! i + BOOT_OTA_GetManifestSize (Manifests s1 ! i),
    Len = ImgSize (Manifests s1 ! i)\<rparr>"
  obtain ret s2 where chk: "BOOT_Extract_SignatureCheck R (Manifests s1 ! i) [info] s1 = (ret, s2)" by fastforce
  have r2: "boot_ready hw_ok s2" by (rule Extract_SignatureCheck_ready [OF chk r1])
  show ?thesis
    using assms(1) r1 r2
    by (auto simp: BOOT_OTA_Extract_def sel Let_def chk [unfolded info_def]
        split: if_splits Option.bind_splits prod.splits dest: extract_image_ready)
qed

text \<open>A run that starts a slot, taken apart.\<close>

lemma boot_run:
  assumes "BOOT_OTA_IMG R s = Some (Some i, s')" and "boot_wf s" and "hw_ok (hw s)"
  obtains s1 k s2 where "boot_ready hw_ok s1" and "BOOT_OTA_SlotSelect R s1 = (k, s2)"
    and "boot_tries R (ValidIMGNum s2) k s2 = Some (Some i, s')"
proof -
  have r0: "boot_ready hw_ok (BOOT_OTA_Region_Init s)"
    using assms(2,3) by (simp add: boot_ready_def Region_Init_facts)
  obtain s1 where s1: "(if CONFIG_COMPRESS_OTA_IMG R then BOOT_OTA_Extract R (BOOT_OTA_Region_Init s)
      else Some (BOOT_OTA_Region_Init s)) = Some s1"
    using assms(1) by (auto simp: BOOT_OTA_IMG_def split: Option.bind_splits)
  obtain k s2 where sel: "BOOT_OTA_SlotSelect R s1 = (k, s2)" by fastforce
  have "boot_ready hw_ok s1" using s1 r0 Extract_ready by (auto split: if_splits)
  moreover have "boot_tries R (ValidIMGNum s2) k s2 = Some (Some i, s')"
    using assms(1) sel s1 unfolding BOOT_OTA_IMG_def s1
    by (auto split: Option.bind_splits option.splits)
  ultimately show ?thesis using that sel by blast
qed

end

lemma rollback_nonneg: "0 \<le> BOOT_OTA_GetCertRollbackVer R"
  by (simp add: BOOT_OTA_GetCertRollbackVer_def)

lemma slot_version_valid: "0 \<le> slot_version f i \<Longrightarrow> slot_valid f i"
  by (simp add: slot_version_def split: if_splits)

lemma tried_version:
  assumes "k = (if v1 \<le> v0 then 0 else 1)" and "n = valid_images VN [v0, v1]" and "n \<noteq> 0"
    and "n = 1 \<longrightarrow> i = k" and "i < 2"
  shows "VN \<le> [v0, v1] ! i"
  using assms by (auto simp: valid_images_def less_2_cases_iff split: if_splits)

context flash_view
begin

lemma secure_boot:
  assumes "sboot_on R" and "rom_codes R" and "boot_wf s" and "hw_ok (hw s)"
    and run: "BOOT_OTA_IMG R s = Some (Some i, s')"
  defines "f \<equiv> bl_flash s'"
  shows "i < 2 \<and> slot_valid f i \<and> BOOT_OTA_GetCertRollbackVer R \<le> slot_version f i \<and>
    cert_authentic R (slot_cert f i) (slot_signature f i) \<and>
    manifest_authentic R (slot_cert f i) (slot_manifest f i) \<and>
    (\<exists>infos. 9 \<le> length infos \<and>
      SBOOT_Validate_ImgHash R (mHashAlg (slot_manifest f i)) (ImgHash (slot_manifest f i))
        (sub_images R s' infos) = 0)"
proof -
  obtain s1 k s2 where r: "boot_ready hw_ok s1" and sel: "BOOT_OTA_SlotSelect R s1 = (k, s2)"
    and tries: "boot_tries R (ValidIMGNum s2) k s2 = Some (Some i, s')"
    by (rule boot_run [OF run assms(3,4)])
  have r': "boot_wf s1" "regions_set s1" "hw_ok (hw s1)" using r by (simp_all add: boot_ready_def)
  note ss = slot_select [OF r' sel]
  have k2: "k < 2" using ss(1) by simp
  have t: "keeps_slots s2 s'" "i < 2" "ValidIMGNum s2 = 1 \<longrightarrow> i = k" "slot_authentic R s' i"
    using boot_tries_authentic [OF assms(1,2) tries k2] by simp_all
  note kd = keeps_slotsD [OF t(1)]
  have f: "bl_flash s1 = f" using kd(1) ss(2) by (simp add: f_def)
  have "ValidIMGNum s2 \<noteq> 0" using tries by (metis boot_tries.simps(1) option.distinct(1) option.inject prod.inject)
  then have "BOOT_OTA_GetCertRollbackVer R \<le> [slot_version f 0, slot_version f 1] ! i"
    using tried_version [OF ss(1,8)] t(2,3) f by simp
  then have v: "BOOT_OTA_GetCertRollbackVer R \<le> slot_version f i"
    using t(2) by (auto simp: less_2_cases_iff)
  then have valid: "slot_valid f i"
    using rollback_nonneg [of R] by (intro slot_version_valid) linarith
  have c: "Certs s' ! i = slot_cert f i" "Manifests s' ! i = slot_manifest f i"
    using kd ss(9,11) [of i] t(2) valid f by simp_all
  then have "unat (TableSize (slot_cert f i)) \<le> sizeof_Certificate"
    using t(4) by (auto simp: slot_authentic_def cert_authentic_def split: prod.splits)
  then have "Signatures s' ! i = slot_signature f i"
    using kd ss(12) [of i] t(2) valid f by simp
  then show ?thesis using t(2,4) c v valid by (simp add: slot_authentic_def)
qed

end

end
