(* ===== verification/Boot_Run.thy ===== *)
theory Boot_Run
  imports Boot_Ota
begin

text \<open>
  Runs of the boot loader: which slot it starts, that it starts one when there is one to start, and what
  the extraction of a compressed update leaves behind.
\<close>

section \<open>Booting without secure boot\<close>

text \<open>The chain of image headers from the flash offset \<open>p + d\<close> on: whether all have the pattern, the total
  length, and whether the headers that are read lie in the 16 MB window of the remapping.\<close>

definition part_header :: "memory \<Rightarrow> u32 \<Rightarrow> nat \<Rightarrow> u8 list" where
  "part_header f p d = mem_read f (p + of_nat d) 32"

definition part_len :: "memory \<Rightarrow> u32 \<Rightarrow> nat \<Rightarrow> u32" where
  "part_len f p d = le32 (bytes_at (part_header f p d) 8 4) + IMAGE_HEADER_LEN"

fun parts_ok :: "memory \<Rightarrow> u32 \<Rightarrow> nat \<Rightarrow> nat \<Rightarrow> bool" where
  "parts_ok f p 0 d = True"
| "parts_ok f p (Suc n) d \<longleftrightarrow>
     take 8 (part_header f p d) = APP_IMAGE_PATTERN \<and> parts_ok f p n (d + unat (part_len f p d))"

fun parts_len :: "memory \<Rightarrow> u32 \<Rightarrow> nat \<Rightarrow> nat \<Rightarrow> u32" where
  "parts_len f p 0 d = 0"
| "parts_len f p (Suc n) d = part_len f p d + parts_len f p n (d + unat (part_len f p d))"

fun parts_in :: "memory \<Rightarrow> u32 \<Rightarrow> nat \<Rightarrow> nat \<Rightarrow> bool" where
  "parts_in f p 0 d = True"
| "parts_in f p (Suc n) d \<longleftrightarrow>
     d + 32 \<le> 0xFFFFE0 \<and>
     (take 8 (part_header f p d) = APP_IMAGE_PATTERN \<longrightarrow> parts_in f p n (d + unat (part_len f p d)))"

text \<open>What is recorded of the parts: where each is, in the window of the remapping or in memory, and its
  length.\<close>

fun parts_infos :: "u32 \<Rightarrow> memory \<Rightarrow> u32 \<Rightarrow> nat \<Rightarrow> nat \<Rightarrow> SubImgInfo_TypeDef list" where
  "parts_infos lo f p 0 d = []"
| "parts_infos lo f p (Suc n) d =
     \<lparr>Addr = (if part_len f p d = IMAGE_HEADER_LEN then lo + of_nat d
              else le32 (bytes_at (part_header f p d) 12 4) - IMAGE_HEADER_LEN),
      Len = part_len f p d\<rparr> # parts_infos lo f p n (d + unat (part_len f p d))"

definition slot_km0 :: "memory \<Rightarrow> nat \<Rightarrow> u32" where
  "slot_km0 f i = slot_img2 f i + BOOT_OTA_GetManifestSize (slot_manifest f i)"

definition slot_km4 :: "memory \<Rightarrow> nat \<Rightarrow> u32" where
  "slot_km4 f i =
     (let n = parts_len f (slot_km0 f i) 4 0 in slot_km0 f i + (n + Len (padding_info 0 n)))"

definition slot_loadable :: "memory \<Rightarrow> nat \<Rightarrow> bool" where
  "slot_loadable f i \<longleftrightarrow> parts_ok f (slot_km0 f i) 4 0 \<and> parts_ok f (slot_km4 f i) 4 0"

definition slot_window :: "memory \<Rightarrow> nat \<Rightarrow> bool" where
  "slot_window f i \<longleftrightarrow> parts_in f (slot_km0 f i) 4 0 \<and>
     (parts_ok f (slot_km0 f i) 4 0 \<longrightarrow> parts_in f (slot_km4 f i) 4 0)"

definition slot_infos :: "memory \<Rightarrow> nat \<Rightarrow> SubImgInfo_TypeDef list" where
  "slot_infos f i =
     parts_infos 0x0C000000 f (slot_km0 f i) 4 0 @
     padding_info 0x0C000000 (parts_len f (slot_km0 f i) 4 0) #
     parts_infos 0x0E000000 f (slot_km4 f i) 4 0"

text \<open>The remapping for a slot: the parts of the first processor, and those of the second when the first
  are all there.\<close>

definition slot_hw :: "'h BootRom \<Rightarrow> memory \<Rightarrow> nat \<Rightarrow> 'h \<Rightarrow> 'h" where
  "slot_hw R f i h =
     (let map_to = (\<lambda>k lo p h. RSIP_MMU_Cmd R k (RSIP_MMU_Config R k lo (lo + 0xFFFFE0) (SPI_FLASH_BASE + p) h));
          h1 = map_to 1 0x0C000000 (slot_km0 f i) h
      in if parts_ok f (slot_km0 f i) 4 0 then map_to 2 0x0E000000 (slot_km4 f i) h1 else h1)"

text \<open>The slot that is started: the newer one unless it cannot be loaded, and no slot older than the
  anti-rollback version.\<close>

definition boot_choice :: "int \<Rightarrow> memory \<Rightarrow> nat option" where
  "boot_choice VN f =
     (let k = (if slot_version f 1 \<le> slot_version f 0 then 0 else 1); j = 1 - k
      in if slot_version f k < VN then None
         else if slot_loadable f k then Some k
         else if VN \<le> slot_version f j \<and> slot_loadable f j then Some j
         else None)"

definition plain_map :: "'h BootRom \<Rightarrow> bool" where
  "plain_map R \<longleftrightarrow> \<not> SYSCFG_OTP_RSIPEn R \<and> \<not> CONFIG_TRUSTZONE_EN R \<and>
     km0_flash_text_start R = 0x0C000020 \<and> km4_flash_text_start R = 0x0E000020"

definition plain_boot :: "'h BootRom \<Rightarrow> bool" where
  "plain_boot R \<longleftrightarrow> plain_map R \<and> \<not> SYSCFG_OTP_RMAMode R \<and> \<not> SYSCFG_OTP_SBootEn R \<and>
     \<not> CONFIG_IMG1_PQC_SBOOT R"

text \<open>The image of slot \<open>i\<close> is accepted, whatever is in memory.\<close>

definition passes :: "'h BootRom \<Rightarrow> nat \<Rightarrow> 'h Boot \<Rightarrow> bool" where
  "passes R i s \<longleftrightarrow>
     (\<forall>h m infos. validate_image R i infos (s\<lparr>hw := h, boot_ram := m\<rparr>) = Some (True, s\<lparr>hw := h, boot_ram := m\<rparr>))"

definition boot_plain_state :: "'h Boot \<Rightarrow> bool" where
  "boot_plain_state s \<longleftrightarrow> \<not> SecureBootEn s \<and> \<not> SecureBootEn_PQC s"

text \<open>The state the tries start from, and keep.\<close>

definition tries_ready :: "('h \<Rightarrow> bool) \<Rightarrow> memory \<Rightarrow> nat \<Rightarrow> 'h Boot \<Rightarrow> bool" where
  "tries_ready hw_ok f i s \<longleftrightarrow> boot_plain_state s \<and> hw_ok (hw s) \<and> bl_flash s = f \<and>
     region_img2 s ! i = SPI_FLASH_BASE + slot_img2 f i \<and> Manifests s ! i = slot_manifest f i"

lemma window_read:
  assumes "\<And>a. lo \<le> a \<Longrightarrow> a \<le> lo + 0xFFFFE0 \<Longrightarrow> xip R (hw s) (bl_flash s) a = bl_flash s (a - lo + p)"
    and "d + n \<le> 0xFFFFE1" and "0x0C000000 \<le> lo" and "lo \<le> 0x0E000000"
  shows "bus_read R s (lo + of_nat d) n = mem_read (bl_flash s) (p + of_nat d) n"
proof (rule nth_equalityI)
  fix i assume "i < length (bus_read R s (lo + of_nat d) n)"
  then have i: "i < n" by (simp add: bus_read_def)
  let ?a = "lo + of_nat (d + i)"
  have l: "0x0C000000 \<le> unat lo" "unat lo \<le> 0x0E000000"
    using assms(3,4) by (simp_all add: word_le_nat_alt)
  have a: "unat ?a = unat lo + (d + i)"
    using l assms(2) i by (intro unat_add_of_nat_no_wrap) linarith
  have h: "unat (lo + 0xFFFFE0) = unat lo + 0xFFFFE0"
    using l by (subst unat_add_no_wrap) auto
  have "lo \<le> ?a" "?a \<le> lo + 0xFFFFE0" "SPI_FLASH_BASE \<le> ?a" "?a \<le> 0x0FFFFFFF"
    unfolding word_le_nat_alt a h using l assms(2) i by simp_all
  then have "bus R s ?a = bl_flash s (p + of_nat (d + i))"
    using assms(1) [of ?a] by (simp add: bus_def IS_FLASH_ADDR_def add.commute)
  then show "bus_read R s (lo + of_nat d) n ! i = mem_read (bl_flash s) (p + of_nat d) n ! i"
    using i by (simp add: bus_read_def add.assoc)
qed (simp add: bus_read_def)

lemma parts_infos_len: "total_len (parts_infos lo f p n d) = parts_len f p n d"
  by (induction n arbitrary: d) (simp_all add: total_len_def)

lemma length_parts_infos [simp]: "length (parts_infos lo f p n d) = n"
  by (induction n arbitrary: d) simp_all

lemma LoadSubImage_parts:
  assumes "\<And>a. lo \<le> a \<Longrightarrow> a \<le> lo + 0xFFFFE0 \<Longrightarrow> xip R (hw s) (bl_flash s) a = bl_flash s (a - lo + p)"
    and "0x0C000000 \<le> lo" and "lo \<le> 0x0E000000" and "parts_in (bl_flash s) p n d"
  shows "\<exists>infos s'. BOOT_LoadSubImage R (lo + of_nat d) n s = (parts_ok (bl_flash s) p n d, infos, s') \<and>
    (parts_ok (bl_flash s) p n d \<longrightarrow> infos = parts_infos lo (bl_flash s) p n d)"
  using assms(1,4)
proof (induction n arbitrary: d s)
  case 0
  then show ?case by simp
next
  case (Suc n)
  let ?h = "part_header (bl_flash s) p d" and ?L = "part_len (bl_flash s) p d"
  have h: "bus_read R s (lo + of_nat d) 32 = ?h"
    using Suc.prems(2) unfolding part_header_def
    by (intro window_read [OF Suc.prems(1) _ assms(2,3)]) simp_all
  show ?case
  proof (cases "take 8 ?h = APP_IMAGE_PATTERN")
    case False
    then show ?thesis by (simp add: h)
  next
    case True
    define s1 where "s1 = (if \<not> IS_FLASH_ADDR (le32 (bytes_at ?h 12 4) - IMAGE_HEADER_LEN) \<and> IMAGE_HEADER_LEN < ?L
      then s\<lparr>boot_ram := mem_write (boot_ram s) (le32 (bytes_at ?h 12 4) - IMAGE_HEADER_LEN)
               (bus_read R s (lo + of_nat d) (unat ?L))\<rparr> else s)"
    have s1: "hw s1 = hw s" "bl_flash s1 = bl_flash s" by (simp_all add: s1_def)
    have "\<exists>infos s'. BOOT_LoadSubImage R (lo + of_nat (d + unat ?L)) n s1 =
        (parts_ok (bl_flash s1) p n (d + unat ?L), infos, s') \<and>
        (parts_ok (bl_flash s1) p n (d + unat ?L) \<longrightarrow> infos = parts_infos lo (bl_flash s1) p n (d + unat ?L))"
      using Suc.prems True by (intro Suc.IH) (simp_all add: s1)
    then obtain infos s' where rec: "BOOT_LoadSubImage R (lo + of_nat d + ?L) n s1 =
        (parts_ok (bl_flash s) p n (d + unat ?L), infos, s')"
      "parts_ok (bl_flash s) p n (d + unat ?L) \<longrightarrow> infos = parts_infos lo (bl_flash s) p n (d + unat ?L)"
      by (auto simp: s1 add.assoc)
    have "BOOT_LoadSubImage R (lo + of_nat d) (Suc n) s =
        (parts_ok (bl_flash s) p n (d + unat ?L),
         \<lparr>Addr = (if ?L = IMAGE_HEADER_LEN then lo + of_nat d else le32 (bytes_at ?h 12 4) - IMAGE_HEADER_LEN), Len = ?L\<rparr> # infos, s')"
      using True rec(1) unfolding BOOT_LoadSubImage.simps Let_def h part_len_def [symmetric] s1_def [symmetric]
      by simp
    then show ?thesis using True rec(2) by auto
  qed
qed

lemma padding_len: "Len (padding_info a n) = Len (padding_info 0 n)"
  by (simp add: padding_info_def)

lemma passes_plain:
  assumes "plain_boot R" and "boot_plain_state s"
  shows "passes R i s"
  using assms by (simp add: passes_def validate_image_def BOOT_SignatureCheck_def plain_boot_def boot_plain_state_def Let_def)

lemma certificate_checks_plain:
  assumes "plain_boot R" and "boot_plain_state s"
  shows "certificate_checks R i s = Some (0, s)"
  using assms by (simp add: certificate_checks_def BOOT_CertificateCheck_def BOOT_SbootEn_Check_def plain_boot_def
      boot_plain_state_def Let_def)

lemma remap_plain_hw:
  assumes "plain_map R"
  shows "remap_image R k lo p s =
    s\<lparr>hw := RSIP_MMU_Cmd R k (RSIP_MMU_Config R k lo (lo + 0xFFFFE0) p (hw s))\<rparr>"
  using assms by (simp add: remap_image_def BOOT_OTFCheck_def plain_map_def Let_def add_diff_eq [symmetric])

context flash_view
begin

lemma remap_plain:
  assumes "plain_map R" and "hw_ok (hw s)" and "0x0C000000 \<le> lo"
  shows "hw_ok (hw (remap_image R k lo (SPI_FLASH_BASE + p) s))"
    and "lo \<le> a \<Longrightarrow> a \<le> lo + 0xFFFFE0 \<Longrightarrow>
      xip R (hw (remap_image R k lo (SPI_FLASH_BASE + p) s)) f a = f (a - lo + p)"
  using remap_ok [OF assms(2,3)] remapped [OF assms(2,3), of a "lo + 0xFFFFE0" k "SPI_FLASH_BASE + p" f]
  by (simp_all add: remap_plain_hw [OF assms(1)] algebra_simps)

lemma LoadIMGAll_run:
  assumes R: "plain_map R" and s: "hw_ok (hw s)"
    and i: "region_img2 s ! i = SPI_FLASH_BASE + slot_img2 f i" "Manifests s ! i = slot_manifest f i"
    and f: "bl_flash s = f" and w: "slot_window f i"
  shows "\<exists>m. BOOT_OTA_LoadIMGAll R i s =
      (if slot_loadable f i then validate_image R i (slot_infos f i) (s\<lparr>hw := slot_hw R f i (hw s), boot_ram := m\<rparr>)
       else Some (False, s\<lparr>hw := slot_hw R f i (hw s), boot_ram := m\<rparr>)) \<and> hw_ok (slot_hw R f i (hw s))"
proof -
  let ?lo = "0x0C000000 :: u32" and ?lo4 = "0x0E000000 :: u32"
  have lo: "km0_flash_text_start R - IMAGE_HEADER_LEN = ?lo" "km4_flash_text_start R - IMAGE_HEADER_LEN = ?lo4"
    using R by (simp_all add: plain_map_def)
  have ivset: "BOOT_RSIPIvSet R m k x = x" for m k x
    using R by (simp add: BOOT_RSIPIvSet_def plain_map_def)
  define s1 where "s1 = remap_image R 1 ?lo (SPI_FLASH_BASE + slot_km0 f i) s"
  have p0: "SPI_FLASH_BASE + slot_img2 f i + BOOT_OTA_GetManifestSize (slot_manifest f i) =
      SPI_FLASH_BASE + slot_km0 f i"
    by (simp add: slot_km0_def)
  have v1: "\<And>a. ?lo \<le> a \<Longrightarrow> a \<le> ?lo + 0xFFFFE0 \<Longrightarrow>
      xip R (hw s1) (bl_flash s1) a = bl_flash s1 (a - ?lo + slot_km0 f i)"
    unfolding s1_def by (intro remap_plain [OF R s]) simp_all
  have f1: "bl_flash s1 = f" "hw_ok (hw s1)"
    using f remap_plain(1) [OF R s] by (simp_all add: s1_def)
  obtain km0 s2 where l0: "BOOT_LoadSubImage R (?lo + of_nat 0) 4 s1 = (parts_ok f (slot_km0 f i) 4 0, km0, s2)"
    "parts_ok f (slot_km0 f i) 4 0 \<longrightarrow> km0 = parts_infos ?lo f (slot_km0 f i) 4 0"
    using LoadSubImage_parts [OF v1, of 4 0] w f1(1) by (auto simp: slot_window_def)
  obtain m2 where s2: "s2 = s1\<lparr>boot_ram := m2\<rparr>"
    using BOOT_LoadSubImage_ram [OF l0(1)] by (auto simp: only_ram_def)
  have hw2: "hw_ok (hw s2)" using s2 f1(2) by simp
  show ?thesis
  proof (cases "parts_ok f (slot_km0 f i) 4 0")
    case False
    then have "BOOT_OTA_LoadIMGAll R i s = Some (False, s2)"
      unfolding BOOT_OTA_LoadIMGAll_def Let_def lo i ivset p0 s1_def [symmetric] using l0(1) by simp
    moreover have "s2 = s\<lparr>hw := slot_hw R f i (hw s), boot_ram := m2\<rparr>"
      using False by (simp add: s2 s1_def remap_plain_hw [OF R] slot_hw_def Let_def)
    moreover have "\<not> slot_loadable f i" using False by (simp add: slot_loadable_def)
    ultimately show ?thesis using hw2 by auto
  next
    case True
    then have km0: "km0 = parts_infos ?lo f (slot_km0 f i) 4 0" using l0(2) by simp
    have p1: "SPI_FLASH_BASE + slot_km0 f i + (total_len km0 + Len (padding_info ?lo (total_len km0))) =
        SPI_FLASH_BASE + slot_km4 f i"
      using km0 padding_len [of ?lo] by (simp add: slot_km4_def Let_def parts_infos_len)
    define s3 where "s3 = remap_image R 2 ?lo4 (SPI_FLASH_BASE + slot_km4 f i) s2"
    have v3: "\<And>a. ?lo4 \<le> a \<Longrightarrow> a \<le> ?lo4 + 0xFFFFE0 \<Longrightarrow>
        xip R (hw s3) (bl_flash s3) a = bl_flash s3 (a - ?lo4 + slot_km4 f i)"
      unfolding s3_def by (intro remap_plain [OF R hw2]) simp_all
    have f3: "bl_flash s3 = f" "hw_ok (hw s3)"
      using s2 f1(1) remap_plain(1) [OF R hw2] by (simp_all add: s3_def)
    obtain km4 s4 where l1: "BOOT_LoadSubImage R (?lo4 + of_nat 0) 4 s3 = (parts_ok f (slot_km4 f i) 4 0, km4, s4)"
      "parts_ok f (slot_km4 f i) 4 0 \<longrightarrow> km4 = parts_infos ?lo4 f (slot_km4 f i) 4 0"
      using LoadSubImage_parts [OF v3, of 4 0] w True f3(1) by (auto simp: slot_window_def)
    obtain m4 where s4: "s4 = s3\<lparr>boot_ram := m4\<rparr>"
      using BOOT_LoadSubImage_ram [OF l1(1)] by (auto simp: only_ram_def)
    have s4': "s4 = s\<lparr>hw := slot_hw R f i (hw s), boot_ram := m4\<rparr>"
      using True by (simp add: s4 s3_def s2 s1_def remap_plain_hw [OF R] slot_hw_def Let_def)
    have si: "parts_ok f (slot_km4 f i) 4 0 \<Longrightarrow> slot_infos f i = km0 @ padding_info ?lo (total_len km0) # km4"
      using l1(2) by (simp add: slot_infos_def km0 parts_infos_len)
    have "BOOT_OTA_LoadIMGAll R i s =
        (if slot_loadable f i then validate_image R i (slot_infos f i) s4 else Some (False, s4))"
      unfolding BOOT_OTA_LoadIMGAll_def Let_def lo i ivset p0 s1_def [symmetric]
      using l0(1) l1(1) True R by (simp add: p1 slot_loadable_def plain_map_def si flip: s3_def)
    moreover have "hw_ok (hw s4)" using s4 f3(2) by simp
    ultimately show ?thesis using s4' by auto
  qed
qed

lemma LoadIMGAll_result:
  assumes "plain_map R" and "passes R i s" "hw_ok (hw s)"
    and "region_img2 s ! i = SPI_FLASH_BASE + slot_img2 f i" "Manifests s ! i = slot_manifest f i"
    and "bl_flash s = f" and "slot_window f i"
  shows "\<exists>h m. BOOT_OTA_LoadIMGAll R i s = Some (slot_loadable f i, s\<lparr>hw := h, boot_ram := m\<rparr>) \<and> hw_ok h"
proof -
  obtain m where "BOOT_OTA_LoadIMGAll R i s = Some (slot_loadable f i, s\<lparr>hw := slot_hw R f i (hw s), boot_ram := m\<rparr>)"
    and "hw_ok (slot_hw R f i (hw s))"
    using LoadIMGAll_run [OF assms(1,3-7)] assms(2) by (auto simp: passes_def)
  then show ?thesis by blast
qed

lemma tries_plain:
  assumes "plain_boot R" and "tries_ready hw_ok f i s" and "slot_window f i"
  shows "\<exists>s'. boot_tries R (Suc n) i s =
      (if slot_loadable f i then Some (Some i, s') else boot_tries R n ((i + 1) mod 2) s') \<and>
    bl_flash s' = f \<and> (\<forall>j. tries_ready hw_ok f j s \<longrightarrow> tries_ready hw_ok f j s')"
proof -
  have t: "boot_plain_state s" "hw_ok (hw s)" "region_img2 s ! i = SPI_FLASH_BASE + slot_img2 f i"
    "Manifests s ! i = slot_manifest f i" "bl_flash s = f"
    using assms(2) by (simp_all add: tries_ready_def)
  have "plain_map R" using assms(1) by (simp add: plain_boot_def)
  then obtain h m where l': "BOOT_OTA_LoadIMGAll R i s = Some (slot_loadable f i, s\<lparr>hw := h, boot_ram := m\<rparr>)" "hw_ok h"
    using LoadIMGAll_result [OF _ passes_plain [OF assms(1) t(1)] t(2-5) assms(3)] by blast
  define s' where "s' = s\<lparr>hw := h, boot_ram := m\<rparr>"
  have l: "BOOT_OTA_LoadIMGAll R i s = Some (slot_loadable f i, s')" "keeps_slots s s'"
    "boot_plain_state s'" "hw_ok (hw s')"
    using l' t(1) by (simp_all add: s'_def boot_plain_state_def)
  have "boot_tries R (Suc n) i s =
      (if slot_loadable f i then Some (Some i, s') else boot_tries R n ((i + 1) mod 2) s')"
    using l(1) by (simp add: certificate_checks_plain [OF assms(1) t(1)])
  moreover have "bl_flash s' = f" using keeps_slotsD(1) [OF l(2)] t(5) by simp
  moreover have "\<forall>j. tries_ready hw_ok f j s \<longrightarrow> tries_ready hw_ok f j s'"
    using keeps_slotsD [OF l(2)] l(3,4) by (simp add: tries_ready_def)
  ultimately show ?thesis by blast
qed

lemma boot_from_select:
  assumes R: "plain_boot R" and s: "boot_plain_state s" "boot_ready hw_ok s" and f: "bl_flash s = f"
    and w: "\<And>i. i < 2 \<Longrightarrow> BOOT_OTA_GetCertRollbackVer R \<le> slot_version f i \<Longrightarrow> slot_window f i"
    and sel: "BOOT_OTA_SlotSelect R s = (k, s2)"
  shows "\<exists>s'. boot_tries R (ValidIMGNum s2) k s2 = Some (boot_choice (BOOT_OTA_GetCertRollbackVer R) f, s') \<and>
    bl_flash s' = f"
proof -
  let ?VN = "BOOT_OTA_GetCertRollbackVer R" and ?v = "slot_version f"
  have r: "boot_wf s" "regions_set s" "hw_ok (hw s)" using s(2) by (simp_all add: boot_ready_def)
  note ss = slot_select [OF r sel, unfolded f]
  have fl: "bl_flash s2 = f" by (rule ss(2))
  have ready: "tries_ready hw_ok f i s2" if "i < 2" "?VN \<le> ?v i" for i
  proof -
    have "slot_valid f i" using that(2) rollback_nonneg [of R] by (intro slot_version_valid) linarith
    then show ?thesis
      using ss that(1) s(1) r(3) by (simp add: tries_ready_def boot_plain_state_def)
  qed
  have k: "k = (if ?v 1 \<le> ?v 0 then 0 else 1)" by (rule ss(1))
  have n: "ValidIMGNum s2 = (if ?v k < ?VN then 0 else if ?VN \<le> ?v (1 - k) then 2 else 1)"
    using ss(8) k by (auto simp: valid_images_def)
  have bc: "boot_choice ?VN f = (if ?v k < ?VN then None else if slot_loadable f k then Some k
      else if ?VN \<le> ?v (1 - k) \<and> slot_loadable f (1 - k) then Some (1 - k) else None)"
    by (simp add: boot_choice_def Let_def k)
  have next_k: "(k + 1) mod 2 = 1 - k" "k < 2" "1 - k < 2" using k by auto
  show ?thesis
  proof (cases "?v k < ?VN")
    case True
    then show ?thesis using n fl by (simp add: bc)
  next
    case False
    then have ok: "?VN \<le> ?v k" by simp
    obtain n' where n': "ValidIMGNum s2 = Suc n'" "n' = (if ?VN \<le> ?v (1 - k) then 1 else 0)"
      using n False by auto
    obtain s3 where s3: "boot_tries R (Suc n') k s2 =
        (if slot_loadable f k then Some (Some k, s3) else boot_tries R n' (1 - k) s3)"
      "bl_flash s3 = f" "\<forall>j. tries_ready hw_ok f j s2 \<longrightarrow> tries_ready hw_ok f j s3"
      using tries_plain [OF R ready [OF next_k(2) ok] w [OF next_k(2) ok], of n', unfolded next_k(1)] by blast
    show ?thesis
    proof (cases "slot_loadable f k \<or> \<not> ?VN \<le> ?v (1 - k)")
      case True
      moreover have "boot_tries R 0 (1 - k) s3 = Some (None, s3)" by simp
      ultimately show ?thesis using s3 n' False by (auto simp: bc simp del: boot_tries.simps)
    next
      case two: False
      then have ok': "?VN \<le> ?v (1 - k)" by simp
      obtain s4 where "boot_tries R (Suc 0) (1 - k) s3 =
          (if slot_loadable f (1 - k) then Some (Some (1 - k), s4) else boot_tries R 0 ((1 - k + 1) mod 2) s4)"
        "bl_flash s4 = f"
        using tries_plain [OF R _ w [OF next_k(3) ok'], of s3 0] s3(3) ready [OF next_k(3) ok'] by blast
      moreover have "boot_tries R 0 ((1 - k + 1) mod 2) s4 = Some (None, s4)" by simp
      ultimately show ?thesis
        using s3(1) n' two False by (simp add: bc del: boot_tries.simps)
    qed
  qed
qed

end

section \<open>The choice of the slot to extract\<close>

definition slot_compressed :: "memory \<Rightarrow> nat \<Rightarrow> bool" where
  "slot_compressed f i \<longleftrightarrow> mem_read f (slot_base i) 8 = CompressFlag"

definition extract_manifest :: "memory \<Rightarrow> nat \<Rightarrow> Manifest_TypeDef" where
  "extract_manifest f i = Manifest_of (mem_read f (slot_base i) sizeof_Manifest)"

definition extract_version :: "memory \<Rightarrow> nat \<Rightarrow> int" where
  "extract_version f i =
     full_version (MajorImgVer (extract_manifest f i)) (MinorImgVer (extract_manifest f i))"

definition extract_at :: "memory \<Rightarrow> nat \<Rightarrow> u32" where
  "extract_at f i = slot_base i + BOOT_OTA_GetManifestSize (extract_manifest f i)"

lemma extract_pattern: "mPattern (extract_manifest f i) = mem_read f (slot_base i) 8"
  by (simp add: extract_manifest_def Manifest_of_def sizeof_Manifest_def)

text \<open>A slot read as certificate or as manifest has the same pattern and version.\<close>

lemma slot_version_manifest:
  "slot_version f i = (if mem_read f (slot_base i) 8 = APP_IMAGE_PATTERN then extract_version f i else - 1)"
  by (simp add: slot_version_def slot_valid_def extract_version_def slot_cert_def extract_manifest_def
      Certificate_of_def Manifest_of_def sizeof_Certificate_def sizeof_Manifest_def drop_mem_read)

context flash_view
begin

lemma slot_read:
  assumes "boot_ready hw_ok s" and "i < 2"
  shows "bus_read R s (region_cert s ! i) sizeof_Manifest = mem_read (bl_flash s) (slot_base i) sizeof_Manifest"
proof -
  have "region_cert s ! i = SPI_FLASH_BASE + slot_base i"
    using assms by (auto simp: boot_ready_def regions_set_def slot_base_def less_2_cases_iff)
  moreover have "unat (slot_base i) + sizeof_Manifest \<le> 0x4000000"
    by (simp add: slot_base_def sizeof_Manifest_def)
  ultimately show ?thesis
    using direct_read [of s "slot_base i" sizeof_Manifest] assms(1) by (simp add: boot_ready_def)
qed

lemma extract_probe_eq:
  assumes "boot_ready hw_ok s" and "i < 2"
  shows "extract_probe R i s =
    (slot_compressed (bl_flash s) i,
     s\<lparr>Manifests := (Manifests s)[i := extract_manifest (bl_flash s) i],
       Vers := (Vers s)[i := if slot_compressed (bl_flash s) i then extract_version (bl_flash s) i else - 1]\<rparr>)"
  using extract_pattern [of "bl_flash s" i]
  by (auto simp: extract_probe_def slot_read [OF assms] slot_compressed_def extract_version_def Let_def
      simp flip: extract_manifest_def)

lemma extract_other_eq:
  assumes "boot_ready hw_ok s" and "i < 2"
  shows "extract_other R i s =
    s\<lparr>Manifests := (Manifests s)[i := extract_manifest (bl_flash s) i],
      Vers := (if mem_read (bl_flash s) (slot_base i) 8 = APP_IMAGE_PATTERN
               then (Vers s)[i := extract_version (bl_flash s) i] else Vers s)\<rparr>"
  using extract_pattern [of "bl_flash s" i]
  by (auto simp: extract_other_def slot_read [OF assms] extract_version_def Let_def
      simp flip: extract_manifest_def)

lemma Extract_none:
  assumes "boot_ready hw_ok s" and "\<not> slot_compressed (bl_flash s) 0" and "\<not> slot_compressed (bl_flash s) 1"
  shows "\<exists>s'. BOOT_OTA_Extract R s = Some s' \<and> boot_ready hw_ok s' \<and> bl_flash s' = bl_flash s \<and>
    SecureBootEn s' = SecureBootEn s \<and> SecureBootEn_PQC s' = SecureBootEn_PQC s"
proof -
  define s1 where "s1 = snd (extract_probe R 0 s)"
  have p0: "extract_probe R 0 s = (False, s1)" using assms by (simp add: s1_def extract_probe_eq)
  have s1: "boot_ready hw_ok s1" "bl_flash s1 = bl_flash s"
    using assms(1) by (simp_all add: s1_def extract_probe_eq boot_ready_def boot_wf_def regions_set_def)
  define s2 where "s2 = snd (extract_probe R 1 s1)"
  have p1: "extract_probe R 1 s1 = (False, s2)" using assms(3) s1 by (simp add: s2_def extract_probe_eq)
  have sel: "BOOT_Extract_SlotSelect R s = (0, s2\<lparr>ValidIMGNum := 0\<rparr>)"
    by (simp add: BOOT_Extract_SlotSelect_def p0 p1 [simplified])
  have "BOOT_OTA_Extract R s = Some (s2\<lparr>ValidIMGNum := 0\<rparr>)"
    by (simp add: BOOT_OTA_Extract_def sel)
  moreover note Extract_SlotSelect_ready [OF sel assms(1)]
  ultimately show ?thesis by blast
qed

text \<open>The second slot is compressed and the first is not.\<close>

lemma Extract_select_one:
  assumes "boot_ready hw_ok s" and "\<not> slot_compressed (bl_flash s) 0" and "slot_compressed (bl_flash s) 1"
  defines "f \<equiv> bl_flash s"
  shows "\<exists>s1. BOOT_Extract_SlotSelect R s = (1, s1) \<and> boot_ready hw_ok s1 \<and>
    BootLzma.truncate s1 = BootLzma.truncate s \<and> SecureBootEn s1 = SecureBootEn s \<and>
    Vers s1 ! 0 = slot_version f 0 \<and> Vers s1 ! 1 = extract_version f 1 \<and>
    Manifests s1 ! 1 = extract_manifest f 1 \<and>
    ValidIMGNum s1 = valid_images (BOOT_OTA_GetCertRollbackVer R) [slot_version f 0, extract_version f 1]"
proof -
  define s1 where "s1 = s\<lparr>Manifests := (Manifests s)[0 := extract_manifest f 0], Vers := (Vers s)[0 := - 1]\<rparr>"
  have p0: "extract_probe R 0 s = (False, s1)"
    using assms(1,2) by (simp add: s1_def extract_probe_eq f_def)
  have r1: "boot_ready hw_ok s1" "bl_flash s1 = f" "boot_wf s1"
    using assms(1) by (simp_all add: s1_def f_def boot_ready_def boot_wf_def regions_set_def)
  define s2 where "s2 = s1\<lparr>Manifests := (Manifests s1)[1 := extract_manifest f 1],
    Vers := (Vers s1)[1 := extract_version f 1]\<rparr>"
  have p1: "extract_probe R 1 s1 = (True, s2)"
    using assms(3) r1 by (simp add: s2_def extract_probe_eq f_def)
  have r2: "boot_ready hw_ok s2" "bl_flash s2 = f"
    using r1 by (simp_all add: s2_def boot_ready_def boot_wf_def regions_set_def)
  define s3 where "s3 = extract_other R 0 s2"
  have s3: "s3 = s2\<lparr>Manifests := (Manifests s2)[0 := extract_manifest f 0],
      Vers := (if mem_read f (slot_base 0) 8 = APP_IMAGE_PATTERN
               then (Vers s2)[0 := extract_version f 0] else Vers s2)\<rparr>"
    unfolding s3_def using r2 by (simp add: extract_other_eq)
  have sel: "BOOT_Extract_SlotSelect R s =
      (1, s3\<lparr>ValidIMGNum := valid_images (BOOT_OTA_GetCertRollbackVer R) (Vers s3)\<rparr>)"
    by (simp add: BOOT_Extract_SlotSelect_def p0 p1 [simplified] s3_def Let_def)
  have v: "Vers s3 ! 0 = slot_version f 0" "Vers s3 ! 1 = extract_version f 1" "Manifests s3 ! 1 = extract_manifest f 1"
    using r1(3) by (simp_all add: s3 s2_def s1_def slot_version_manifest boot_wf_def)
  have t: "BootLzma.truncate s3 = BootLzma.truncate s" "SecureBootEn s3 = SecureBootEn s"
    by (simp_all add: s3 s2_def s1_def BootLzma.defs)
  have "valid_images VN (Vers s3) = valid_images VN [slot_version f 0, extract_version f 1]" for VN
    using v by (simp add: valid_images_def)
  with sel v t Extract_SlotSelect_ready [OF sel assms(1)] show ?thesis
    by (auto simp: BootLzma.defs)
qed

end

text \<open>The check the compressed update is meant to pass.\<close>

definition extract_authentic :: "'h BootRom \<Rightarrow> memory \<Rightarrow> nat \<Rightarrow> bool" where
  "extract_authentic R f i \<longleftrightarrow>
     (let m = extract_manifest f i
      in case SBOOT_Validate_Algorithm R (mAuthAlg m) (mHashAlg m) of
           (ret, AuthAlg, HashAlg) \<Rightarrow>
             ret = 0 \<and> SBOOT_Validate_PubKey R AuthAlg (mSBPubKey m) (otp_key R) = 0 \<and>
             SBOOT_Validate_Signature R AuthAlg HashAlg (mSBPubKey m) (take 256 (Manifest_bytes m))
               (mSignature m) = 0 \<and>
             SBOOT_Validate_ImgHash R HashAlg (ImgHash m)
               [mem_read f (extract_at f i) (unat (ImgSize m))] = 0)"

lemma SbootEn_truncate:
  "BOOT_SbootEn_Check R pk s = (en, pk', s') \<Longrightarrow> BootLzma.truncate s' = BootLzma.truncate s \<and> boot_ram s' = boot_ram s"
  by (auto simp: BOOT_SbootEn_Check_def Let_def BootLzma.defs split: if_splits prod.splits)

lemma truncate_flash: "BootLzma.truncate s' = BootLzma.truncate s \<Longrightarrow> bl_flash s' = bl_flash s"
  by (simp add: BootLzma.defs)

context flash_view
begin

lemma Extract_check:
  assumes "boot_ready hw_ok s" and "bl_flash s = f" and "unat (ImgSize (extract_manifest f 1)) \<le> 0x3000000"
    and "\<not> SecureBootEn s"
  shows "\<exists>s'. BOOT_Extract_SignatureCheck R (extract_manifest f 1)
      [\<lparr>Addr = SPI_FLASH_BASE + extract_at f 1, Len = ImgSize (extract_manifest f 1)\<rparr>] s =
      (if sboot_on R \<and> extract_authentic R f 1 then 1 else 0, s') \<and>
    boot_ready hw_ok s' \<and> BootLzma.truncate s' = BootLzma.truncate s"
proof -
  let ?m = "extract_manifest f 1"
  let ?info = "\<lparr>Addr = SPI_FLASH_BASE + extract_at f 1, Len = ImgSize ?m\<rparr>"
  obtain en pk s1 where chk: "BOOT_SbootEn_Check R (replicate 32 0) s = (en, pk, s1)" by (metis prod_cases3)
  note t = SbootEn_truncate [OF chk]
  obtain ret s' where res: "BOOT_Extract_SignatureCheck R ?m [?info] s = (ret, s')" by fastforce
  have r': "boot_ready hw_ok s'" by (rule Extract_SignatureCheck_ready [OF res assms(1)])
  have s': "s' = s1" using res by (auto simp: BOOT_Extract_SignatureCheck_def chk Let_def split: if_splits prod.splits)
  have f1: "bl_flash s1 = f" using truncate_flash [of s1 s] t assms(2) by simp
  have hw1: "hw_ok (hw s1)" using r' s' by (simp add: boot_ready_def)
  have "unat (extract_at f 1) \<le> 0x216000"
    by (simp add: extract_at_def slot_base_def BOOT_OTA_GetManifestSize_def)
  then have "sub_images R s1 [?info] = [mem_read f (extract_at f 1) (unat (ImgSize ?m))]"
    using direct_read [OF hw1, of "extract_at f 1" "unat (ImgSize ?m)"] assms(3) f1
    by (simp add: sub_images_def)
  moreover have "en \<longleftrightarrow> sboot_on R" "en \<Longrightarrow> pk = otp_key R"
    using chk assms(4)
    by (auto simp: BOOT_SbootEn_Check_def Let_def sboot_on_def otp_key_def otp_hash_full
        split: if_splits prod.splits)
  ultimately have "ret = (if sboot_on R \<and> extract_authentic R f 1 then 1 else 0)"
    using res by (auto simp: BOOT_Extract_SignatureCheck_def chk extract_authentic_def Let_def
        split: if_splits prod.splits)
  with res r' s' t show ?thesis by blast
qed

end

text \<open>A compressed update in the second slot: its files, the pieces they stand for, the room they need.\<close>

definition compressed_update :: "'h BootRom \<Rightarrow> memory \<Rightarrow> u8 list list \<Rightarrow> u8 list list \<Rightarrow> bool" where
  "compressed_update R f fs ps \<longleftrightarrow>
     \<not> slot_compressed f 0 \<and> slot_compressed f 1 \<and>
     BOOT_OTA_GetCertRollbackVer R \<le> extract_version f 1 \<and> slot_version f 0 \<le> extract_version f 1 \<and>
     unat (ImgSize (extract_manifest f 1)) \<le> 0x3000000 \<and>
     list_all2 (lzma_piece (rom_LzmaDecode R)) fs ps \<and> 4 \<le> length fs \<and> length fs \<le> 122 \<and>
     (\<forall>p \<in> set ps. length p \<le> 16384) \<and> (\<forall>p \<in> set (butlast ps). length p mod 4096 = 0) \<and>
     unat (extract_at f 1) + length (lzma_container fs) \<le> 0x400000 \<and>
     mem_read f (extract_at f 1) (length (lzma_container fs)) = lzma_container fs"

definition flag_cleared :: "memory \<Rightarrow> memory" where
  "flag_cleared f = flash_prog f 0x214000 (replicate 8 0)"

context flash_view
begin

lemma extract_image_result:
  assumes nf: "nor_flash (FLASH_TxData R) (FLASH_Erase R) fsize" "0x400000 \<le> fsize"
    and u: "compressed_update R (bl_flash s) fs ps" and c: "g_curr_block_addr s = 0xFFFFFFFF"
  shows "\<exists>s'. extract_image R (SPI_FLASH_BASE + extract_at (bl_flash s) 1) (SPI_FLASH_BASE + 0x14000) 0x081FFFFF s =
      Some s' \<and>
    wrote 0x14000 (concat ps) (0x14000 + length fs * 16384) (bl_flash s) (bl_flash s')"
proof -
  let ?c = "extract_at (bl_flash s) 1"
  let ?l = "bootLzma_buffer_set (mem_read (boot_ram s) (km4_bd_ram_start R) 16384) (BootLzma.truncate s)"
  have lf: "length fs \<le> 122" using u by (simp add: compressed_update_def)
  have "0x214000 \<le> unat ?c"
    by (simp add: extract_at_def slot_base_def BOOT_OTA_GetManifestSize_def)
  then have "unat (0x14000 :: u32) + length fs * 16384 \<le> unat ?c" using lf by simp
  moreover have "bl_flash ?l = bl_flash s" "g_curr_block_addr ?l = g_curr_block_addr s"
    "length (output_buf ?l) = 16384"
    by (simp_all add: bootLzma_buffer_set_def BootLzma.defs)
  ultimately obtain l where l: "bootLzma_main_function (rom_LzmaDecode R) (FLASH_TxData R) (FLASH_Erase R)
      (SPI_FLASH_BASE + ?c) (SPI_FLASH_BASE + 0x14000) 0x081FFFFF ?l = Some (True, l)"
    "wrote (unat (0x14000 :: u32)) (concat ps) (unat (0x14000 :: u32) + length fs * 16384) (bl_flash ?l) (bl_flash l)"
    using nor_flash.lzma_main [OF nf(1), of "rom_LzmaDecode R" fs ps "0x14000" "0x081FFFFF" ?c ?l] u nf(2) lf c
    by (auto simp: compressed_update_def)
  then show ?thesis
    by (auto simp: extract_image_def bootLzma_buffer_set_def BootLzma.defs)
qed

lemma Extract_run:
  assumes nf: "nor_flash (FLASH_TxData R) (FLASH_Erase R) fsize" "0x400000 \<le> fsize"
    and s: "boot_ready hw_ok s" "\<not> SecureBootEn s" "g_curr_block_addr s = 0xFFFFFFFF"
    and f: "bl_flash s = f" and u: "compressed_update R f fs ps"
  shows "\<exists>s' f1. BOOT_OTA_Extract R s = Some s' \<and> boot_ready hw_ok s' \<and> bl_flash s' = flag_cleared f1 \<and>
    (if sboot_on R \<and> extract_authentic R f 1 then f1 = f
     else wrote 0x14000 (concat ps) (0x14000 + length fs * 16384) f f1)"
proof -
  let ?auth = "sboot_on R \<and> extract_authentic R f 1"
  have cu: "\<not> slot_compressed f 0" "slot_compressed f 1" "BOOT_OTA_GetCertRollbackVer R \<le> extract_version f 1"
    "slot_version f 0 \<le> extract_version f 1" "unat (ImgSize (extract_manifest f 1)) \<le> 0x3000000"
    using u by (simp_all add: compressed_update_def)
  obtain s1 where sel: "BOOT_Extract_SlotSelect R s = (1, s1)" and r1: "boot_ready hw_ok s1"
    and t1: "BootLzma.truncate s1 = BootLzma.truncate s" and en: "SecureBootEn s1 = SecureBootEn s"
    and v: "Vers s1 ! 0 = slot_version f 0" "Vers s1 ! 1 = extract_version f 1"
    "Manifests s1 ! 1 = extract_manifest f 1"
    "ValidIMGNum s1 = valid_images (BOOT_OTA_GetCertRollbackVer R) [slot_version f 0, extract_version f 1]"
    using Extract_select_one [OF s(1)] cu(1,2) unfolding f by blast
  have f1: "bl_flash s1 = f" using truncate_flash [OF t1] f by simp
  have reg: "region_cert s1 = [SPI_FLASH_BASE + 0x14000, SPI_FLASH_BASE + 0x214000]"
    using r1 by (simp add: boot_ready_def regions_set_def)
  have at: "region_cert s1 ! 1 + BOOT_OTA_GetManifestSize (extract_manifest f 1) = SPI_FLASH_BASE + extract_at f 1"
    by (simp add: reg extract_at_def slot_base_def)
  obtain s2 where chk: "BOOT_Extract_SignatureCheck R (extract_manifest f 1)
      [\<lparr>Addr = SPI_FLASH_BASE + extract_at f 1, Len = ImgSize (extract_manifest f 1)\<rparr>] s1 = (if ?auth then 1 else 0, s2)"
    and r2: "boot_ready hw_ok s2" and t2: "BootLzma.truncate s2 = BootLzma.truncate s1"
    using Extract_check [OF r1 f1 cu(5)] en s(2) by blast
  have f2: "bl_flash s2 = f" "g_curr_block_addr s2 = 0xFFFFFFFF"
    using t2 t1 f s(3) by (simp_all add: BootLzma.defs)
  obtain s3 where ex: "extract_image R (SPI_FLASH_BASE + extract_at f 1) (SPI_FLASH_BASE + 0x14000) 0x081FFFFF s2 = Some s3"
    "wrote 0x14000 (concat ps) (0x14000 + length fs * 16384) f (bl_flash s3)"
    using extract_image_result [OF nf, of s2 fs ps] u f2 by auto
  have r3: "boot_ready hw_ok s3" by (rule extract_image_ready [OF ex(1) r2])
  have lay: "flash_get_layout_info (IMG_APP_OTA1 + of_nat 0) (Some 0) (Some 0) =
      (Some (SPI_FLASH_BASE + 0x14000), Some 0x081FFFFF)"
    by (simp add: flash_get_layout_info_def Flash_Layout_def IMG_BOOT_def IMG_APP_OTA1_def)
  have valid: "ValidIMGNum s1 \<noteq> 0" using v(4) cu(3) by (simp add: valid_images_def)
  have tx: "FLASH_TxData R 0x214000 (replicate 8 0) g = flag_cleared g" for g
    unfolding flag_cleared_def using nf by (intro nor_flash.tx_page [OF nf(1)]) simp_all
  have res: "BOOT_OTA_Extract R s =
      Some (if ?auth then s2\<lparr>bl_flash := flag_cleared f\<rparr> else s3\<lparr>bl_flash := flag_cleared (bl_flash s3)\<rparr>)"
    unfolding BOOT_OTA_Extract_def sel Let_def prod.case v(3) at chk SubImgInfo_TypeDef.select_convs
    using valid v(1) v(2) [simplified] cu(4) [simplified] lay ex(1) [simplified] tx f2(1)
    by (simp add: reg)
  show ?thesis
  proof (cases ?auth)
    case True
    with res r2 show ?thesis by auto
  next
    case False
    with res r3 ex(2) show ?thesis by auto
  qed
qed

end

lemma boot_choice_some:
  assumes "j < 2" and "VN \<le> slot_version f j" and "slot_loadable f j"
  shows "\<exists>i < 2. boot_choice VN f = Some i \<and> VN \<le> slot_version f i \<and> slot_loadable f i \<and>
    (\<forall>k < 2. VN \<le> slot_version f k \<and> slot_loadable f k \<longrightarrow> slot_version f k \<le> slot_version f i)"
  using assms by (auto simp: boot_choice_def Let_def less_2_cases_iff)

context flash_view
begin

lemma boot_from_extract:
  assumes R: "plain_boot R" and s: "boot_plain_state s1" "boot_ready hw_ok s1" "bl_flash s1 = f"
    and ex: "(if CONFIG_COMPRESS_OTA_IMG R then BOOT_OTA_Extract R (BOOT_OTA_Region_Init s)
      else Some (BOOT_OTA_Region_Init s)) = Some s1"
    and w: "\<And>i. i < 2 \<Longrightarrow> BOOT_OTA_GetCertRollbackVer R \<le> slot_version f i \<Longrightarrow> slot_window f i"
  shows "\<exists>s'. BOOT_OTA_IMG R s = Some (boot_choice (BOOT_OTA_GetCertRollbackVer R) f, s') \<and> bl_flash s' = f"
proof -
  obtain k s2 where sel: "BOOT_OTA_SlotSelect R s1 = (k, s2)" by fastforce
  obtain s3 where t: "boot_tries R (ValidIMGNum s2) k s2 = Some (boot_choice (BOOT_OTA_GetCertRollbackVer R) f, s3)"
    "bl_flash s3 = f"
    using boot_from_select [OF R s w sel] by blast
  have st: "bl_flash (BOOT_Validate_Fail_Stuck x) = bl_flash x" for x :: "'a Boot"
    by (simp add: BOOT_Validate_Fail_Stuck_def)
  show ?thesis
    unfolding BOOT_OTA_IMG_def ex using sel t st
    by (cases "boot_choice (BOOT_OTA_GetCertRollbackVer R) f") auto
qed

lemma boot_plain_result:
  assumes R: "plain_boot R" and s: "boot_plain_state s" "boot_wf s" "hw_ok (hw s)" and f: "bl_flash s = f"
    and nc: "\<not> slot_compressed f 0" "\<not> slot_compressed f 1"
    and w: "\<And>i. i < 2 \<Longrightarrow> BOOT_OTA_GetCertRollbackVer R \<le> slot_version f i \<Longrightarrow> slot_window f i"
  shows "\<exists>s'. BOOT_OTA_IMG R s = Some (boot_choice (BOOT_OTA_GetCertRollbackVer R) f, s') \<and> bl_flash s' = f"
proof -
  let ?s0 = "BOOT_OTA_Region_Init s"
  have r0: "boot_ready hw_ok ?s0" "bl_flash ?s0 = f" "boot_plain_state ?s0"
    using s f by (simp_all add: boot_ready_def boot_plain_state_def Region_Init_facts)
  obtain sx where sx: "BOOT_OTA_Extract R ?s0 = Some sx" "boot_ready hw_ok sx" "bl_flash sx = bl_flash ?s0"
    "SecureBootEn sx = SecureBootEn ?s0" "SecureBootEn_PQC sx = SecureBootEn_PQC ?s0"
    using Extract_none [OF r0(1)] nc r0(2) by blast
  show ?thesis
    using sx r0 by (intro boot_from_extract [OF R, of "if CONFIG_COMPRESS_OTA_IMG R then sx else ?s0", OF _ _ _ _ w])
      (simp_all add: boot_plain_state_def)
qed

end

end
