(* ===== verification/Boot_Start.thy ===== *)
theory Boot_Start
  imports Boot_Run
begin

text \<open>
  What it means that the boot loader has started a slot, with or without secure boot: the certificate
  was checked, the remapping leads to the parts of that slot, and the parts were accepted. From this
  follow the promise of secure boot and what the running application finds in the remapping registers.
\<close>

section \<open>The hardware during the checks\<close>

text \<open>The checks act on the hardware only through the random number generator.\<close>

definition rand_keeps :: "'h BootRom \<Rightarrow> ('h \<Rightarrow> bool) \<Rightarrow> bool" where
  "rand_keeps R P \<longleftrightarrow> (\<forall>h. P h \<longrightarrow> P (snd (rom_rand R h)))"

lemma rand_keepsD: "rand_keeps R P \<Longrightarrow> P h \<Longrightarrow> rom_rand R h = (r, h') \<Longrightarrow> P h'"
  unfolding rand_keeps_def by (metis snd_conv)

lemma SbootEn_Check_hw:
  "rand_keeps R P \<Longrightarrow> P (hw s) \<Longrightarrow> BOOT_SbootEn_Check R pk s = (en, pk', s') \<Longrightarrow> P (hw s')"
  by (auto simp: BOOT_SbootEn_Check_def Let_def dest: rand_keepsD split: if_splits prod.splits)

lemma CertificateCheck_hw:
  "rand_keeps R P \<Longrightarrow> P (hw s) \<Longrightarrow> BOOT_CertificateCheck R c i s = Some (ret, s') \<Longrightarrow> P (hw s')"
  by (auto simp: BOOT_CertificateCheck_def Let_def dest: SbootEn_Check_hw split: if_splits prod.splits)

lemma pqc_verify_hw:
  "rand_keeps R P \<Longrightarrow> P (hw s) \<Longrightarrow> pqc_verify R k ext msg s = Some s' \<Longrightarrow> P (hw s')"
  by (auto simp: pqc_verify_def SBOOT_Validate_PubKey_PQC_def Let_def dest: rand_keepsD
      split: if_splits prod.splits Option.bind_splits)

lemma clear_stack_hw [simp]: "hw (SBOOT_Clear_PQC_Stack R a n s) = hw s"
  by (rule only_ram_fields [OF SBOOT_Clear_PQC_Stack_ram])

lemma CertificateVerify_PQC_hw:
  "rand_keeps R P \<Longrightarrow> P (hw s) \<Longrightarrow> SBOOT_CertificateVerify_PQC R k c a s = Some (ret, s') \<Longrightarrow> P (hw s')"
  by (auto simp: SBOOT_CertificateVerify_PQC_def SBOOT_CertificateVerify_PQC_Execute_def Let_def
      split: Option.bind_splits if_splits dest: pqc_verify_hw)

lemma CertificateCheck_PQC_hw:
  assumes P: "rand_keeps R P" "P (hw s)" and c: "BOOT_CertificateCheck_PQC R m c i s = Some (ret, s')"
  shows "P (hw s')"
proof (cases "2 \<le> mVer m")
  case False
  with P(2) c show ?thesis by (auto simp: BOOT_CertificateCheck_PQC_def BOOT_PQC_En_Check_def)
next
  case True
  obtain r h where rh: "rom_rand R (hw s) = (r, h)" by fastforce
  have "P h" by (rule rand_keepsD [OF P rh])
  with c True rh CertificateVerify_PQC_hw [OF P(1), of "s\<lparr>SecureBootEn_PQC := True, hw := h\<rparr>"] show ?thesis
    by (simp add: BOOT_CertificateCheck_PQC_def BOOT_PQC_En_Check_def BOOT_Read_PQC_PubKeyHash_OTP_def)
qed

lemma SignatureCheck_PQC_hw:
  "rand_keeps R P \<Longrightarrow> P (hw s) \<Longrightarrow> BOOT_SignatureCheck_PQC R m c i k s = Some (ret, s') \<Longrightarrow> P (hw s')"
  by (auto simp: BOOT_SignatureCheck_PQC_def SBOOT_SignatureVerify_PQC_def
      SBOOT_SignatureVerify_PQC_Execute_def Let_def
      split: if_splits Option.bind_splits dest: pqc_verify_hw)

lemma certificate_checks_hw:
  assumes "rand_keeps R P" and "P (hw s)" and "certificate_checks R i s = Some (ret, s')"
  shows "P (hw s')"
  using assms CertificateCheck_hw [OF assms(1,2)] CertificateCheck_PQC_hw [OF assms(1)]
  by (fastforce simp: certificate_checks_def split: if_splits Option.bind_splits)

lemma clear_images_hw [simp]: "hw (clear_images infos s) = hw s"
  by (rule only_ram_fields [OF clear_images_ram])

lemma validate_image_hw:
  assumes P: "rand_keeps R P" and "P (hw s)" and v: "validate_image R i infos s = Some (ok, s')"
  shows "P (hw s')"
proof -
  obtain ret s1 where c: "BOOT_SignatureCheck R (Manifests s ! i) infos (Certs s ! i) 0 s = Some (ret, s1)"
    using v by (auto simp: validate_image_def Let_def split: Option.bind_splits)
  have "P (hw s1)" using only_ram_fields(1) [OF BOOT_SignatureCheck_ram [OF c]] assms(2) by simp
  with v c SignatureCheck_PQC_hw [OF P, of s1] show ?thesis
    by (fastforce simp: validate_image_def Let_def split: if_splits Option.bind_splits)
qed

lemma boot_tries_keeps: "boot_tries R n i s = Some (r, s') \<Longrightarrow> keeps_slots s s'"
proof (induction n arbitrary: i s)
  case (Suc n)
  obtain ret sc where c: "certificate_checks R i s = Some (ret, sc)"
    using Suc.prems by (auto split: Option.bind_splits)
  note k = certificate_checks_keeps [OF c]
  show ?case
  proof (cases "ret = 0")
    case False
    with Suc.prems c show ?thesis by (intro keeps_slots_trans [OF k Suc.IH]) auto
  next
    case True
    then obtain ok s2 where l: "BOOT_OTA_LoadIMGAll R i sc = Some (ok, s2)"
      using Suc.prems c by (auto split: Option.bind_splits)
    have k2: "keeps_slots s s2" by (rule keeps_slots_trans [OF k LoadIMGAll_cases(1) [OF l]])
    show ?thesis
    proof (cases ok)
      case ok: True
      with Suc.prems c True l k2 show ?thesis by simp
    next
      case False
      with Suc.prems c True l show ?thesis by (intro keeps_slots_trans [OF k2 Suc.IH]) auto
    qed
  qed
qed simp

section \<open>A start\<close>

text \<open>What the tries need of a slot.\<close>

definition slot_read_in :: "memory \<Rightarrow> nat \<Rightarrow> 'h Boot \<Rightarrow> bool" where
  "slot_read_in f i s \<longleftrightarrow> slot_window f i \<and> region_img2 s ! i = SPI_FLASH_BASE + slot_img2 f i \<and>
     Manifests s ! i = slot_manifest f i"

lemma slot_read_in_keeps: "keeps_slots s s' \<Longrightarrow> slot_read_in f i s' = slot_read_in f i s"
  by (simp add: slot_read_in_def keeps_slots_def)

text \<open>Slot \<open>i\<close> of the flash \<open>f\<close> was started from \<open>s\<close> with the final state \<open>s'\<close>.\<close>

definition started :: "'h BootRom \<Rightarrow> ('h \<Rightarrow> bool) \<Rightarrow> memory \<Rightarrow> nat \<Rightarrow> 'h Boot \<Rightarrow> 'h Boot \<Rightarrow> bool" where
  "started R hw_ok f i s s' \<longleftrightarrow> i < 2 \<and> slot_loadable f i \<and>
     (\<exists>sa sc m. keeps_slots s sa \<and> slot_read_in f i sa \<and> certificate_checks R i sa = Some (0, sc) \<and> hw_ok (hw sc) \<and>
       validate_image R i (slot_infos f i) (sc\<lparr>hw := slot_hw R f i (hw sc), boot_ram := m\<rparr>) = Some (True, s'))"

context flash_view
begin

lemma rand_hw_ok: "rand_keeps R hw_ok"
  using rand_ok by (simp add: rand_keeps_def)

lemma tries_started:
  assumes R: "plain_map R" and "boot_tries R n i s = Some (Some j, s')" and "i < 2"
    and "hw_ok (hw s)" and "bl_flash s = f"
    and "\<And>k. k < 2 \<Longrightarrow> k = i \<or> 1 < n \<Longrightarrow> slot_read_in f k s"
  shows "started R hw_ok f j s s'"
  using assms(2-)
proof (induction n arbitrary: i s)
  case (Suc n)
  obtain ret sc where c: "certificate_checks R i s = Some (ret, sc)"
    using Suc.prems(1) by (auto split: Option.bind_splits)
  note k1 = certificate_checks_keeps [OF c]
  have hc: "hw_ok (hw sc)" by (rule certificate_checks_hw [OF rand_hw_ok Suc.prems(3) c])
  have again: "started R hw_ok f j s s'"
    if k: "keeps_slots s s2" and h: "hw_ok (hw s2)" and t: "boot_tries R n ((i + 1) mod 2) s2 = Some (Some j, s')" for s2
  proof -
    have n: "0 < n" using t by (cases n) auto
    have "slot_read_in f k s2" if "k < 2" for k
      using Suc.prems(5) [OF that] n slot_read_in_keeps [OF k] by simp
    then have "started R hw_ok f j s2 s'"
      using Suc.prems(4) keeps_slotsD(1) [OF k] by (intro Suc.IH [OF t _ h]) auto
    then show ?thesis unfolding started_def using keeps_slots_trans [OF k] by blast
  qed
  show ?case
  proof (cases "ret = 0")
    case False
    with Suc.prems(1) c show ?thesis by (intro again [OF k1 hc]) auto
  next
    case True
    have rd: "slot_read_in f i sc" "bl_flash sc = f"
      using Suc.prems(2,4,5) slot_read_in_keeps [OF k1] keeps_slotsD(1) [OF k1] by auto
    obtain m where l: "BOOT_OTA_LoadIMGAll R i sc =
      (if slot_loadable f i then validate_image R i (slot_infos f i) (sc\<lparr>hw := slot_hw R f i (hw sc), boot_ram := m\<rparr>)
       else Some (False, sc\<lparr>hw := slot_hw R f i (hw sc), boot_ram := m\<rparr>))"
      and h1: "hw_ok (slot_hw R f i (hw sc))"
      using LoadIMGAll_run [OF R hc _ _ rd(2)] rd(1) by (auto simp: slot_read_in_def)
    obtain ok s2 where l2: "BOOT_OTA_LoadIMGAll R i sc = Some (ok, s2)"
      using Suc.prems(1) c True by (auto split: Option.bind_splits)
    show ?thesis
    proof (cases ok)
      case ok: True
      then have "j = i" "s2 = s'" using Suc.prems(1) c True l2 by auto
      moreover have "slot_read_in f i s" using Suc.prems(2,5) by simp
      ultimately show ?thesis
        using l l2 ok True c hc Suc.prems(2) unfolding started_def by (auto split: if_splits)
    next
      case False
      have "hw_ok (hw s2)"
        using l2 [unfolded l] h1 validate_image_hw [OF rand_hw_ok, of "sc\<lparr>hw := slot_hw R f i (hw sc), boot_ram := m\<rparr>" i "slot_infos f i" ok s2]
        by (cases "slot_loadable f i") auto
      moreover have "keeps_slots s s2" by (rule keeps_slots_trans [OF k1 LoadIMGAll_cases(1) [OF l2]])
      ultimately show ?thesis using Suc.prems(1) c True l2 False by (intro again) auto
    qed
  qed
qed simp

text \<open>A run of the whole boot loader that starts a slot.\<close>

lemma boot_started:
  assumes R: "plain_map R" and run: "BOOT_OTA_IMG R s = Some (Some i, s')" and s: "boot_wf s" "hw_ok (hw s)"
    and w: "slot_window (bl_flash s') 0" "slot_window (bl_flash s') 1"
  shows "\<exists>s2. bl_flash s2 = bl_flash s' \<and> started R hw_ok (bl_flash s') i s2 s'"
proof -
  let ?f = "bl_flash s'"
  obtain s1 k s2 where r: "boot_ready hw_ok s1" and sel: "BOOT_OTA_SlotSelect R s1 = (k, s2)"
    and t: "boot_tries R (ValidIMGNum s2) k s2 = Some (Some i, s')"
    using boot_run [OF run s] by blast
  have r': "boot_wf s1" "regions_set s1" "hw_ok (hw s1)" using r by (simp_all add: boot_ready_def)
  note ss = slot_select [OF r' sel]
  have k: "k < 2" using ss(1) by simp
  have f: "bl_flash s1 = ?f"
    using boot_tries_keeps [OF t] ss(2) by (simp add: keeps_slots_def)
  have n: "ValidIMGNum s2 \<noteq> 0" using t by (auto intro!: Nat.gr0I)
  let ?v = "slot_version ?f"
  have valid: "slot_valid ?f j" if "j < 2" "j = k \<or> 1 < ValidIMGNum s2" for j
  proof -
    have "BOOT_OTA_GetCertRollbackVer R \<le> [?v 0, ?v 1] ! j"
      using that n ss(1,8) unfolding f by (intro tried_version [OF ss(1,8), unfolded f]) (auto simp: valid_images_def)
    then have "BOOT_OTA_GetCertRollbackVer R \<le> ?v j" using that(1) by (auto simp: less_2_cases_iff)
    then show ?thesis using rollback_nonneg [of R] by (intro slot_version_valid) linarith
  qed
  have rd: "slot_read_in ?f j s2" if "j < 2" "j = k \<or> 1 < ValidIMGNum s2" for j
    using ss(10,11) [of j] valid [OF that] that(1) w unfolding f
    by (auto simp: slot_read_in_def less_2_cases_iff)
  have "started R hw_ok ?f i s2 s'"
    using ss(2,3) r'(3) f by (intro tries_started [OF R t k _ _ rd]) simp_all
  moreover have "bl_flash s2 = ?f" using ss(2) f by simp
  ultimately show ?thesis by blast
qed

text \<open>With secure boot on, the parts that were started are those the manifest of the slot vouches for.\<close>

lemma started_hash:
  assumes "sboot_on R" and "rom_codes R" and "started R hw_ok f i s s'"
  shows "SBOOT_Validate_ImgHash R (mHashAlg (slot_manifest f i)) (ImgHash (slot_manifest f i))
    (sub_images R s' (slot_infos f i)) = 0"
proof -
  obtain sa sc m where c: "certificate_checks R i sa = Some (0, sc)" and rd: "slot_read_in f i sa"
    and v: "validate_image R i (slot_infos f i) (sc\<lparr>hw := slot_hw R f i (hw sc), boot_ram := m\<rparr>) = Some (True, s')"
    using assms(3) by (auto simp: started_def)
  have "SecureBootEn (sc\<lparr>hw := slot_hw R f i (hw sc), boot_ram := m\<rparr>)"
    using certificate_checks_pass [OF assms(1,2) c] by simp
  from validate_image_pass [OF assms(2) this v] show ?thesis
    using rd keeps_slotsD(3) [OF certificate_checks_keeps [OF c]] by (simp add: slot_read_in_def)
qed

end

section \<open>The remapping registers\<close>

text \<open>The offset register of a region as the header of the RSIP describes it: the physical address in
  units of 32 bytes from bit 9 on, and the enable bit.\<close>

definition remap_offset :: "u32 \<Rightarrow> u32" where
  "remap_offset p = push_bit 9 (drop_bit 5 p AND 0x7FFFFF) OR 1"

locale remap_regs = flash_view +
  fixes REMAPxOR :: "'a \<Rightarrow> u32 \<Rightarrow> u32"
  assumes or_set: "hw_ok h \<Longrightarrow> REMAPxOR (RSIP_MMU_Cmd R i (RSIP_MMU_Config R i lo hi p h)) i = remap_offset p"
    and or_other: "hw_ok h \<Longrightarrow> j \<noteq> i \<Longrightarrow>
      REMAPxOR (RSIP_MMU_Cmd R i (RSIP_MMU_Config R i lo hi p h)) j = REMAPxOR h j"
    and or_rand: "REMAPxOR (snd (rom_rand R h)) j = REMAPxOR h j"
begin

lemma started_offset:
  assumes "started R hw_ok f i s s'"
  shows "REMAPxOR (hw s') 1 = remap_offset (SPI_FLASH_BASE + slot_km0 f i)"
proof -
  obtain sc m where h: "hw_ok (hw sc)"
    and v: "validate_image R i (slot_infos f i) (sc\<lparr>hw := slot_hw R f i (hw sc), boot_ram := m\<rparr>) = Some (True, s')"
    using assms by (auto simp: started_def)
  let ?P = "\<lambda>h. REMAPxOR h 1 = remap_offset (SPI_FLASH_BASE + slot_km0 f i)"
  have rk: "rand_keeps R ?P" by (simp add: rand_keeps_def or_rand)
  have "?P (slot_hw R f i (hw sc))"
    using remap_ok [OF h] by (simp add: slot_hw_def Let_def or_set [OF h] or_other)
  then show ?thesis using validate_image_hw [OF rk _ v] by simp
qed

end

section \<open>Well-formed states\<close>

text \<open>The sizes of the arrays of the program, and the ranges of its counters: the headers have the field
  lengths of the structs, a version is -1 or a 32-bit number, and there are at most two images to try.\<close>

definition cert_typed :: "Certificate_TypeDef \<Rightarrow> bool" where
  "cert_typed c \<longleftrightarrow> length (cPattern c) = 8 \<and> length (cRsvd1 c) = 8 \<and> length (cSBPubKey c) = 144 \<and>
     length (PKInfo c) = 5 \<and> (\<forall>e \<in> set (PKInfo c). length (snd e) = 32)"

definition manifest_typed :: "Manifest_TypeDef \<Rightarrow> bool" where
  "manifest_typed m \<longleftrightarrow> length (mPattern m) = 8 \<and> length (mRsvd1 m) = 8 \<and> length (RsipIV m) = 16 \<and>
     length (ImgHash m) = 64 \<and> length (mSBPubKey m) = 144 \<and> length (mSignature m) = 144"

definition ver_typed :: "int \<Rightarrow> bool" where
  "ver_typed v \<longleftrightarrow> v = - 1 \<or> 0 \<le> v \<and> v < 2 ^ 32"

definition boot_typed :: "'h Boot \<Rightarrow> bool" where
  "boot_typed s \<longleftrightarrow> boot_wf s \<and> length (region_cert s) = 2 \<and> length (region_img2 s) = 2 \<and>
     list_all cert_typed (Certs s) \<and> list_all manifest_typed (Manifests s) \<and>
     list_all (\<lambda>g. length g = 144) (Signatures s) \<and> list_all ver_typed (Vers s) \<and> ValidIMGNum s \<le> 2"

lemma length_bus_read [simp]: "length (bus_read R s a n) = n"
  by (simp add: bus_read_def)

lemma Certificate_of_typed: "length b = sizeof_Certificate \<Longrightarrow> cert_typed (Certificate_of b)"
  by (auto simp: cert_typed_def Certificate_of_def sizeof_Certificate_def)

lemma Manifest_of_typed: "length b = sizeof_Manifest \<Longrightarrow> manifest_typed (Manifest_of b)"
  by (simp add: manifest_typed_def Manifest_of_def sizeof_Manifest_def)

lemma full_version_typed [simp]: "ver_typed (full_version a b)" "ver_typed (- 1)"
  using uint_bounded [of "push_bit 16 (ucast a) OR ucast b :: u32"] by (simp_all add: full_version_def ver_typed_def)

lemma list_all_update [simp]: "list_all P xs \<Longrightarrow> P y \<Longrightarrow> list_all P (xs[i := y])"
  using set_update_subset_insert [of xs i y] by (auto simp: list_all_iff)

lemmas typed_simps = boot_typed_def boot_wf_def Certificate_of_typed Manifest_of_typed

lemma typed_valid_images: "boot_typed s \<Longrightarrow> boot_typed (s\<lparr>ValidIMGNum := valid_images VN v\<rparr>)"
  by (simp add: typed_simps valid_images_def)

lemma typed_keeps: "keeps_slots s s' \<Longrightarrow> boot_typed s' = boot_typed s"
  by (simp add: boot_typed_def boot_wf_def keeps_slots_def)

lemma slot_load_typed: "boot_typed s \<Longrightarrow> boot_typed (slot_load R i s)"
  by (simp add: slot_load_def typed_simps Let_def)

lemma SlotSelect_typed:
  "boot_typed s \<Longrightarrow> BOOT_OTA_SlotSelect R s = (k, s') \<Longrightarrow> boot_typed s' \<and> k < 2"
  by (auto simp: BOOT_OTA_SlotSelect_def Let_def typed_valid_images slot_load_typed split: if_splits)

lemma extract_probe_typed: "boot_typed s \<Longrightarrow> boot_typed (snd (extract_probe R i s))"
  by (simp add: extract_probe_def typed_simps Let_def)

lemma extract_other_typed: "boot_typed s \<Longrightarrow> boot_typed (extract_other R i s)"
  by (simp add: extract_other_def typed_simps Let_def)

lemma Extract_SlotSelect_typed:
  assumes "boot_typed s" and "BOOT_Extract_SlotSelect R s = (k, s')"
  shows "boot_typed s'"
proof -
  have z: "boot_typed (x\<lparr>ValidIMGNum := 0\<rparr>)" if "boot_typed x" for x :: "'a Boot"
    using that by (simp add: typed_simps)
  obtain found0 s1 where p0: "extract_probe R 0 s = (found0, s1)" by fastforce
  define p1 where "p1 = (if found0 then (False, s1) else extract_probe R 1 s1)"
  have t1: "boot_typed s1" using extract_probe_typed [OF assms(1), of R 0] p0 by simp
  have t2: "boot_typed (snd p1)" using t1 extract_probe_typed [OF t1, of R 1] by (simp add: p1_def)
  have "s' = (if \<not> found0 \<and> \<not> fst p1 then (snd p1)\<lparr>ValidIMGNum := 0\<rparr>
      else let s3 = extract_other R (((if found0 then 0 else 1) + 1) mod 2) (snd p1)
           in s3\<lparr>ValidIMGNum := valid_images (BOOT_OTA_GetCertRollbackVer R) (Vers s3)\<rparr>)"
    using assms(2) by (cases "found0 \<or> fst p1") (auto simp: BOOT_Extract_SlotSelect_def p0 Let_def p1_def split: prod.splits)
  then show ?thesis by (auto simp: Let_def intro!: z [OF t2] typed_valid_images extract_other_typed [OF t2])
qed

lemma Extract_SignatureCheck_keeps:
  "BOOT_Extract_SignatureCheck R m infos s = (ret, s') \<Longrightarrow> keeps_slots s s'"
  by (auto simp: BOOT_Extract_SignatureCheck_def Let_def split: if_splits prod.splits
      dest!: BOOT_SbootEn_Check_keeps)

lemma extend_valid [simp]: "ValidIMGNum (BootLzma.extend l (BootLzma.more s)) = ValidIMGNum s"
  by (cases s, cases l) (simp add: BootLzma.defs)

lemma extract_image_typed: "boot_typed s \<Longrightarrow> extract_image R a b e s = Some s' \<Longrightarrow> boot_typed s'"
  by (auto simp: extract_image_def typed_simps split: Option.bind_splits)

lemma Extract_typed:
  assumes "boot_typed s" and "BOOT_OTA_Extract R s = Some s'"
  shows "boot_typed s'"
proof -
  obtain i s1 where sel: "BOOT_Extract_SlotSelect R s = (i, s1)" by fastforce
  note t1 = Extract_SlotSelect_typed [OF assms(1) sel]
  define info where "info = \<lparr>Addr = region_cert s1 ! i + BOOT_OTA_GetManifestSize (Manifests s1 ! i),
    Len = ImgSize (Manifests s1 ! i)\<rparr>"
  obtain ret s2 where chk: "BOOT_Extract_SignatureCheck R (Manifests s1 ! i) [info] s1 = (ret, s2)" by fastforce
  have t2: "boot_typed s2" using typed_keeps [OF Extract_SignatureCheck_keeps [OF chk]] t1 by simp
  have fl: "boot_typed (x\<lparr>bl_flash := g\<rparr>) = boot_typed x" for x :: "'a Boot" and g
    by (simp add: boot_typed_def boot_wf_def)
  show ?thesis
    using assms(2) t1 t2 chk
    by (auto simp: BOOT_OTA_Extract_def sel Let_def fl info_def
        split: if_splits Option.bind_splits prod.splits dest: extract_image_typed)
qed

lemma Region_Init_typed: "boot_typed s \<Longrightarrow> boot_typed (BOOT_OTA_Region_Init s)"
  by (simp add: BOOT_OTA_Region_Init_def typed_simps Let_def)

lemma boot_tries_index: "boot_tries R n k s = Some (Some i, s') \<Longrightarrow> k < 2 \<Longrightarrow> i < 2"
proof (induction n arbitrary: k s)
  case (Suc n)
  then show ?case by (auto split: Option.bind_splits if_splits)
qed simp

lemma boot_typed_run:
  assumes "boot_typed s" and "BOOT_OTA_IMG R s = Some (r, s')"
  shows "boot_typed s'" and "r = Some i \<Longrightarrow> i < 2"
proof -
  obtain s1 where s1: "(if CONFIG_COMPRESS_OTA_IMG R then BOOT_OTA_Extract R (BOOT_OTA_Region_Init s)
      else Some (BOOT_OTA_Region_Init s)) = Some s1"
    using assms(2) by (auto simp: BOOT_OTA_IMG_def split: Option.bind_splits)
  have t1: "boot_typed s1"
    using s1 Region_Init_typed [OF assms(1)] by (auto split: if_splits dest: Extract_typed [rotated])
  obtain k s2 where sel: "BOOT_OTA_SlotSelect R s1 = (k, s2)" by fastforce
  note t2 = SlotSelect_typed [OF t1 sel]
  obtain r3 s3 where t: "boot_tries R (ValidIMGNum s2) k s2 = Some (r3, s3)"
    and fin: "r = r3" "s' = (if r3 = None then BOOT_Validate_Fail_Stuck s3 else s3)"
    using assms(2) unfolding BOOT_OTA_IMG_def s1 by (auto simp: sel split: Option.bind_splits option.splits)
  have "keeps_slots s2 s'"
    using boot_tries_keeps [OF t] fin(2) by (simp add: BOOT_Validate_Fail_Stuck_def)
  then show "boot_typed s'" using t2 typed_keeps by blast
  show "i < 2" if "r = Some i" using boot_tries_index t t2 fin(1) that by blast
qed

section \<open>Applications\<close>

text \<open>The version in the header of an image, and an image the boot loader can start from slot \<open>i\<close>,
  whatever else is in the flash.\<close>

definition image_version :: "u8 list \<Rightarrow> int" where
  "image_version im =
     (if take 8 im = APP_IMAGE_PATTERN then full_version (le16 (bytes_at im 20 2)) (le16 (bytes_at im 22 2)) else - 1)"

definition slot_holds :: "memory \<Rightarrow> nat \<Rightarrow> u8 list \<Rightarrow> bool" where
  "slot_holds f i im \<longleftrightarrow> mem_read f (slot_base i) (length im) = im"

definition app_image :: "int \<Rightarrow> nat \<Rightarrow> u8 list \<Rightarrow> bool" where
  "app_image VN i im \<longleftrightarrow> 24 \<le> length im \<and> VN \<le> image_version im \<and>
     (\<forall>f. slot_holds f i im \<longrightarrow> slot_loadable f i \<and> slot_window f i)"

lemma slot_version_read:
  "slot_version f i =
     (if mem_read f (slot_base i) 8 = APP_IMAGE_PATTERN
      then full_version (le16 (mem_read f (slot_base i + 20) 2)) (le16 (mem_read f (slot_base i + 22) 2)) else - 1)"
  by (simp add: slot_version_def slot_valid_def slot_cert_def Certificate_of_def sizeof_Certificate_def drop_mem_read)

lemma slot_holds_version:
  assumes "slot_holds f i im" and "24 \<le> length im"
  shows "slot_version f i = image_version im"
proof -
  have sub: "mem_read f (slot_base i + of_nat k) n = take n (drop k im)" if "k + n \<le> 24" for k n
    using assms that mem_read_sub [of f "slot_base i" im k n] by (simp add: slot_holds_def)
  from sub [of 0 8] sub [of 20 2] sub [of 22 2] show ?thesis
    by (simp add: slot_version_read image_version_def)
qed

lemma app_image_slot:
  assumes "app_image VN i im" and "slot_holds f i im"
  shows "slot_version f i = image_version im" "VN \<le> slot_version f i" "slot_loadable f i" "slot_window f i"
  using assms slot_holds_version [OF assms(2)] by (simp_all add: app_image_def)

lemma boot_choice_newer:
  assumes "i < 2" and "VN \<le> slot_version f i" and "slot_loadable f i" and "slot_version f (1 - i) < slot_version f i"
  shows "boot_choice VN f = Some i"
  using assms by (auto simp: boot_choice_def Let_def less_2_cases_iff)

lemma pattern_differs: "APP_IMAGE_PATTERN \<noteq> CompressFlag"
  by (simp add: APP_IMAGE_PATTERN_def CompressFlag_def le32_bytes_def)

lemma not_compressed: "0 \<le> slot_version f i \<Longrightarrow> \<not> slot_compressed f i"
  using pattern_differs by (auto simp: slot_version_read slot_compressed_def split: if_splits)

lemma no_version: "mem_read f (slot_base i) 8 \<noteq> APP_IMAGE_PATTERN \<Longrightarrow> slot_version f i = - 1"
  by (simp add: slot_version_read)

section \<open>Starting the newer application\<close>

context flash_view
begin

lemma start_newer:
  assumes R: "plain_boot R" and s: "boot_plain_state s" "boot_wf s" "hw_ok (hw s)" and i: "i < 2"
    and im: "app_image (BOOT_OTA_GetCertRollbackVer R) i im" "slot_holds (bl_flash s) i im"
    and other: "slot_version (bl_flash s) (1 - i) < image_version im" "\<not> slot_compressed (bl_flash s) (1 - i)"
      "BOOT_OTA_GetCertRollbackVer R \<le> slot_version (bl_flash s) (1 - i) \<Longrightarrow> slot_window (bl_flash s) (1 - i)"
  shows "\<exists>s'. BOOT_OTA_IMG R s = Some (Some i, s') \<and> bl_flash s' = bl_flash s"
proof -
  note a = app_image_slot [OF im]
  have "\<not> slot_compressed (bl_flash s) i" using a(2) rollback_nonneg [of R] by (intro not_compressed) linarith
  then have nc: "\<not> slot_compressed (bl_flash s) 0" "\<not> slot_compressed (bl_flash s) 1"
    using other(2) i by (auto simp: less_2_cases_iff)
  have "slot_window (bl_flash s) k" if "k < 2" "BOOT_OTA_GetCertRollbackVer R \<le> slot_version (bl_flash s) k" for k
    using that i a(4) other(3) by (auto simp: less_2_cases_iff)
  moreover have "boot_choice (BOOT_OTA_GetCertRollbackVer R) (bl_flash s) = Some i"
    using a other(1) i by (intro boot_choice_newer) auto
  ultimately show ?thesis using boot_plain_result [OF R s refl nc] by simp
qed

end

section \<open>Starting a compressed update\<close>

text \<open>Without secure boot the extraction leaves secure boot off.\<close>

lemma Extract_SlotSelect_flags:
  "BOOT_Extract_SlotSelect R s = (i, s') \<Longrightarrow>
     SecureBootEn s' = SecureBootEn s \<and> SecureBootEn_PQC s' = SecureBootEn_PQC s"
  by (auto simp: BOOT_Extract_SlotSelect_def extract_probe_def extract_other_def Let_def
      split: if_splits prod.splits)

lemma Extract_plain:
  assumes "plain_boot R" and "boot_plain_state s" and "BOOT_OTA_Extract R s = Some s'"
  shows "boot_plain_state s'"
proof -
  obtain i s1 where sel: "BOOT_Extract_SlotSelect R s = (i, s1)" by fastforce
  have t1: "boot_plain_state s1"
    using sel assms(2) Extract_SlotSelect_flags [OF sel] by (simp add: boot_plain_state_def)
  define info where "info = \<lparr>Addr = region_cert s1 ! i + BOOT_OTA_GetManifestSize (Manifests s1 ! i),
    Len = ImgSize (Manifests s1 ! i)\<rparr>"
  have chk: "BOOT_Extract_SignatureCheck R (Manifests s1 ! i) [info] s1 = (0, s1)"
    using assms(1) t1
    by (simp add: BOOT_Extract_SignatureCheck_def BOOT_SbootEn_Check_def plain_boot_def boot_plain_state_def)
  have fl: "boot_plain_state (x\<lparr>bl_flash := g\<rparr>) = boot_plain_state x" for x :: "'a Boot" and g
    by (simp add: boot_plain_state_def)
  have ex: "extract_image R a b e s1 = Some s2 \<Longrightarrow> boot_plain_state s2" for a b e s2
    using t1 by (auto simp: extract_image_def boot_plain_state_def split: Option.bind_splits)
  show ?thesis
    using assms(3) t1 chk
    by (auto simp: BOOT_OTA_Extract_def sel Let_def fl info_def
        split: if_splits Option.bind_splits prod.splits dest: ex)
qed

lemma flag_cleared_read: "mem_read (flag_cleared f) 0x214000 8 = replicate 8 0"
  by (rule nth_equalityI) (auto simp: flag_cleared_def flash_prog_def)

lemma zeros_no_image:
  assumes "mem_read f (slot_base i) 8 = replicate 8 0"
  shows "slot_version f i = - 1" and "\<not> slot_valid f i" and "\<not> slot_compressed f i"
proof -
  have "APP_IMAGE_PATTERN ! 0 \<noteq> 0" "CompressFlag ! 0 \<noteq> 0"
    by (simp_all add: APP_IMAGE_PATTERN_def CompressFlag_def le32_bytes_def)
  then have "replicate 8 0 \<noteq> APP_IMAGE_PATTERN" "replicate 8 0 \<noteq> CompressFlag"
    by (metis nth_replicate zero_less_numeral)+
  with assms show "slot_version f i = - 1" "\<not> slot_valid f i" "\<not> slot_compressed f i"
    by (simp_all add: slot_version_read slot_compressed_def slot_valid_def slot_cert_def Certificate_of_def
        sizeof_Certificate_def)
qed

lemma flag_cleared_outside: "unat x < 0x214000 \<or> 0x214008 \<le> unat x \<Longrightarrow> flag_cleared f x = f x"
  unfolding flag_cleared_def by (rule flash_prog_outside) (auto simp: unat_sub_if')

lemma compressed_holds:
  assumes "compressed_update R f fs ps" and "wrote 0x14000 (concat ps) (0x14000 + length fs * 16384) f f1"
  shows "slot_holds (flag_cleared f1) 0 (concat ps)"
proof -
  have len: "length (concat ps) \<le> 122 * 16384"
    using assms(1) prefix_bound [of ps 16384 "length ps"] list_all2_lengthD [of _ fs ps]
    by (auto simp: compressed_update_def)
  have "wrote (unat (0x14000 :: u32)) (concat ps) (0x14000 + length fs * 16384) f f1" using assms(2) by simp
  then have "mem_read f1 0x14000 (length (concat ps)) = concat ps" using len by (intro wrote_read) auto
  moreover have "mem_read (flag_cleared f1) 0x14000 (length (concat ps)) = mem_read f1 0x14000 (length (concat ps))"
    using len by (intro nth_equalityI) (auto intro!: flag_cleared_outside simp: unat_add_of_nat_no_wrap)
  ultimately show ?thesis by (simp add: slot_holds_def slot_base_def)
qed

context flash_view
begin

lemma start_compressed:
  assumes nf: "nor_flash (FLASH_TxData R) (FLASH_Erase R) fsize" "0x400000 \<le> fsize"
    and R: "plain_boot R" "CONFIG_COMPRESS_OTA_IMG R"
    and s: "boot_plain_state s" "boot_wf s" "hw_ok (hw s)" "g_curr_block_addr s = 0xFFFFFFFF"
    and u: "compressed_update R (bl_flash s) fs ps" and im: "app_image (BOOT_OTA_GetCertRollbackVer R) 0 (concat ps)"
  shows "\<exists>s'. BOOT_OTA_IMG R s = Some (Some 0, s') \<and> slot_holds (bl_flash s') 0 (concat ps) \<and>
    \<not> slot_valid (bl_flash s') 1 \<and> \<not> slot_compressed (bl_flash s') 1 \<and>
    (\<forall>x. (unat x < 0x14000 \<or> 0x14000 + length fs * 16384 \<le> unat x) \<and> \<not> (0x214000 \<le> unat x \<and> unat x < 0x214008) \<longrightarrow>
      bl_flash s' x = bl_flash s x)"
proof -
  let ?VN = "BOOT_OTA_GetCertRollbackVer R"
  let ?s0 = "BOOT_OTA_Region_Init s"
  have r0: "boot_ready hw_ok ?s0" "bl_flash ?s0 = bl_flash s" "boot_plain_state ?s0" "g_curr_block_addr ?s0 = 0xFFFFFFFF"
    "\<not> SecureBootEn ?s0"
    using s by (simp_all add: boot_ready_def boot_plain_state_def Region_Init_facts)
      (simp add: BOOT_OTA_Region_Init_def Let_def)
  have off: "\<not> sboot_on R" using R(1) by (simp add: sboot_on_def plain_boot_def)
  obtain s1 f1 where ex: "BOOT_OTA_Extract R ?s0 = Some s1" "boot_ready hw_ok s1" "bl_flash s1 = flag_cleared f1"
    and w: "wrote 0x14000 (concat ps) (0x14000 + length fs * 16384) (bl_flash s) f1"
    using Extract_run [OF nf r0(1,5,4,2) u] off by auto
  let ?f = "flag_cleared f1"
  have h: "slot_holds ?f 0 (concat ps)" by (rule compressed_holds [OF u w])
  have "mem_read ?f (slot_base 1) 8 = replicate 8 0" using flag_cleared_read by (simp add: slot_base_def)
  note n1 = zeros_no_image [OF this]
  note a = app_image_slot [OF im h]
  have "boot_choice ?VN ?f = Some 0"
    using a n1(1) rollback_nonneg [of R] by (intro boot_choice_newer) auto
  moreover have "slot_window ?f i" if "i < 2" "?VN \<le> slot_version ?f i" for i
    using that a(4) n1(1) rollback_nonneg [of R] by (auto simp: less_2_cases_iff)
  ultimately obtain s' where "BOOT_OTA_IMG R s = Some (Some 0, s')" "bl_flash s' = ?f"
    using boot_from_extract [OF R(1) Extract_plain [OF R(1) r0(3) ex(1)] ex(2,3), of s] R(2) ex(1) by auto
  then show ?thesis using h n1(2,3) w flag_cleared_outside [of _ f1] by (auto simp: wrote_def)
qed

end

end
