(* ===== verification/Boot_Safety.thy ===== *)
theory Boot_Safety
  imports Boot_Start
begin

text \<open>
  The properties of the boot loader, and a machine on which they are tried out: a remapping flash
  controller, a ROM and flash contents with small applications.
\<close>

section \<open>A machine\<close>

text \<open>
  The remapping of the RSIP as its data sheet describes it: a list of regions, the latest first; an address
  in a region is read from the physical address of the region on. The ROM around it: keys are compared
  with their hash byte by byte and every signature of a known key is accepted.
\<close>

type_synonym rsip = "(u32 \<times> u32 \<times> u32 \<times> u32) list"

definition rsip_xip :: "rsip \<Rightarrow> memory \<Rightarrow> u32 \<Rightarrow> u8" where
  "rsip_xip h f a =
     (case find (\<lambda>(i, lo, hi, p). lo \<le> a \<and> a \<le> hi) h of
        None \<Rightarrow> f (a - SPI_FLASH_BASE)
      | Some (i, lo, hi, p) \<Rightarrow> f (a - lo + p - SPI_FLASH_BASE))"

definition rsip_config :: "u32 \<Rightarrow> u32 \<Rightarrow> u32 \<Rightarrow> u32 \<Rightarrow> rsip \<Rightarrow> rsip" where
  "rsip_config i lo hi p h = (i, lo, hi, p) # filter (\<lambda>r. fst r \<noteq> i) h"

definition rsip_high :: "rsip \<Rightarrow> bool" where
  "rsip_high h \<longleftrightarrow> (\<forall>(i, lo, hi, p) \<in> set h. 0x0C000000 \<le> lo)"

definition demo_rom :: "bool \<Rightarrow> rsip BootRom" where
  "demo_rom secure =
     \<lparr>CONFIG_IMG1_PQC_SBOOT = False, CONFIG_TRUSTZONE_EN = False, CONFIG_COMPRESS_OTA_IMG = True,
      SYSCFG_OTP_AntiRollback = True, SYSCFG_OTP_RMAMode = False, SYSCFG_OTP_SBootEn = secure,
      SYSCFG_OTP_RSIPEn = False, SYSCFG_OTP_RDPEn = False, SYSCFG_OTP_RSIPMode = 0,
      otp_read8 = \<lambda>_. 0, SEC_BOOT_IMGVER0 = 0xFFFF, Cert_PKHash_OTP_ADDR = 0x320,
      rom_rand = \<lambda>h. (7, h), xip = rsip_xip, RSIP_IV_Set = \<lambda>_ _ h. h,
      RSIP_OTF_Enable = \<lambda>_ _ _ _ _ h. h, RSIP_OTF_Cmd = \<lambda>h. h, RSIP_MMU_Config = rsip_config,
      RSIP_MMU_Cmd = \<lambda>_ h. h,
      SBOOT_Validate_Algorithm = \<lambda>a h. (0, a, h),
      SBOOT_Validate_PubKey = \<lambda>_ p h. if take 32 p = h then 0 else - 2,
      SBOOT_Validate_Signature = \<lambda>_ _ _ _ _. 0, SBOOT_Validate_ImgHash = \<lambda>_ _ _. 0,
      rtl_crypto_sha2_256 = \<lambda>b. (0, take 32 b), MLDSA65_verify = \<lambda>_ _ _. 0,
      rtl_crypto_aes_cbc_decrypt = \<lambda>_ b. b, rom_LzmaDecode = plain_dec,
      FLASH_TxData = chip_tx, FLASH_Erase = chip_er,
      km0_flash_text_start = 0x0C000020, km4_flash_text_start = 0x0E000020,
      km4_bd_ram_start = 0x30050000, km4_bd_ram_end = 0x30070000\<rparr>"

interpretation demo: flash_view "demo_rom secure" rsip_high for secure
proof (unfold_locales, goal_cases)
  case (1 h a f)
  have "find (\<lambda>(i, lo, hi, p). lo \<le> a \<and> a \<le> hi) h = None"
    using 1 by (auto simp: find_None_iff rsip_high_def)
  then show ?case by (simp add: demo_rom_def rsip_xip_def)
next
  case (2 h lo a hi i p f)
  then show ?case by (simp add: demo_rom_def rsip_xip_def rsip_config_def)
next
  case (3 h lo i hi p)
  then show ?case by (auto simp: demo_rom_def rsip_config_def rsip_high_def)
next
  case (4 h)
  then show ?case by (simp add: demo_rom_def)
qed

text \<open>The offset register of a region that is set up.\<close>

definition rsip_or :: "rsip \<Rightarrow> u32 \<Rightarrow> u32" where
  "rsip_or h i = (case find (\<lambda>r. fst r = i) h of None \<Rightarrow> 0 | Some (j, lo, hi, p) \<Rightarrow> remap_offset p)"

lemma find_other: "j \<noteq> i \<Longrightarrow> find (\<lambda>r. fst r = j) (filter (\<lambda>r. fst r \<noteq> i) h) = find (\<lambda>r. fst r = j) h"
  by (induction h) auto

interpretation demo_regs: remap_regs "demo_rom secure" rsip_high rsip_or for secure
  by unfold_locales (auto simp: demo_rom_def rsip_config_def rsip_or_def find_other)

section \<open>A small application\<close>

text \<open>Certificate, manifest, and four empty parts for either processor; apart from the patterns and the
  major version \<open>v\<close> all is zero. The patterns stand at multiples of eight bytes.\<close>

definition demo_words :: "nat list" where
  "demo_words = [0, 0x400, 0x404, 0x408, 0x40C, 0x600, 0x604, 0x608, 0x60C]"

definition demo_byte :: "u8 \<Rightarrow> nat \<Rightarrow> u8" where
  "demo_byte v k =
     (if k div 8 \<in> set demo_words then APP_IMAGE_PATTERN ! (k mod 8) else if k = 20 then v else 0)"

definition demo_image :: "u8 \<Rightarrow> u8 list" where
  "demo_image v = map (demo_byte v) [0..<0x4000]"

definition demo_state :: "memory \<Rightarrow> rsip Boot" where
  "demo_state f =
     \<lparr>bl_flash = f, output_buf = [], g_last_block_addr = 0, g_curr_block_addr = 0xFFFFFFFF, hw = [],
      boot_ram = \<lambda>_. 0, Certs = replicate 2 (Certificate_of (replicate 356 0)),
      Manifests = replicate 2 (Manifest_of (replicate 400 0)), Signatures = replicate 2 (replicate 144 0),
      Vers = [0, 0], ValidIMGNum = 0, region_cert = [0, 0], region_img2 = [0, 0], SecureBootEn = False,
      SecureBootEn_PQC = False, g_pqc_verify_ret = - 1\<rparr>"

lemma demo_facts:
  "boot_plain_state (demo_state f)" "boot_wf (demo_state f)" "rsip_high (hw (demo_state f))"
  "bl_flash (demo_state f) = f" "plain_boot (demo_rom False)" "plain_map (demo_rom b)"
  "g_curr_block_addr (demo_state f) = 0xFFFFFFFF"
  by (simp_all add: demo_state_def boot_plain_state_def boot_wf_def rsip_high_def plain_boot_def plain_map_def
      demo_rom_def)

text \<open>The fields of a slot that the choice depends on, as bytes of the flash.\<close>

lemma slot_fields:
  "slot_valid f i \<longleftrightarrow> mem_read f (slot_base i) 8 = APP_IMAGE_PATTERN"
  "cVer (slot_cert f i) = f (slot_base i + 16)"
  "MajorKeyVer (slot_cert f i) = le16 (mem_read f (slot_base i + 20) 2)"
  "MinorKeyVer (slot_cert f i) = le16 (mem_read f (slot_base i + 22) 2)"
  "TableSize (slot_cert f i) = le32 (mem_read f (slot_base i + 24) 4)"
  "EntryNum (slot_cert f i) = le32 (mem_read f (slot_base i + 28) 4)"
  "mVer (slot_manifest f i) = f (slot_img2 f i + 16)"
  by (simp_all add: slot_valid_def slot_cert_def slot_manifest_def Certificate_of_def Manifest_of_def
      sizeof_Certificate_def sizeof_Manifest_def drop_mem_read)


lemma length_demo_image [simp]: "length (demo_image v) = 0x4000"
  by (simp add: demo_image_def)

lemma demo_read:
  assumes "slot_holds f i (demo_image v)" and "k + n \<le> 0x4000"
  shows "mem_read f (slot_base i + of_nat k) n = map (\<lambda>j. demo_byte v (k + j)) [0..<n]"
proof -
  have "mem_read f (slot_base i + of_nat k) n = take n (drop k (demo_image v))"
    using assms by (intro mem_read_sub) (simp_all add: slot_holds_def)
  then show ?thesis using assms(2) by (intro nth_equalityI) (simp_all add: demo_image_def)
qed

lemma demo_word:
  assumes "j < 8"
  shows "demo_byte v (8 * w + j) =
    (if w \<in> set demo_words then APP_IMAGE_PATTERN ! j else if w = 2 \<and> j = 4 then v else 0)"
proof -
  have "(8 * w + j) div 8 = w" "(8 * w + j) mod 8 = j" using assms by simp_all
  moreover have "8 * w + j = 20 \<longleftrightarrow> w = 2 \<and> j = 4" using assms by presburger
  ultimately show ?thesis by (simp add: demo_byte_def)
qed

lemma demo_read_pattern:
  assumes "slot_holds f i (demo_image v)" and "w \<in> set demo_words"
  shows "mem_read f (slot_base i + of_nat (8 * w)) 8 = APP_IMAGE_PATTERN"
proof -
  have "8 * w + 8 \<le> 0x4000" using assms(2) by (auto simp: demo_words_def)
  then have "mem_read f (slot_base i + of_nat (8 * w)) 8 = map (\<lambda>j. demo_byte v (8 * w + j)) [0..<8]"
    by (rule demo_read [OF assms(1)])
  also have "\<dots> = map (\<lambda>j. APP_IMAGE_PATTERN ! j) [0..<8]"
    using assms(2) by (intro map_cong refl) (simp add: demo_word)
  also have "\<dots> = APP_IMAGE_PATTERN"
    using map_nth [of APP_IMAGE_PATTERN] by (simp add: APP_IMAGE_PATTERN_def)
  finally show ?thesis .
qed

lemma demo_read_zero:
  assumes "slot_holds f i (demo_image v)" and "w \<notin> set demo_words" and "w \<noteq> 2" and "8 * w + 8 \<le> 0x4000"
    and "k + n \<le> 8"
  shows "mem_read f (slot_base i + of_nat (8 * w + k)) n = replicate n 0"
proof -
  have "mem_read f (slot_base i + of_nat (8 * w + k)) n = map (\<lambda>j. demo_byte v (8 * w + k + j)) [0..<n]"
    using assms(4,5) by (intro demo_read [OF assms(1)]) simp
  also have "\<dots> = map (\<lambda>j. 0) [0..<n]"
    using assms(2,3,5) demo_word [of "k + _" v w] by (intro map_cong refl) (simp add: add.assoc)
  finally show ?thesis by (simp add: map_replicate_const)
qed

lemma demo_header:
  assumes "slot_holds f i (demo_image v)"
  shows "slot_valid f i" "slot_version f i = 65536 * uint v" "slot_img2 f i = slot_base i + 0x1000"
    "slot_km0 f i = slot_base i + 0x2000" "cVer (slot_cert f i) = 0" "mVer (slot_manifest f i) = 0"
    "TableSize (slot_cert f i) = 0" "EntryNum (slot_cert f i) = 0"
proof -
  have p: "mem_read f (slot_base i) 8 = APP_IMAGE_PATTERN"
    using demo_read_pattern [OF assms, of 0] by (simp add: demo_words_def)
  have v: "mem_read f (slot_base i + 20) 2 = [v, 0]" "mem_read f (slot_base i + 22) 2 = [0, 0]"
    using demo_read [OF assms, of 20 2] demo_read [OF assms, of 22 2]
    by (simp_all add: upt_rec demo_byte_def demo_words_def)
  have c: "f (slot_base i + 16) = 0" "f (slot_base i + 0x1010) = 0"
    using demo_read [OF assms, of 16 1] demo_read [OF assms, of 4112 1]
    by (simp_all add: mem_read_def upt_rec demo_byte_def demo_words_def)
  have z: "mem_read f (slot_base i + 24) 4 = replicate 4 0" "mem_read f (slot_base i + 28) 4 = replicate 4 0"
    using demo_read_zero [OF assms, of 3 0 4] demo_read_zero [OF assms, of 3 4 4] by (simp_all add: demo_words_def)
  have "uint (ucast (ucast v :: u16) :: u32) = uint v" by transfer simp
  then have fv: "full_version (ucast v) 0 = 65536 * uint v"
    using uint_bounded [of v] by (simp add: full_version_def push_bit_eq_mult uint_word_ariths)
  show "slot_valid f i" "slot_version f i = 65536 * uint v"
    using p v fv by (simp_all add: slot_fields slot_version_read le16_def)
  show cv: "cVer (slot_cert f i) = 0" using c by (simp add: slot_fields)
  show im: "slot_img2 f i = slot_base i + 0x1000" by (simp add: slot_img2_def cv)
  show "mVer (slot_manifest f i) = 0" using c by (simp add: slot_fields im add.commute [of _ "slot_base i"])
  then show "slot_km0 f i = slot_base i + 0x2000"
    by (simp add: slot_km0_def im BOOT_OTA_GetManifestSize_def)
  show "TableSize (slot_cert f i) = 0" "EntryNum (slot_cert f i) = 0"
    using z by (simp_all add: slot_fields le32_def)
qed

lemma demo_parts:
  assumes "slot_holds f i (demo_image v)" and "w \<in> {0x400, 0x600}"
  defines "p \<equiv> slot_base i + of_nat (8 * w)"
  shows "parts_ok f p 4 0" and "parts_in f p 4 0" and "parts_len f p 4 0 = 128"
proof -
  have part: "take 8 (part_header f p d) = APP_IMAGE_PATTERN \<and> part_len f p d = 32"
    if d: "d \<in> {0, 32, 64, 96}" for d
  proof -
    define u where "u = w + d div 8"
    have u: "u \<in> set demo_words" "u + 1 \<notin> set demo_words" "u + 1 \<noteq> 2" "8 * (u + 1) + 8 \<le> 0x4000"
      and pd: "8 * w + d = 8 * u"
      using d assms(2) by (auto simp: u_def demo_words_def)
    have at: "p + of_nat d = slot_base i + of_nat (8 * u)"
      unfolding p_def pd [symmetric] by simp
    have "mem_read f (slot_base i + of_nat (8 * (u + 1) + 0)) 4 = replicate 4 0"
      by (rule demo_read_zero [OF assms(1) u(2,3,4)]) simp
    then have "mem_read f (slot_base i + of_nat (8 * u) + 8) 4 = replicate 4 0"
      by (simp add: add.assoc add.commute [of 8])
    then show ?thesis
      using demo_read_pattern [OF assms(1) u(1)]
      by (simp add: part_header_def part_len_def drop_mem_read at le32_def)
  qed
  note h = part [of 0, simplified] part [of 32, simplified] part [of 64, simplified] part [of 96, simplified]
  have four: "(4 :: nat) = Suc (Suc (Suc (Suc 0)))" by simp
  show "parts_ok f p 4 0" "parts_in f p 4 0" "parts_len f p 4 0 = 128" unfolding four by (simp_all add: h)
qed

lemma demo_app: "VN \<le> 65536 * uint v \<Longrightarrow> app_image VN i (demo_image v)"
proof -
  assume VN: "VN \<le> 65536 * uint v"
  have "slot_loadable f i \<and> slot_window f i" if h: "slot_holds f i (demo_image v)" for f
  proof -
    note hd = demo_header [OF h]
    have p0: "parts_ok f (slot_km0 f i) 4 0" "parts_in f (slot_km0 f i) 4 0" "parts_len f (slot_km0 f i) 4 0 = 128"
      using demo_parts [OF h, of "0x400"] by (simp_all add: hd(4))
    have km4: "slot_km4 f i = slot_base i + 0x3000"
      unfolding slot_km4_def p0(3) by (simp add: hd(4) Let_def padding_info_def)
    have p1: "parts_ok f (slot_km4 f i) 4 0" "parts_in f (slot_km4 f i) 4 0"
      using demo_parts [OF h, of "0x600"] by (simp_all add: km4)
    show ?thesis using p0 p1 by (simp add: slot_loadable_def slot_window_def)
  qed
  moreover have "image_version (demo_image v) = 65536 * uint v"
  proof -
    define f where "f = mem_write (\<lambda>_. 0) (slot_base 0) (demo_image v)"
    have "slot_holds f 0 (demo_image v)"
      unfolding slot_holds_def f_def by (rule mem_read_write_same) simp
    from slot_holds_version [OF this] demo_header(2) [OF this] show ?thesis by simp
  qed
  ultimately show ?thesis using VN by (simp add: app_image_def)
qed

text \<open>A flash with an application in either slot.\<close>

definition demo_flash :: "u8 \<Rightarrow> u8 \<Rightarrow> memory" where
  "demo_flash a b = mem_write (mem_write (\<lambda>_. 0) 0x14000 (demo_image a)) 0x214000 (demo_image b)"

lemma demo_flash_holds:
  "slot_holds (demo_flash a b) 0 (demo_image a)" "slot_holds (demo_flash a b) 1 (demo_image b)"
proof -
  have "mem_read (mem_write g c (demo_image v)) c (length (demo_image v)) = demo_image v" for g c v
    by (rule mem_read_write_same) simp
  then show "slot_holds (demo_flash a b) 0 (demo_image a)" "slot_holds (demo_flash a b) 1 (demo_image b)"
    by (simp_all add: slot_holds_def slot_base_def demo_flash_def mem_read_write_disjoint)
qed

lemma demo_zeros:
  assumes "slot_holds f i (demo_image v)" and "24 \<le> k" and "k + n \<le> 0x2000"
  shows "mem_read f (slot_base i + of_nat k) n = replicate n 0"
proof -
  have "demo_byte v (k + j) = 0" if "j < n" for j
  proof -
    have "3 \<le> (k + j) div 8" "(k + j) div 8 < 0x400" using assms(2,3) that by auto
    then have "(k + j) div 8 \<notin> set demo_words" by (auto simp: demo_words_def)
    then show ?thesis using assms(2) by (simp add: demo_byte_def)
  qed
  then show ?thesis
    using assms(3) demo_read [OF assms(1), of k n] by (intro nth_equalityI) simp_all
qed

lemma demo_keys:
  assumes "slot_holds f i (demo_image v)"
  shows "cSBPubKey (slot_cert f i) = replicate 144 0" "mSBPubKey (slot_manifest f i) = replicate 144 0"
    "snd (PKInfo (slot_cert f i) ! 0) = replicate 32 0" "length (PKInfo (slot_cert f i)) = 5"
proof -
  note hd = demo_header [OF assms]
  have z: "mem_read f (slot_base i + of_nat k) n = replicate n 0" if "24 \<le> k" "k + n \<le> 0x2000" for k n
    by (rule demo_zeros [OF assms that])
  show "cSBPubKey (slot_cert f i) = replicate 144 0" "snd (PKInfo (slot_cert f i) ! 0) = replicate 32 0"
    "length (PKInfo (slot_cert f i)) = 5"
    using z [of 32 144] z [of 180 32]
    by (simp_all add: slot_cert_def Certificate_of_def sizeof_Certificate_def drop_mem_read)
  show "mSBPubKey (slot_manifest f i) = replicate 144 0"
    using z [of "0x1000 + 112" 144]
    by (simp add: slot_manifest_def Manifest_of_def sizeof_Manifest_def drop_mem_read hd(3) add.commute)
qed

lemma demo_otp: "otp_key (demo_rom True) = replicate 32 0"
  by (rule nth_equalityI) (simp_all add: otp_key_def demo_rom_def)

lemma demo_cert_check:
  assumes "slot_holds f i (demo_image v)" and "Certs s ! i = slot_cert f i"
  shows "certificate_checks (demo_rom True) i s = Some (0, s\<lparr>SecureBootEn := True\<rparr>)"
proof -
  have "otp_hash (\<lambda>_. 0) 0x320 32 7 (replicate 32 0) = replicate 32 0"
    by (subst otp_hash_full) (simp_all add: map_replicate_const)
  moreover have "s\<lparr>hw := hw s, SecureBootEn := True\<rparr> = s\<lparr>SecureBootEn := True\<rparr>" by simp
  ultimately show ?thesis
    using demo_keys(1) [OF assms(1)] demo_header(7) [OF assms(1)]
    by (simp add: certificate_checks_def BOOT_CertificateCheck_def BOOT_SbootEn_Check_def demo_rom_def Let_def
        assms(2) sizeof_Certificate_def)
qed

lemma demo_passes:
  assumes "slot_holds f i (demo_image v)" and "Certs s ! i = slot_cert f i" and "Manifests s ! i = slot_manifest f i"
    and "SecureBootEn s"
  shows "passes (demo_rom True) i s"
proof -
  have "key_index (PKInfo (slot_cert f i)) 0 0 0 = Some 0" by (subst key_index.simps) simp
  then show ?thesis
    using demo_keys(2-4) [OF assms(1)] demo_header(8) [OF assms(1)] assms
    by (simp add: passes_def validate_image_def BOOT_SignatureCheck_def demo_rom_def Let_def cert_key_def)
qed

lemma minus_one_word_u16: "(- 1 :: u16) = 0xFFFF"
  by simp

lemma demo_rollback: "BOOT_OTA_GetCertRollbackVer (demo_rom b) = 0"
proof -
  have "zero_bits (- 1) n = 0" if "n \<le> 16" for n
    using that by (induction n) (auto simp: bit_minus_1_iff possible_bit_def)
  then have "zero_bits 0xFFFF 16 = 0" by (metis le_refl minus_one_word_u16)
  then show ?thesis by (simp add: BOOT_OTA_GetCertRollbackVer_def demo_rom_def)
qed

lemma demo_secure_run:
  "\<exists>s'. BOOT_OTA_IMG (demo_rom True) (demo_state (demo_flash 1 2)) = Some (Some 1, s') \<and>
    bl_flash s' = demo_flash 1 2"
proof -
  let ?R = "demo_rom True" and ?f = "demo_flash 1 2"
  let ?s0 = "BOOT_OTA_Region_Init (demo_state ?f)"
  note h = demo_flash_holds [of 1 2]
  note hd0 = demo_header [OF h(1)] note hd1 = demo_header [OF h(2)]
  note app1 = app_image_slot [OF demo_app h(2), of 0]
  have r0: "boot_ready rsip_high ?s0" "bl_flash ?s0 = ?f"
    using demo_facts by (simp_all add: boot_ready_def Region_Init_facts)
  have nc: "\<not> slot_compressed ?f 0" "\<not> slot_compressed ?f 1"
    by (rule not_compressed; simp add: hd0(2) hd1(2) [simplified])+
  obtain s1 where ex: "BOOT_OTA_Extract ?R ?s0 = Some s1" "boot_ready rsip_high s1" "bl_flash s1 = ?f"
    "SecureBootEn_PQC s1 = SecureBootEn_PQC ?s0"
    using demo.Extract_none [OF r0(1)] nc r0(2) by auto
  have r1: "boot_wf s1" "regions_set s1" "rsip_high (hw s1)" using ex(2) by (simp_all add: boot_ready_def)
  obtain k s2 where sel: "BOOT_OTA_SlotSelect ?R s1 = (k, s2)" by fastforce
  note ss = demo.slot_select [OF r1 sel, unfolded ex(3)]
  note VN = demo_rollback
  have k: "k = 1" "ValidIMGNum s2 = Suc 1"
    using ss(1,8) by (simp_all add: hd0(2) hd1(2) [simplified] VN valid_images_def)
  let ?s3 = "s2\<lparr>SecureBootEn := True\<rparr>"
  have c: "certificate_checks ?R 1 s2 = Some (0, ?s3)"
    using ss(9) [of 1] by (intro demo_cert_check [OF h(2)]) simp
  have p: "passes ?R 1 ?s3"
    using ss(9) [of 1] ss(11) [of 1] hd1(1) by (intro demo_passes [OF h(2)]) simp_all
  have "\<exists>hh m. BOOT_OTA_LoadIMGAll ?R 1 ?s3 = Some (slot_loadable ?f 1, ?s3\<lparr>hw := hh, boot_ram := m\<rparr>) \<and> rsip_high hh"
    using ss(2,3) ss(10) [of 1] ss(11) [of 1] hd1(1) app1(4) r1(3)
    by (intro demo.LoadIMGAll_result [OF demo_facts(6) p]) simp_all
  then obtain s4 where l: "BOOT_OTA_LoadIMGAll ?R 1 ?s3 = Some (True, s4)" "bl_flash s4 = ?f"
    using app1(3) ss(2) by auto
  have "CONFIG_COMPRESS_OTA_IMG ?R" by (simp add: demo_rom_def)
  then show ?thesis
    using ex(1) sel k c l by (simp add: BOOT_OTA_IMG_def)
qed

section \<open>Properties\<close>

text \<open>
  C3. Secure boot: when secure boot is on in the one-time programmable memory, the boot loader starts a
  slot only if its certificate has the pattern and a version that the anti-rollback counter allows, is
  signed by the key whose hash is in the one-time programmable memory, its manifest is signed by the key
  the certificate names, and the parts that were loaded have the hash the manifest states. Without
  encryption and secure world those parts are exactly the ones the headers in that slot describe.
\<close>

theorem boot_secure:
  assumes "flash_view R hw_ok" and "sboot_on R" and "rom_codes R" and "boot_wf s" and "hw_ok (hw s)"
    and "BOOT_OTA_IMG R s = Some (Some i, s')" and "f = bl_flash s'"
  shows "i < 2 \<and> slot_valid f i \<and> BOOT_OTA_GetCertRollbackVer R \<le> slot_version f i \<and>
    cert_authentic R (slot_cert f i) (slot_signature f i) \<and>
    manifest_authentic R (slot_cert f i) (slot_manifest f i) \<and>
    (\<exists>infos. 9 \<le> length infos \<and>
      SBOOT_Validate_ImgHash R (mHashAlg (slot_manifest f i)) (ImgHash (slot_manifest f i))
        (sub_images R s' infos) = 0 \<and>
      (plain_map R \<and> slot_window f 0 \<and> slot_window f 1 \<longrightarrow> slot_loadable f i \<and> infos = slot_infos f i))"
proof -
  note general = flash_view.secure_boot [OF assms(1-6), folded assms(7)]
  show ?thesis
  proof (cases "plain_map R \<and> slot_window f 0 \<and> slot_window f 1")
    case True
    then obtain s2 where st: "started R hw_ok f i s2 s'"
      using flash_view.boot_started [OF assms(1) _ assms(6,4,5)] assms(7) by blast
    have "9 \<le> length (slot_infos f i)" by (simp add: slot_infos_def)
    moreover have "slot_loadable f i" using st by (simp add: started_def)
    ultimately show ?thesis using general flash_view.started_hash [OF assms(1-3) st] by blast
  next
    case False
    with general show ?thesis by blast
  qed
qed

theorem boot_secure_witness:
  "\<exists>s'. BOOT_OTA_IMG (demo_rom True) (demo_state (demo_flash 1 2)) = Some (Some 1, s') \<and>
    cert_authentic (demo_rom True) (slot_cert (demo_flash 1 2) 1) (slot_signature (demo_flash 1 2) 1) \<and>
    manifest_authentic (demo_rom True) (slot_cert (demo_flash 1 2) 1) (slot_manifest (demo_flash 1 2) 1)"
proof -
  obtain s' where run: "BOOT_OTA_IMG (demo_rom True) (demo_state (demo_flash 1 2)) = Some (Some 1, s')"
    "bl_flash s' = demo_flash 1 2"
    using demo_secure_run by blast
  have on: "sboot_on (demo_rom True)" "rom_codes (demo_rom True)"
    by (simp_all add: sboot_on_def rom_codes_def demo_rom_def)
  show ?thesis
    using boot_secure [OF demo.flash_view_axioms on demo_facts(2,3) run(1) refl] run by auto
qed

text \<open>
  C4. Without secure boot the boot loader always starts an application when there is one: if a slot has
  a version the anti-rollback counter allows and all its parts, a slot is started, namely one of the
  highest version among those that can be loaded, and the flash is not changed.
\<close>

theorem boot_newest:
  assumes "flash_view R hw_ok" and "plain_boot R" and "boot_plain_state s" and "boot_wf s" and "hw_ok (hw s)"
    and "VN = BOOT_OTA_GetCertRollbackVer R" and "f = bl_flash s"
    and "\<not> slot_compressed f 0" and "\<not> slot_compressed f 1"
    and "\<forall>i < 2. VN \<le> slot_version f i \<longrightarrow> slot_window f i"
    and "j < 2" and "VN \<le> slot_version f j" and "slot_loadable f j"
  shows "\<exists>i s'. BOOT_OTA_IMG R s = Some (Some i, s') \<and> i < 2 \<and> VN \<le> slot_version f i \<and> slot_loadable f i \<and>
    (\<forall>k < 2. VN \<le> slot_version f k \<and> slot_loadable f k \<longrightarrow> slot_version f k \<le> slot_version f i) \<and>
    bl_flash s' = f"
proof -
  obtain i where i: "i < 2" "boot_choice VN f = Some i" "VN \<le> slot_version f i" "slot_loadable f i"
    "\<forall>k < 2. VN \<le> slot_version f k \<and> slot_loadable f k \<longrightarrow> slot_version f k \<le> slot_version f i"
    using boot_choice_some [OF assms(11-13)] by blast
  obtain s' where "BOOT_OTA_IMG R s = Some (boot_choice VN f, s')" "bl_flash s' = f"
    using flash_view.boot_plain_result [OF assms(1-5), of f] assms(6-10) by auto
  with i show ?thesis by auto
qed

theorem boot_newest_witness:
  "\<exists>i s'. BOOT_OTA_IMG (demo_rom False) (demo_state (demo_flash 1 2)) = Some (Some i, s') \<and> i = 1 \<and>
    bl_flash s' = demo_flash 1 2"
proof -
  let ?f = "demo_flash 1 2"
  note h = demo_flash_holds [of 1 2]
  note v = demo_header(2) [OF h(1)] demo_header(2) [OF h(2)]
  note a0 = app_image_slot [OF demo_app h(1), of 0] note a1 = app_image_slot [OF demo_app h(2), of 0]
  have nc: "\<not> slot_compressed ?f 0" "\<not> slot_compressed ?f 1"
    by (rule not_compressed; simp add: v(1) v(2) [simplified])+
  have w: "\<forall>i < 2. 0 \<le> slot_version ?f i \<longrightarrow> slot_window ?f i"
    using a0(4) a1(4) by (auto simp: less_2_cases_iff)
  obtain i s' where r: "BOOT_OTA_IMG (demo_rom False) (demo_state ?f) = Some (Some i, s')" "i < 2"
    "\<forall>k < 2. 0 \<le> slot_version ?f k \<and> slot_loadable ?f k \<longrightarrow> slot_version ?f k \<le> slot_version ?f i"
    "bl_flash s' = ?f"
    using boot_newest [OF demo.flash_view_axioms demo_facts(5,1,2,3) demo_rollback [symmetric] demo_facts(4) [symmetric] nc w,
        of 1] a1 by auto
  have "i = 1" using r(2) r(3) [rule_format, of 1] a1(3) v(1) v(2) [simplified]
    by (auto simp: less_2_cases_iff)
  with r show ?thesis by blast
qed

text \<open>
  C32. The types of the boot loader's data are kept: whatever the flash holds and whichever way the run ends,
  the arrays keep their sizes and the headers their field lengths, a version is -1 or a 32-bit number,
  at most two images are counted, and the slot that is started is one of the two.
\<close>

theorem boot_types_kept:
  assumes "boot_typed s" and "BOOT_OTA_IMG R s = Some (r, s')"
  shows "boot_typed s' \<and> (\<forall>i. r = Some i \<longrightarrow> i < 2)"
  using boot_typed_run [OF assms] by blast

theorem boot_types_kept_witness:
  "\<exists>s'. BOOT_OTA_IMG (demo_rom True) (demo_state (demo_flash 1 2)) = Some (Some 1, s') \<and> boot_typed s'"
proof -
  have "cert_typed (Certificate_of (replicate 356 0))" "manifest_typed (Manifest_of (replicate 400 0))"
    by (intro Certificate_of_typed Manifest_of_typed; simp add: sizeof_Certificate_def sizeof_Manifest_def)+
  then have "boot_typed (demo_state f)" for f
    by (simp add: boot_typed_def boot_wf_def demo_state_def ver_typed_def numeral_2_eq_2)
  then show ?thesis using demo_secure_run boot_types_kept by blast
qed

section \<open>Compressed updates\<close>

text \<open>
  C8. A compressed update that lies in the second slot is started, without secure boot: the boot loader
  extracts it over the first slot, byte for byte, makes the compressed copy unusable so that the next
  start does not extract it again, and starts the first slot. The contents of the first slot before, for
  instance of an extraction that was cut off, do not matter as long as their version is not newer;
  nothing else of the flash changes.
\<close>

theorem compressed_update_started:
  assumes "flash_view R hw_ok" and "nor_flash (FLASH_TxData R) (FLASH_Erase R) fsize" and "0x400000 \<le> fsize"
    and "plain_boot R" and "CONFIG_COMPRESS_OTA_IMG R"
    and "boot_plain_state s" and "boot_wf s" and "hw_ok (hw s)" and "g_curr_block_addr s = 0xFFFFFFFF"
    and "compressed_update R (bl_flash s) fs ps" and "app_image (BOOT_OTA_GetCertRollbackVer R) 0 (concat ps)"
  shows "\<exists>s'. BOOT_OTA_IMG R s = Some (Some 0, s') \<and> slot_holds (bl_flash s') 0 (concat ps) \<and>
    \<not> slot_valid (bl_flash s') 1 \<and> \<not> slot_compressed (bl_flash s') 1 \<and>
    (\<forall>x. (unat x < 0x14000 \<or> 0x14000 + length fs * 16384 \<le> unat x) \<and> \<not> (0x214000 \<le> unat x \<and> unat x < 0x214008) \<longrightarrow>
      bl_flash s' x = bl_flash s x)"
  by (rule flash_view.start_compressed [OF assms])

text \<open>An update that holds a small application, with a manifest whose key begins with the byte \<open>key\<close>.\<close>

definition update_pieces :: "u8 list list" where
  "update_pieces = map (\<lambda>k. take 4096 (drop (4096 * k) (demo_image 3))) [0..<4]"

definition update_flash :: "u8 \<Rightarrow> memory" where
  "update_flash key =
     mem_write (mem_write (mem_write (\<lambda>_. 0) 0x214000 CompressFlag) 0x214070 [key]) 0x215000
       (lzma_container (map plain_file update_pieces))"

lemma concat_take_drop: "concat (map (\<lambda>k. take n (drop (n * k) xs)) [0..<m]) = take (n * m) xs"
proof (induction m)
  case (Suc m)
  have "take (n * Suc m) xs = take (n * m) xs @ take n (drop (n * m) xs)"
    using take_add [of "n * m" n xs] by (simp add: add.commute)
  then show ?case using Suc by simp
qed simp

lemma update_pieces:
  "concat update_pieces = demo_image 3" "length update_pieces = 4" "p \<in> set update_pieces \<Longrightarrow> length p = 4096"
  by (auto simp: update_pieces_def concat_take_drop)

lemma plain_piece: "length p \<le> 16384 \<Longrightarrow> lzma_piece plain_dec (plain_file p) p"
  by (simp add: lzma_piece_def plain_file_def plain_dec_def nth_append)

lemma length_update: "length (lzma_container (map plain_file update_pieces)) = 16450"
proof -
  have "length (concat (map plain_file ps)) = length ps * 4110" "length (concat (map (\<lambda>f. le16_bytes (of_nat (length f))) (map plain_file ps))) = length ps * 2"
    if "\<forall>p \<in> set ps. length p = 4096" for ps
    using that by (induction ps) (simp_all add: plain_file_def)
  then show ?thesis using update_pieces(2,3) by (simp add: lzma_container_def)
qed

lemma update_bytes:
  "mem_read (update_flash key) 0x14000 8 = replicate 8 0" "mem_read (update_flash key) 0x214000 8 = CompressFlag"
  "update_flash key 0x214010 = 0" "mem_read (update_flash key) 0x214014 2 = replicate 2 0"
  "mem_read (update_flash key) 0x214016 2 = replicate 2 0" "mem_read (update_flash key) 0x214018 4 = replicate 4 0"
  "update_flash key 0x214070 = key"
  "mem_read (update_flash key) 0x215000 16450 = lzma_container (map plain_file update_pieces)"
proof -
  let ?c = "lzma_container (map plain_file update_pieces)"
  have low: "update_flash key x = (if unat x = 0x214070 then key else
      if 0x214000 \<le> unat x \<and> unat x < 0x214008 then CompressFlag ! (unat x - 0x214000) else 0)"
    if "unat x < 0x215000" for x
    using that by (auto simp: update_flash_def mem_write_nat length_update CompressFlag_def)
  have rd: "mem_read (update_flash key) a n = map (\<lambda>j. update_flash key (a + of_nat j)) [0..<n]" for a n
    by (simp add: mem_read_def)
  have u: "unat (a + of_nat j) = unat a + j" if "unat a < 0x215000" "j < 8" for a :: u32 and j
    using that by (intro unat_add_of_nat_no_wrap) simp
  show "mem_read (update_flash key) 0x14000 8 = replicate 8 0" "mem_read (update_flash key) 0x214014 2 = replicate 2 0"
    "mem_read (update_flash key) 0x214016 2 = replicate 2 0" "mem_read (update_flash key) 0x214018 4 = replicate 4 0"
    "mem_read (update_flash key) 0x214000 8 = CompressFlag"
    by (intro nth_equalityI; simp add: low u CompressFlag_def)+
  show "update_flash key 0x214010 = 0" "update_flash key 0x214070 = key" by (simp_all add: low)
  show "mem_read (update_flash key) 0x215000 16450 = ?c"
    using mem_read_write_same [of ?c] by (simp add: update_flash_def length_update)
qed

lemma demo_update: "compressed_update (demo_rom b) (update_flash key) (map plain_file update_pieces) update_pieces"
proof -
  let ?f = "update_flash key"
  note ub = update_bytes [of key]
  have z: "le16 (replicate 2 0) = 0" "le32 (replicate 4 0) = 0" by (simp_all add: le16_def le32_def numeral_2_eq_2)
  have m: "mVer (extract_manifest ?f 1) = 0" "ImgSize (extract_manifest ?f 1) = 0" "extract_version ?f 1 = 0"
    using ub by (simp_all add: extract_manifest_def extract_version_def Manifest_of_def sizeof_Manifest_def slot_base_def
        drop_mem_read z full_version_def)
  have at: "extract_at ?f 1 = 0x215000"
    using m(1) by (simp add: extract_at_def slot_base_def BOOT_OTA_GetManifestSize_def)
  have s0: "\<not> slot_compressed ?f 0" "slot_version ?f 0 = - 1"
    using zeros_no_image [of ?f 0] ub(1) by (simp_all add: slot_base_def)
  have s1: "slot_compressed ?f 1" using ub(2) by (simp add: slot_compressed_def slot_base_def)
  have pieces: "list_all2 (lzma_piece plain_dec) (map plain_file update_pieces) update_pieces"
    using update_pieces(3) by (auto simp: list_all2_conv_all_nth intro!: plain_piece)
  have dec: "rom_LzmaDecode (demo_rom b) = plain_dec" by (simp add: demo_rom_def)
  have len: "\<forall>p \<in> set update_pieces. length p \<le> 16384" "\<forall>p \<in> set (butlast update_pieces). length p mod 4096 = 0"
    using update_pieces(3) by (auto dest!: in_set_butlastD)
  show ?thesis
    unfolding compressed_update_def at length_update dec
    using s0 s1 m pieces len ub(8) update_pieces(2) by (simp add: demo_rollback)
qed

theorem compressed_update_started_witness:
  "\<exists>s'. BOOT_OTA_IMG (demo_rom False) (demo_state (update_flash 0)) = Some (Some 0, s') \<and>
    mem_read (bl_flash s') 0x14000 0x4000 = demo_image 3"
proof -
  have nf: "nor_flash (FLASH_TxData (demo_rom False)) (FLASH_Erase (demo_rom False)) chip_size"
    "0x400000 \<le> chip_size"
    using chip.nor_flash_axioms by (simp_all add: demo_rom_def chip_size_def)
  have c: "CONFIG_COMPRESS_OTA_IMG (demo_rom False)" by (simp add: demo_rom_def)
  have app: "app_image (BOOT_OTA_GetCertRollbackVer (demo_rom False)) 0 (concat update_pieces)"
    unfolding update_pieces(1) by (rule demo_app) (simp add: demo_rollback)
  have u: "compressed_update (demo_rom False) (bl_flash (demo_state (update_flash 0))) (map plain_file update_pieces) update_pieces"
    unfolding demo_facts(4) by (rule demo_update)
  show ?thesis
    using compressed_update_started [OF demo.flash_view_axioms nf demo_facts(5) c demo_facts(1-3,7) u app]
    by (auto simp: update_pieces(1) slot_holds_def slot_base_def)
qed

text \<open>
  C33. The check of a compressed update is used the wrong way round: with secure boot on, an update that
  passes it is thrown away (its flag is cleared and nothing is extracted), and one that fails it is
  extracted over the first slot.
\<close>

theorem extract_check_inverted:
  assumes "flash_view R hw_ok" and "nor_flash (FLASH_TxData R) (FLASH_Erase R) fsize" and "0x400000 \<le> fsize"
    and "sboot_on R" and "boot_wf s" and "hw_ok (hw s)" and "\<not> SecureBootEn s" and "g_curr_block_addr s = 0xFFFFFFFF"
    and "compressed_update R (bl_flash s) fs ps"
  shows "\<exists>s'. BOOT_OTA_Extract R (BOOT_OTA_Region_Init s) = Some s' \<and> \<not> slot_compressed (bl_flash s') 1 \<and>
    (if extract_authentic R (bl_flash s) 1
     then \<forall>x. unat x < 0x214000 \<or> 0x214008 \<le> unat x \<longrightarrow> bl_flash s' x = bl_flash s x
     else slot_holds (bl_flash s') 0 (concat ps))"
proof -
  let ?s0 = "BOOT_OTA_Region_Init s"
  have r0: "boot_ready hw_ok ?s0" "bl_flash ?s0 = bl_flash s" "g_curr_block_addr ?s0 = 0xFFFFFFFF" "\<not> SecureBootEn ?s0"
    using assms(5-8) by (simp_all add: boot_ready_def Region_Init_facts)
      (simp add: BOOT_OTA_Region_Init_def Let_def)
  obtain s' f1 where ex: "BOOT_OTA_Extract R ?s0 = Some s'" "bl_flash s' = flag_cleared f1"
    and f1: "if extract_authentic R (bl_flash s) 1 then f1 = bl_flash s
      else wrote 0x14000 (concat ps) (0x14000 + length fs * 16384) (bl_flash s) f1"
    using flash_view.Extract_run [OF assms(1-3) r0(1,4,3,2) assms(9)] assms(4) by auto
  have "\<not> slot_compressed (flag_cleared f1) 1"
    using flag_cleared_read by (intro zeros_no_image(3)) (simp add: slot_base_def)
  moreover have "slot_holds (flag_cleared f1) 0 (concat ps)"
    if "wrote 0x14000 (concat ps) (0x14000 + length fs * 16384) (bl_flash s) f1"
    using assms(9) that by (rule compressed_holds)
  ultimately show ?thesis using ex f1 flag_cleared_outside [of _ f1] by auto
qed

theorem extract_check_inverted_witness:
  "\<not> extract_authentic (demo_rom True) (update_flash 1) 1 \<and>
   (\<exists>s'. BOOT_OTA_Extract (demo_rom True) (BOOT_OTA_Region_Init (demo_state (update_flash 1))) = Some s' \<and>
     mem_read (bl_flash s') 0x14000 0x4000 = demo_image 3)"
proof -
  let ?f = "update_flash 1"
  have nf: "nor_flash (FLASH_TxData (demo_rom True)) (FLASH_Erase (demo_rom True)) chip_size" "0x400000 \<le> chip_size"
    "sboot_on (demo_rom True)" "\<not> SecureBootEn (demo_state ?f)"
    using chip.nor_flash_axioms by (simp_all add: demo_rom_def chip_size_def sboot_on_def demo_state_def)
  have "mSBPubKey (extract_manifest ?f 1) ! 0 = 1"
    using update_bytes(7) [of 1]
    by (simp add: extract_manifest_def Manifest_of_def sizeof_Manifest_def slot_base_def drop_mem_read)
  then have "take 32 (mSBPubKey (extract_manifest ?f 1)) \<noteq> replicate 32 0"
    by (metis nth_replicate nth_take zero_less_numeral zero_neq_one)
  then have bad: "\<not> extract_authentic (demo_rom True) ?f 1"
    unfolding extract_authentic_def demo_otp by (simp add: demo_rom_def)
  have u: "compressed_update (demo_rom True) (bl_flash (demo_state ?f)) (map plain_file update_pieces) update_pieces"
    unfolding demo_facts(4) by (rule demo_update)
  show ?thesis
    using extract_check_inverted [OF demo.flash_view_axioms nf(1-3) demo_facts(2,3) nf(4) demo_facts(7) u] bad
    by (auto simp: update_pieces(1) slot_holds_def slot_base_def demo_facts(4))
qed

end
