(* ===== verification/Sys_Api.thy ===== *)
theory Sys_Api
  imports Ota_Update Boot_Start
begin

text \<open>
  Switching between the two slots by hand (\<open>src/component/soc/amebadplus/hal/src/sys_api.c\<close>): the signature of
  the running image is cleared so that the next start runs the other one, and the signature of the
  other image is written back. The running slot is found as the update code finds it
  (\<open>Ota_Storage.ota_get_cur_index\<close>); the address of a local array, and of the block for the backup of a
  sector (0 for a failed allocation), are arguments. The block is given back before the function returns,
  so it leaves no trace in the state.
\<close>

section \<open>Operations\<close>

text \<open>The signature and the two start addresses of an image. The table has all four regions, so the 0 of
  the uninitialised variables does not stay.\<close>

definition layout_start :: "u32 \<Rightarrow> u32" where
  "layout_start type = (case fst (flash_get_layout_info type (Some 0) None) of Some v \<Rightarrow> v | None \<Rightarrow> 0)"

definition sys_image :: "int \<Rightarrow> (u32 \<times> u32) \<times> u32 \<times> u32" where
  "sys_image img_id =
     (if img_id = OTA_IMGID_BOOT then ((0x96969999, 0xFC66CC3F), layout_start IMG_BOOT, layout_start IMG_BOOT_OTA2)
      else ((0x35393138, 0x31313738), layout_start IMG_APP_OTA1, layout_start IMG_APP_OTA2))"

definition sys_address :: "int \<Rightarrow> u8 \<Rightarrow> u32" where
  "sys_address img_id idx =
     (case sys_image img_id of (_, ota1_start_addr, ota2_start_addr) \<Rightarrow>
        (if idx = 0 then ota1_start_addr else ota2_start_addr) - SPI_FLASH_BASE)"

definition sys_clear_ota_signature ::
  "flash_tx \<Rightarrow> u32 list \<Rightarrow> u32 \<Rightarrow> int \<Rightarrow> img_table \<times> memory \<Rightarrow> (img_table \<times> memory) option" where
  "sys_clear_ota_signature txd RSIP empty_sig img_id s = (case s of (T, f) \<Rightarrow> do {
     let check_sig = fst (sys_image img_id);
     (otaCurIdx, T1) \<leftarrow> ota_get_cur_index RSIP (of_int img_id) T;
     let otaDstIdx = otaCurIdx XOR 1;
     let ota_sig0 = snd (flash_read_word (sys_address img_id otaDstIdx) f);
     let ota_sig1 = snd (flash_read_word (sys_address img_id otaDstIdx + 4) f);
     if ota_sig0 = fst check_sig \<and> ota_sig1 = snd check_sig then do {
       (_, f1) \<leftarrow> FLASH_WriteStream txd (sys_address img_id otaCurIdx) 8 (empty_sig, replicate 8 0) f;
       Some (T1, f1)
     }
     else Some (T1, f)
   })"

text \<open>The loop that writes the sector back, with \<open>n\<close> of its sixteen pages left.\<close>

primrec recover_pages :: "flash_tx \<Rightarrow> u32 \<Rightarrow> u32 \<Rightarrow> u8 list \<Rightarrow> nat \<Rightarrow> memory \<Rightarrow> memory option" where
  "recover_pages txd address backup bs 0 f = Some f"
| "recover_pages txd address backup bs (Suc n) f = do {
     let idx = 0x1000 - 256 * Suc n;
     (_, f1) \<leftarrow> FLASH_WriteStream txd (address + of_nat idx) 256 (backup + of_nat idx, drop idx bs) f;
     recover_pages txd address backup bs n f1
   }"

definition sys_recover_ota_signature ::
  "flash_tx \<Rightarrow> flash_er \<Rightarrow> u32 list \<Rightarrow> u32 \<Rightarrow> int \<Rightarrow> img_table \<times> memory \<Rightarrow> (img_table \<times> memory) option" where
  "sys_recover_ota_signature txd erf RSIP backup img_id s = (case s of (T, f) \<Rightarrow>
     if backup = 0 then Some (T, f)
     else do {
       let recover_sig = fst (sys_image img_id);
       (otaCurIdx, T1) \<leftarrow> ota_get_cur_index RSIP (of_int img_id) T;
       let otaDstIdx = otaCurIdx XOR 1;
       let a = sys_address img_id otaDstIdx;
       let bs = snd (FLASH_ReadStream a 0x1000 f);
       let f1 = FLASH_EraseXIP erf EraseSector a f;
       let bs1 = list_blit bs 0 (le32_bytes (fst recover_sig) @ le32_bytes (snd recover_sig));
       f2 \<leftarrow> recover_pages txd a backup bs1 16 f1;
       Some (T1, f2)
     })"

section \<open>What they do\<close>

definition sys_signature :: "int \<Rightarrow> u8 list" where
  "sys_signature img_id = le32_bytes (fst (fst (sys_image img_id))) @ le32_bytes (snd (fst (sys_image img_id)))"

lemma length_sys_signature [simp]: "length (sys_signature img_id) = 8"
  by (simp add: sys_signature_def)

lemma sys_addresses:
  "sys_address 0 0 = 0" "sys_address 0 1 = 0x200000" "sys_address 1 0 = 0x14000" "sys_address 1 1 = 0x214000"
  by (simp_all add: sys_address_def sys_image_def layout_start_def layout_defs)

lemma sys_app: "sys_signature 1 = APP_IMAGE_PATTERN" "i < 2 \<Longrightarrow> sys_address 1 (of_nat i) = slot_base i"
  by (auto simp: sys_signature_def sys_image_def APP_IMAGE_PATTERN_def sys_addresses slot_base_def less_2_cases_iff)

lemma sys_address_room:
  assumes "img_id = 0 \<or> img_id = 1" and "idx = 0 \<or> idx = 1"
  shows "unat (sys_address img_id idx) \<le> 0x214000" "sys_address img_id idx AND NOT 0xFFF = sys_address img_id idx"
  using assms by (auto simp: sys_addresses)

text \<open>Two words that are read are the signature exactly if the eight bytes are.\<close>

lemma high_bits: "8 \<le> m \<Longrightarrow> \<not> bit (a :: u8) m"
  using bit_imp_le_length [of a m] by auto

lemma le32_bytes_le32: "length bs = 4 \<Longrightarrow> le32_bytes (le32 bs) = bs"
proof -
  assume "length bs = 4"
  then obtain a b c d where "bs = [a, b, c, d]"
    by (auto simp: numeral_eq_Suc length_Suc_conv)
  moreover have "ucast (le32 [a, b, c, d]) = a" "ucast (drop_bit 8 (le32 [a, b, c, d])) = b"
    "ucast (drop_bit 16 (le32 [a, b, c, d])) = c" "ucast (drop_bit 24 (le32 [a, b, c, d])) = d"
    by (auto intro!: bit_word_eqI simp: le32_def bit_simps high_bits)
  ultimately show ?thesis by (simp add: le32_bytes_def)
qed

lemma read_signature:
  "snd (flash_read_word a f) = fst (fst (sys_image img_id)) \<and> snd (flash_read_word (a + 4) f) = snd (fst (sys_image img_id)) \<longleftrightarrow>
    mem_read f a 8 = sys_signature img_id"
proof -
  have "mem_read f a 8 = mem_read f a 4 @ mem_read f (a + 4) 4"
    using mem_read_append [of f a 4 4] by simp
  moreover have "le32 bs = w \<longleftrightarrow> bs = le32_bytes w" if "length bs = 4" for bs w
    using le32_bytes_le32 [OF that] le32_roundtrip [of w "[]"] by auto
  ultimately show ?thesis
    by (simp add: flash_read_word_def FLASH_ReadStream_def sys_signature_def)
qed

definition outside_flash :: "u32 \<Rightarrow> bool" where
  "outside_flash p \<longleftrightarrow> (\<forall>k < 0x1000. \<not> IS_FLASH_ADDR (p + of_nat k))"

context nor_flash
begin

lemma sector_written_back:
  assumes "unat a + 0x1000 \<le> fsize" and "outside_flash p" and "length bs = 0x1000" and "n \<le> 16"
  shows "recover_pages tx a p bs n f = Some (flash_prog f (a + of_nat (0x1000 - 256 * n)) (drop (0x1000 - 256 * n) bs))"
  using assms(4)
proof (induction n arbitrary: f)
  case 0
  then show ?case by (simp add: assms(3))
next
  case (Suc n)
  define i where "i = 0x1000 - 256 * Suc n"
  have i: "0x1000 - 256 * n = i + 256" "i + 256 \<le> 0x1000"
    using Suc.prems unfolding i_def by arith+
  define c where "c = take 256 (drop i bs)"
  have c: "length c = 256" "drop i bs = c @ drop (i + 256) bs"
    using assms(3) i append_take_drop_id [of 256 "drop i bs"] by (simp_all add: c_def add.commute)
  have u: "unat (a + of_nat i) = unat a + i"
    using assms(1) fsize i(2) by (intro unat_add_of_nat_no_wrap) linarith
  have p: "\<not> IS_FLASH_ADDR (p + of_nat i)"
    using assms(2) i(2) by (auto simp: outside_flash_def)
  have w: "FLASH_WriteStream tx (a + of_nat i) 256 (p + of_nat i, drop i bs) f = Some (1, flash_prog f (a + of_nat i) c)"
    using WriteStream [of 256 "a + of_nat i", OF _ _ p, of "drop i bs" f] u assms(1,3) i(2) by (simp add: c_def)
  have "length c + length (drop (i + 256) bs) \<le> 4294967296" using assms(3) c(1) by simp
  from flash_prog_append [OF this, of f "a + of_nat i"]
  have "flash_prog (flash_prog f (a + of_nat i) c) (a + of_nat (i + 256)) (drop (i + 256) bs) =
      flash_prog f (a + of_nat i) (drop i bs)"
    by (simp add: c add.assoc)
  moreover have "recover_pages tx a p bs n g = Some (flash_prog g (a + of_nat (i + 256)) (drop (i + 256) bs))" for g
    using Suc.IH [of g] Suc.prems i(1) by simp
  ultimately show ?case
    by (simp only: recover_pages.simps Let_def w flip: i_def) simp
qed

lemma clear_signature:
  assumes "ota_get_cur_index RSIP (of_int img_id) T = Some (i, T1)" and "img_id = 0 \<or> img_id = 1" and "i = 0 \<or> i = 1"
    and "0x215000 \<le> fsize" and "\<not> IS_FLASH_ADDR p"
  shows "sys_clear_ota_signature tx RSIP p img_id (T, f) =
    Some (T1, if mem_read f (sys_address img_id (i XOR 1)) 8 = sys_signature img_id
              then mem_write f (sys_address img_id i) (replicate 8 0) else f)"
proof -
  have "FLASH_WriteStream tx (sys_address img_id i) 8 (p, replicate 8 0) f =
      Some (1, flash_prog f (sys_address img_id i) (replicate 8 0))"
    using WriteStream [of 8 "sys_address img_id i" p "replicate 8 0" f] sys_address_room(1) [OF assms(2,3)] assms(4,5) by simp
  moreover have "flash_prog f a (replicate 8 0) = mem_write f a (replicate 8 0)" for a
    by (auto simp: flash_prog_def mem_write_def fun_eq_iff Let_def)
  ultimately show ?thesis
    by (simp add: sys_clear_ota_signature_def assms(1) Let_def read_signature)
qed

lemma recover_signature:
  assumes "ota_get_cur_index RSIP (of_int img_id) T = Some (i, T1)" and "img_id = 0 \<or> img_id = 1" and "i = 0 \<or> i = 1"
    and "0x215000 \<le> fsize" and "p \<noteq> 0" and "outside_flash p"
  shows "sys_recover_ota_signature tx er RSIP p img_id (T, f) =
    Some (T1, mem_write f (sys_address img_id (i XOR 1)) (sys_signature img_id))"
proof -
  let ?a = "sys_address img_id (i XOR 1)" and ?sg = "sys_signature img_id"
  have j: "i XOR 1 = 0 \<or> i XOR 1 = 1" using assms(3) by auto
  note room = sys_address_room [OF assms(2) j]
  let ?bs = "mem_read f ?a 0x1000" and ?f1 = "flash_wipe f ?a 4096"
  let ?b1 = "list_blit ?bs 0 ?sg"
  have l: "length ?b1 = 0x1000" by (simp add: list_blit_def)
  have er: "FLASH_EraseXIP er EraseSector ?a f = ?f1"
    using er_sector [of ?a f] room assms(4) by (simp add: FLASH_EraseXIP_def)
  have "recover_pages tx ?a p ?b1 16 ?f1 = Some (flash_prog ?f1 ?a ?b1)"
    using sector_written_back [OF _ assms(6) l, of ?a 16 ?f1] room(1) assms(4) by simp
  moreover have "flash_prog ?f1 ?a ?b1 = mem_write ?f1 ?a ?b1"
    by (rule flash_prog_erased) (auto simp: l flash_wipe_def intro!: erasedI)
  moreover have "mem_write ?f1 ?a ?b1 = mem_write f ?a ?sg"
  proof (rule ext)
    fix x
    have "x = ?a + of_nat (unat (x - ?a))" by simp
    then show "mem_write ?f1 ?a ?b1 x = mem_write f ?a ?sg x"
      by (simp add: mem_write_def Let_def l flash_wipe_def list_blit_def nth_append)
  qed
  ultimately show ?thesis
    by (simp add: sys_recover_ota_signature_def assms(1,5) Let_def FLASH_ReadStream_def er sys_signature_def)
qed

end

section \<open>Switching and switching back\<close>

lemma mem_write_back: "mem_read f a (length bs) = bs \<Longrightarrow> length bs = length cs \<Longrightarrow> mem_write (mem_write f a cs) a bs = f"
proof (rule ext)
  fix x
  assume h: "mem_read f a (length bs) = bs" "length bs = length cs"
  have "bs ! unat (x - a) = f x" if "unat (x - a) < length bs"
    using nth_mem_read [OF that, of f a] h(1) by simp
  with h(2) show "mem_write (mem_write f a cs) a bs x = f x" by (simp add: mem_write_def Let_def)
qed

text \<open>
  C11. Switching to the other image and back leaves the flash as it was. When both images have their
  signatures, clearing replaces the signature of the running one, eight bytes, by zeros. Recovering, called
  from the other image, writes that signature back: although the whole sector is erased in between, every
  byte of the flash has its old value afterwards. This holds for the boot loader and for the application.
  When the other image has no signature, clearing changes nothing.
\<close>

theorem ota_switch_roundtrip:
  assumes "nor_flash txd erf fsize" and "0x215000 \<le> fsize" and "img_id = 0 \<or> img_id = 1" and "i = 0 \<or> i = 1"
    and "ota_get_cur_index RSIP (of_int img_id) T = Some (i, T1)"
    and "ota_get_cur_index RSIP' (of_int img_id) T' = Some (i XOR 1, T1')"
    and "\<not> IS_FLASH_ADDR p" and "backup \<noteq> 0" and "outside_flash backup"
    and "mem_read f (sys_address img_id i) 8 = sys_signature img_id"
  shows "if mem_read f (sys_address img_id (i XOR 1)) 8 = sys_signature img_id
    then \<exists>f1. sys_clear_ota_signature txd RSIP p img_id (T, f) = Some (T1, f1) \<and>
      mem_read f1 (sys_address img_id i) 8 = replicate 8 0 \<and>
      (\<forall>x. 8 \<le> unat (x - sys_address img_id i) \<longrightarrow> f1 x = f x) \<and>
      sys_recover_ota_signature txd erf RSIP' backup img_id (T', f1) = Some (T1', f)
    else sys_clear_ota_signature txd RSIP p img_id (T, f) = Some (T1, f)"
proof -
  let ?a = "sys_address img_id i"
  let ?f1 = "mem_write f ?a (replicate 8 0)"
  have j: "i XOR 1 = 0 \<or> i XOR 1 = 1" "(i XOR 1) XOR 1 = i" using assms(4) by auto
  have "mem_write ?f1 ?a (sys_signature img_id) = f"
    by (rule mem_write_back) (simp_all add: assms(10))
  then have "sys_recover_ota_signature txd erf RSIP' backup img_id (T', ?f1) = Some (T1', f)"
    using nor_flash.recover_signature [OF assms(1,6,3) j(1) assms(2,8,9), of ?f1] j(2) by simp
  moreover have "mem_read ?f1 ?a 8 = replicate 8 0"
    using mem_read_write_same [of "replicate 8 0" f ?a] by simp
  ultimately show ?thesis
    using nor_flash.clear_signature [OF assms(1,5,3,4,2,7), of f] by (auto simp: mem_write_outside)
qed

definition switch_flash :: memory where
  "switch_flash = mem_write (mem_write (\<lambda>_. 0xA5) 0x14000 APP_IMAGE_PATTERN) 0x214000 APP_IMAGE_PATTERN"

lemma switch_flash_read: "mem_read switch_flash 0x14000 8 = APP_IMAGE_PATTERN" "mem_read switch_flash 0x214000 8 = APP_IMAGE_PATTERN"
proof -
  have l: "length APP_IMAGE_PATTERN = 8" by (simp add: APP_IMAGE_PATTERN_def)
  show "mem_read switch_flash 0x214000 8 = APP_IMAGE_PATTERN"
    using mem_read_write_same [of APP_IMAGE_PATTERN _ "0x214000"] by (simp add: switch_flash_def l)
  have "mem_read switch_flash 0x14000 8 = mem_read (mem_write (\<lambda>_. 0xA5) 0x14000 APP_IMAGE_PATTERN) 0x14000 8"
    unfolding switch_flash_def by (rule mem_read_write_disjoint) (simp_all add: l)
  then show "mem_read switch_flash 0x14000 8 = APP_IMAGE_PATTERN"
    using mem_read_write_same [of APP_IMAGE_PATTERN _ "0x14000"] by (simp add: l)
qed

lemma switch_running:
  "ota_get_cur_index (replicate 8 0) 1 img_table0 = Some (0, img_table0)"
  "ota_get_cur_index (replicate 8 (remap_offset 0x08216000)) 1 img_table0 = Some (1, img_table0)"
  by (simp_all add: cur_index_app running_app_def remap_offset_def)

lemma outside_flash_low: "unat p + 0x1000 \<le> 0x08000000 \<Longrightarrow> outside_flash p"
  by (auto simp: outside_flash_def IS_FLASH_ADDR_def word_le_nat_alt unat_add_of_nat_no_wrap)

theorem ota_switch_roundtrip_witness:
  "\<exists>f1. sys_clear_ota_signature chip_tx (replicate 8 0) 0x1000 1 (img_table0, switch_flash) = Some (img_table0, f1) \<and>
    mem_read f1 0x14000 8 = replicate 8 0 \<and>
    sys_recover_ota_signature chip_tx chip_er (replicate 8 (remap_offset 0x08216000)) 0x2000 1 (img_table0, f1) =
      Some (img_table0, switch_flash)"
proof -
  have h: "0x215000 \<le> chip_size" "\<not> IS_FLASH_ADDR 0x1000" "outside_flash 0x2000"
    by (simp_all add: chip_size_def IS_FLASH_ADDR_def outside_flash_low)
  show ?thesis
    using ota_switch_roundtrip [OF chip.nor_flash_axioms h(1), of 1 0 "replicate 8 0" img_table0 img_table0
        "replicate 8 (remap_offset 0x08216000)" img_table0 img_table0 "0x1000" "0x2000" switch_flash]
      switch_running h(2,3) switch_flash_read
    by (auto simp: sys_addresses sys_app(1))
qed

end
