(* ===== verification/Spec2Isabelle.thy ===== *)
theory Spec2Isabelle
  imports Ring_Buffer Ota_Safety Diag_At Diag_Ap Boot_Safety Sys_Api
begin

text \<open>
  \<^bold>\<open>Verification of the firmware of an RTL8711D (amebadplus) board.\<close>

  \<^bold>\<open>The program.\<close> The repository is a software development kit for Realtek's Ameba chips. The development
  covers four of its parts that are written for the kit itself and whose behaviour is more than register
  accesses: the boot loader's choice of the application, the update of the firmware over the network, the
  diagnostic event log, and the ring buffer that drivers use. All paths below are under \<open>src/component/\<close>.
  Boot loader and update meet in the flash: the update writes an application into the slot that is not
  running, the boot loader starts the newest slot it may start and leaves in a register which one it was,
  and the update reads that register.

  \<^bold>\<open>Conventions.\<close> Machine integers are words of their width (\<open>u8\<close>, \<open>u16\<close>, \<open>u32\<close> of \<open>Prelude\<close>), so additions
  wrap where the code wraps; an \<open>int\<close> of the code is an \<open>int\<close>. Memory is a function from addresses to bytes,
  or a numbered store of blocks where the code only passes pointers around. A global structure is a record
  that each function takes and returns. The result of a function that can read through NULL, leave an
  array, fail an assertion or loop for ever is an option: \<open>None\<close> stands for all of these, and a theorem that
  a function returns says that the result is \<open>Some\<close>. Loops whose end is not obvious are partial functions,
  so no bound on their steps is assumed anywhere; the loop that polls the other core has the bound the code
  has. Log output, cache maintenance and delays have no counterpart. What lies outside the sources (the
  ROM's flash routines, signature checks and remapping, the one-time programmable memory, sockets, TLS,
  files, the clock, the allocator, the hardware semaphore) is an argument of the functions that call it,
  with its documented behaviour as hypothesis. A hypothesis on the ROM is a locale or a named predicate
  (\<open>nor_flash\<close>, \<open>flash_view\<close>, \<open>remap_regs\<close>, \<open>rom_codes\<close>), and the witnesses of the properties use it on a concrete
  machine.

  \<^bold>\<open>Prelude\<close> holds the words and memory lemmas, copies into lists, and the little-endian encodings.

  \<^bold>\<open>Ring buffer\<close> (\<open>Ring_Buffer\<close>, for \<open>utils/ringbuffer/ringbuffer.c\<close>): every function over an explicit memory. The
  interface of a bounded byte queue is the locale \<open>byte_fifo\<close>, interpreted on the ring buffer; any sequence of
  writes and reads behaves like the list of the bytes that are in it.

  \<^bold>\<open>Flash\<close> (\<open>Nor_Flash\<close>, for \<open>soc/amebadplus/fwlib/ram_common/ameba_flash_ram.c\<close>, \<open>hal/src/flash_api.c\<close> and
  \<open>usrcfg/amebadplus/ameba_flashcfg.c\<close>): the locale \<open>nor_flash\<close> says what programming and erasing do to the
  cells, with an interpretation on a chip model; a stream write of any alignment into erased cells reads
  back, and the regions of the layout table do not overlap.

  \<^bold>\<open>Firmware update\<close> (\<open>ota/\<close>), one theory per layer:
  \<open>Ota_Storage\<close> (\<open>ota_storage.c\<close>, and the slot selection of \<open>soc/amebadplus/misc/ameba_ota.c\<close>): addresses,
  the layout check, checksum, manifest.
  \<open>Ota_Transport\<close> (\<open>transport/*.c\<close>): HTTP with redirects, HTTPS, files, the host link; url and response
  parsing on byte lists.
  \<open>Ota_Core\<close> (\<open>ota_core.c\<close>): reception of the headers, the packet state machine, the process.
  \<open>Ota_Download\<close>, \<open>Ota_Image\<close> and \<open>Ota_Update\<close> prove, layer by layer, that packets land where they belong, that an
  image is written and checked, and that a whole update ends with the image in the slot that is not
  running or with an error and an erased manifest.
  \<open>Ota_Safety\<close> has the error paths: files that are refused without touching the flash, the soundness of the
  layout check, the url round trip, a session from power-up, and the defects that the proofs met.

  \<^bold>\<open>Boot loader\<close> (\<open>soc/amebadplus/loader/bootloader/\<close> and \<open>soc/common/lzma/ameba_boot_lzma.c\<close>):
  \<open>Boot_Lzma\<close> (\<open>ameba_boot_lzma.c\<close>): the extraction of a compressed update over a slot, sector by sector; the
  decoder is an argument. Any contents of the slot are replaced exactly, and nothing else is touched.
  \<open>Boot_Security\<close> (\<open>boot_security_km4.c\<close>): certificate, manifest and image checks, the post-quantum ones
  included, and the decryption of the secure image; what a passed check means (\<open>cert_authentic\<close>,
  \<open>manifest_authentic\<close>) and what all checks leave alone.
  \<open>Boot_Ota\<close> (\<open>boot_ota_km4.c\<close>): versions, the choice of the slot, remapping and loading, extraction, the tries.
  The locale \<open>flash_view\<close> says how flash reads go through the remapping; inside it the headers that the
  code reads are shown to be those of the slots, and secure boot follows.
  \<open>Boot_Run\<close> describes which slot is chosen (\<open>boot_choice\<close>) and what an extraction leaves; \<open>Boot_Start\<close> what it means
  that a slot was started (\<open>started\<close>), the contents of the remapping registers (locale \<open>remap_regs\<close>), the types
  of the data, and applications as images (\<open>app_image\<close>). \<open>Boot_Safety\<close> interprets the locales on a machine with a
  remapping controller, a ROM and small applications, and has the properties. Switching the stack for the
  post-quantum check is not part of the model, and an image is started when \<open>BOOT_OTA_IMG\<close> returns its slot;
  a boot loader that waits for ever returns no slot.

  \<^bold>\<open>Update and boot\<close> (this theory): an update that is accepted is what the next start runs, one that is not leaves
  the old application in place, and the running application learns its slot from the boot loader. Clearing
  the signature of the running application makes the boot loader start the other one.

  \<^bold>\<open>Switching by hand\<close> (\<open>Sys_Api\<close>, for \<open>soc/amebadplus/hal/src/sys_api.c\<close>): the two functions that clear the signature of
  the running image and write back that of the other one; one undoes the other. The rest of that file
  sets pins, the log port and reset registers.

  \<^bold>\<open>Diagnostics\<close> (\<open>soc/common/diagnose/\<close> and \<open>at_cmd/atcmd_diag.c\<close>), from the inside out:
  \<open>Diag_Ring\<close> (\<open>ameba_diagnose_ring_array.c\<close>): an array that overwrites its oldest element; locale
  \<open>overwriting_queue\<close>.
  \<open>Diag_Heap\<close> (\<open>ameba_diagnose_heap.c\<close>): the event heap, whose blocks are a chain that wraps around; locale
  \<open>heap_owner\<close> for the client whose callbacks are told which block goes.
  \<open>Diag_Queue\<close> (\<open>ameba_diagnose_queue.c\<close>): the queue of events over both; \<open>Diag_Events\<close> proves that adding,
  taking out and deleting events refine operations on a list and keep the invariant of arrays, heap and
  limits; \<open>Diag_Find\<close> that a request for a byte of the log finds the event that holds it.
  \<open>Diag_Proto\<close> (\<open>ameba_diagnose_protocol.c\<close>, \<open>_common.c\<close>): frames with check sums; locale \<open>event_source\<close> for the
  function that delivers the next event, interpreted on the queue.
  \<open>Diag_Np\<close> (\<open>ameba_diagnose_np.c\<close>): the requests, in the builds for one and for two cores; \<open>Diag_Log\<close> proves what
  they send.
  \<open>Diag_Ap\<close> (\<open>ameba_diagnose_ap.c\<close>): the core that forwards requests; two cores answer like one.
  \<open>Diag_At\<close> (\<open>atcmd_diag.c\<close>): the AT command on a single core.

  \<^bold>\<open>Properties.\<close> Each property of the development is a theorem after a text block that states it; a property with
  hypotheses is followed by a theorem that applies it to a concrete state. Properties about defects state
  exactly what the code does, for the states in which it does so.

  \<^bold>\<open>Not modelled.\<close> The kernel, the network stack, the TLS libraries, FatFs and littlefs are third-party code that
  is only called. The Bluetooth, Wi-Fi, USB and audio parts are drivers over binary stacks or registers.
  The LZMA decoder is third-party code and an argument of the extraction. Of the boot loader the set-up of
  clocks, memory and power around the choice of the image is left out: register accesses. The peripheral
  drivers, the support of the other chips, the examples and the host tools are left out.
\<close>

section \<open>From the boot loader to the application\<close>

text \<open>The six places where the parts of an application can begin, read back from the register.\<close>

lemma remap_offset_reads:
  assumes "p \<in> {0x08016000, 0x08017000, 0x08018000, 0x08216000, 0x08217000, 0x08218000}"
  shows "push_bit 5 (drop_bit 9 (remap_offset p)) = p" "remap_offset p AND 1 \<noteq> 0"
  using assms by (auto simp: remap_offset_def)

lemma running_offset:
  assumes "i < 2"
  shows "running_app (remap_offset (SPI_FLASH_BASE + slot_km0 f i)) =
    (if cVer (slot_cert f i) < 2 \<and> mVer (slot_manifest f i) \<noteq> 2 then of_nat i else 1)"
proof -
  let ?p = "SPI_FLASH_BASE + slot_km0 f i"
  have "?p \<in> {0x08016000, 0x08017000, 0x08018000, 0x08216000, 0x08217000, 0x08218000}"
    using assms by (auto simp: slot_km0_def slot_img2_def slot_base_def BOOT_OTA_GetManifestSize_def)
  note r = remap_offset_reads [OF this]
  show ?thesis
    unfolding running_app_def r(1) using r(2) assms
    by (auto simp: slot_km0_def slot_img2_def slot_base_def BOOT_OTA_GetManifestSize_def less_2_cases_iff)
qed

text \<open>
  C9. The application finds the slot it was started from: the boot loader leaves the start of the parts in
  the offset register of the first remapping region, and the update code computes the running slot from
  it. This is right when certificate and manifest have the 4 KB format; when one of them has the 8 KB
  format the update code takes the second slot for the running one even if the first one is.
\<close>

theorem boot_tells_slot:
  assumes "remap_regs R hw_ok REMAPxOR" and "plain_map R" and "boot_wf s" and "hw_ok (hw s)"
    and "BOOT_OTA_IMG R s = Some (Some i, s')" and "f = bl_flash s'" and "slot_window f 0" and "slot_window f 1"
  shows "ota_get_cur_index (map (\<lambda>k. REMAPxOR (hw s') (of_nat k)) [0..<8]) 1 img_table0 =
    Some (if cVer (slot_cert f i) < 2 \<and> mVer (slot_manifest f i) \<noteq> 2 then of_nat i else 1, img_table0)"
proof -
  have fv: "flash_view R hw_ok" using assms(1) by (rule remap_regs.axioms(1))
  obtain s2 where st: "started R hw_ok f i s2 s'"
    using flash_view.boot_started [OF fv assms(2,5,3,4)] assms(6-8) by blast
  then have "i < 2" by (simp add: started_def)
  with remap_regs.started_offset [OF assms(1) st] show ?thesis
    by (simp add: cur_index_app running_offset)
qed

theorem boot_tells_slot_witness:
  "\<exists>s'. BOOT_OTA_IMG (demo_rom True) (demo_state (demo_flash 1 2)) = Some (Some 1, s') \<and>
    ota_get_cur_index (map (\<lambda>k. rsip_or (hw s') (of_nat k)) [0..<8]) 1 img_table0 = Some (1, img_table0)"
proof -
  let ?f = "demo_flash 1 2"
  obtain s' where run: "BOOT_OTA_IMG (demo_rom True) (demo_state ?f) = Some (Some 1, s')" "bl_flash s' = ?f"
    using demo_secure_run by blast
  note h = demo_flash_holds [of 1 2]
  have w: "slot_window ?f 0" "slot_window ?f 1"
    using app_image_slot(4) [OF demo_app h(1), of 0] app_image_slot(4) [OF demo_app h(2), of 0] by simp_all
  show ?thesis
    using boot_tells_slot [OF demo_regs.remap_regs_axioms demo_facts(6,2,3) run(1) run(2) [symmetric] w] run(1) by auto
qed

section \<open>From the update to the boot loader\<close>

text \<open>The application that runs from slot \<open>r\<close> is about to receive an update file with the image \<open>im\<close> and
  the checksum \<open>ck\<close>.\<close>

definition update_arrives :: "'w ota_env \<Rightarrow> 'w ota \<Rightarrow> u8 \<Rightarrow> u8 list \<Rightarrow> u32 \<Rightarrow> bool" where
  "update_arrives E s r im ck \<longleftrightarrow>
     (\<exists>fsize f p ps ver sg hl off.
       nor_flash (tx E) (er E) fsize \<and> 4059136 \<le> fsize \<and> \<not> SWITCH_BY_VALID_HEADER (cfg E) \<and>
       (\<forall>n w. op_malloc (net E) n w = (True, w)) \<and> 1 < length (rsip E) \<and> r = running_app (rsip E ! 1) \<and>
       ota_fresh f s \<and> delivers f (world s) (p # ps) \<and> 32 < length p \<and>
       length sg = 4 \<and> is_ota_signature sg \<and> 24 < length im \<and> length im \<le> app_room r \<and>
       take (32 + length im) (p @ concat ps) = file_header ver 1 sg hl ck (of_nat (length im)) off 1 @ im)"

lemma update_arrives_result:
  assumes "update_arrives E s r im ck"
  shows "\<exists>s'. ota_core_process E s = Some (if add_bytes 0 im = ck then OTA_OK else OTA_ERR, s') \<and>
    (if add_bytes 0 im = ck then slot_holds (flash s') (1 - unat r) im
     else mem_read (flash s') (slot_base (1 - unat r)) 8 = replicate 8 0xFF) \<and>
    (\<forall>x. length im + 6167 \<le> unat (x - slot_base (1 - unat r)) \<longrightarrow> flash s' x = flash s x)"
    and "r = 0 \<or> r = 1" and "length im \<le> app_room r"
proof -
  obtain fsize f p ps ver sg hl off where h: "nor_flash (tx E) (er E) fsize" "4059136 \<le> fsize"
    "\<not> SWITCH_BY_VALID_HEADER (cfg E)" "\<forall>n w. op_malloc (net E) n w = (True, w)" "1 < length (rsip E)"
    "r = running_app (rsip E ! 1)" "ota_fresh f s" "delivers f (world s) (p # ps)" "32 < length p"
    "length sg = 4" "is_ota_signature sg" "24 < length im" "length im \<le> app_room r"
    "take (32 + length im) (p @ concat ps) = file_header ver 1 sg hl ck (of_nat (length im)) off 1 @ im"
    using assms by (auto simp: update_arrives_def)
  show r: "r = 0 \<or> r = 1" using h(6) running_app_cases by simp
  then have base: "app_base r = slot_base (1 - unat r)" by (auto simp: app_base_def slot_base_def)
  show "length im \<le> app_room r" by (rule h(13))
  obtain s' e where fin: "e < 2048" "slot_ok fsize (app_base r) (length im)"
    "ota_core_process E s = Some (if add_bytes 0 im = ck then OTA_OK else OTA_ERR, s')"
    "flash s' = dl_result (flash s) (app_base r) im ck e"
    using update_result [OF h] by blast
  have "mem_read g a 8 = replicate 8 0xFF" if "erased g a 24" for g a
    using that by (intro nth_equalityI) (auto simp: erased_def)
  then show "\<exists>s'. ota_core_process E s = Some (if add_bytes 0 im = ck then OTA_OK else OTA_ERR, s') \<and>
    (if add_bytes 0 im = ck then slot_holds (flash s') (1 - unat r) im
     else mem_read (flash s') (slot_base (1 - unat r)) 8 = replicate 8 0xFF) \<and>
    (\<forall>x. length im + 6167 \<le> unat (x - slot_base (1 - unat r)) \<longrightarrow> flash s' x = flash s x)"
    using fin dl_result_facts [OF fin(2,1)] unfolding base slot_holds_def by auto
qed

lemma erased_no_image:
  assumes "mem_read f (slot_base i) 8 = replicate 8 0xFF"
  shows "slot_version f i = - 1" and "\<not> slot_compressed f i"
proof -
  have "APP_IMAGE_PATTERN ! 0 \<noteq> 0xFF" "CompressFlag ! 0 \<noteq> 0xFF"
    by (simp_all add: APP_IMAGE_PATTERN_def CompressFlag_def le32_bytes_def)
  then have "replicate 8 0xFF \<noteq> APP_IMAGE_PATTERN" "replicate 8 0xFF \<noteq> CompressFlag"
    by (metis nth_replicate zero_less_numeral)+
  with assms show "slot_version f i = - 1" "\<not> slot_compressed f i"
    by (simp_all add: slot_version_read slot_compressed_def)
qed

text \<open>The other slot is out of reach of an update.\<close>

lemma other_slot_kept:
  assumes "r = 0 \<or> r = 1" and "length im \<le> app_room r" and "slot_holds f (unat r) old" and "length old \<le> 0x1EC000"
    and "\<forall>x. length im + 6167 \<le> unat (x - slot_base (1 - unat r)) \<longrightarrow> f' x = f x"
  shows "slot_holds f' (unat r) old"
proof -
  have "f' (slot_base (unat r) + of_nat k) = f (slot_base (unat r) + of_nat k)" if k: "k < length old" for k
  proof -
    have "unat (slot_base (unat r) + of_nat k) = unat (slot_base (unat r)) + k"
      using k assms(4) by (intro unat_add_of_nat_no_wrap) (simp add: slot_base_def)
    then have "length im + 6167 \<le> unat (slot_base (unat r) + of_nat k - slot_base (1 - unat r))"
      using assms(1,2,4) k by (auto simp: unat_sub_if' slot_base_def app_room_def)
    then show ?thesis using assms(5) by blast
  qed
  then have "mem_read f' (slot_base (unat r)) (length old) = mem_read f (slot_base (unat r)) (length old)"
    by (intro nth_equalityI) simp_all
  then show ?thesis using assms(3) by (simp add: slot_holds_def)
qed

text \<open>
  C1. An update reaches the next start. The application runs from one slot and receives an update file with a
  newer application. When the checksum agrees the update reports success and the boot loader, started on
  the flash the update leaves, starts the new application from the other slot. When it does not agree the
  update reports an error and the boot loader starts the old application again. The application whose
  update fails is never lost.
\<close>

theorem update_then_boot:
  assumes "update_arrives E s r im ck"
    and "flash_view R hw_ok" and "plain_boot R" and "boot_plain_state b" and "boot_wf b" and "hw_ok (hw b)"
    and "VN = BOOT_OTA_GetCertRollbackVer R"
    and "app_image VN (unat r) old" and "slot_holds (flash s) (unat r) old" and "length old \<le> 0x1EC000"
    and "app_image VN (1 - unat r) im" and "image_version old < image_version im"
  shows "\<exists>s' b'. ota_core_process E s = Some (if add_bytes 0 im = ck then OTA_OK else OTA_ERR, s') \<and>
    BOOT_OTA_IMG R (b\<lparr>bl_flash := flash s'\<rparr>) =
      Some (Some (if add_bytes 0 im = ck then 1 - unat r else unat r), b')"
proof -
  obtain s' where u: "ota_core_process E s = Some (if add_bytes 0 im = ck then OTA_OK else OTA_ERR, s')"
    "if add_bytes 0 im = ck then slot_holds (flash s') (1 - unat r) im
     else mem_read (flash s') (slot_base (1 - unat r)) 8 = replicate 8 0xFF"
    "\<forall>x. length im + 6167 \<le> unat (x - slot_base (1 - unat r)) \<longrightarrow> flash s' x = flash s x"
    using update_arrives_result(1) [OF assms(1)] by blast
  note r = update_arrives_result(2) [OF assms(1)]
  have r2: "unat r < 2" "1 - unat r < 2" "1 - (1 - unat r) = unat r" using r by auto
  have kept: "slot_holds (flash s') (unat r) old"
    by (rule other_slot_kept [OF r update_arrives_result(3) [OF assms(1)] assms(9,10) u(3)])
  note o = app_image_slot [OF assms(8) kept]
  let ?b = "b\<lparr>bl_flash := flash s'\<rparr>"
  have b: "boot_plain_state ?b" "boot_wf ?b" "hw_ok (hw ?b)"
    using assms(4-6) by (simp_all add: boot_plain_state_def boot_wf_def)
  have VN: "0 \<le> VN" using assms(7) rollback_nonneg by simp
  have "\<exists>b'. BOOT_OTA_IMG R ?b = Some (Some (if add_bytes 0 im = ck then 1 - unat r else unat r), b')"
  proof (cases "add_bytes 0 im = ck")
    case True
    then have new: "slot_holds (bl_flash ?b) (1 - unat r) im" using u(2) by simp
    have "\<not> slot_compressed (flash s') (unat r)" using o(2) VN by (intro not_compressed) linarith
    then show ?thesis
      using flash_view.start_newer [OF assms(2,3) b r2(2) assms(11) [unfolded assms(7)] new] True o(1,4) r2(3) assms(12)
      by auto
  next
    case False
    then have er: "mem_read (flash s') (slot_base (1 - unat r)) 8 = replicate 8 0xFF" using u(2) by simp
    note n = erased_no_image [OF er]
    then show ?thesis
      using flash_view.start_newer [OF assms(2,3) b r2(1) assms(8) [unfolded assms(7)]] kept False o(1,2) VN assms(7)
      by auto
  qed
  with u(1) show ?thesis by blast
qed

lemma demo_fresh: "ota_fresh mem_source (run_state w\<lparr>flash := g\<rparr>)"
  using run_fresh [of w] by (simp add: ota_fresh_def user_ready_def manifest_at_def)

lemma demo_arrives:
  "update_arrives (run_env 0)
     (run_state (file_header 1 1 (bytes ''OTA '') 24 ck 0x4000 32 1 @ demo_image v)\<lparr>flash := g\<rparr>) 0 (demo_image v) ck"
proof -
  let ?file = "file_header 1 1 (bytes ''OTA '') 24 ck 0x4000 32 1 @ demo_image v"
  have sg: "length (bytes ''OTA '') = 4" "is_ota_signature (bytes ''OTA '')"
    by (simp_all add: bytes_def is_ota_signature_def)
  obtain p ps where d: "delivers mem_source (world (run_state ?file\<lparr>flash := g\<rparr>)) (p # ps)" "32 < length p"
    "take (32 + length (demo_image v)) (p @ concat ps) =
       file_header 1 1 (bytes ''OTA '') 24 ck (of_nat (length (demo_image v))) 32 1 @ demo_image v"
    using run_delivers [OF sg(1), of ?file 1 24 ck "demo_image v" 32] by force
  have e: "nor_flash (tx (run_env 0)) (er (run_env 0)) chip_size" "4059136 \<le> chip_size"
    "\<not> SWITCH_BY_VALID_HEADER (cfg (run_env 0))" "\<forall>n w. op_malloc (net (run_env 0)) n w = (True, w)"
    "1 < length (rsip (run_env 0))" "0 = running_app (rsip (run_env 0) ! 1)"
    using chip.nor_flash_axioms by (simp_all add: run_env_def run_net_def chip_size_def running_app_def)
  have l: "24 < length (demo_image v)" "length (demo_image v) \<le> app_room 0" by (simp_all add: app_room_def)
  show ?thesis unfolding update_arrives_def using e demo_fresh d sg l by blast
qed

theorem update_then_boot_witness:
  "\<exists>s' b'. ota_core_process (run_env 0)
       (run_state (file_header 1 1 (bytes ''OTA '') 24 (add_bytes 0 (demo_image 5)) 0x4000 32 1 @ demo_image 5)
         \<lparr>flash := demo_flash 4 3\<rparr>) = Some (OTA_OK, s') \<and>
     BOOT_OTA_IMG (demo_rom False) (demo_state (flash s')) = Some (Some 1, b')"
proof -
  have st: "demo_state f\<lparr>bl_flash := g\<rparr> = demo_state g" for f g by (simp add: demo_state_def)
  have iv: "image_version (demo_image 4) < image_version (demo_image 5)"
    using demo_header(2) [OF demo_flash_holds(1), of 4 0] demo_header(2) [OF demo_flash_holds(1), of 5 0]
      slot_holds_version [OF demo_flash_holds(1), of 4 0] slot_holds_version [OF demo_flash_holds(1), of 5 0] by simp
  have app: "app_image 0 (unat (0 :: u8)) (demo_image 4)" "app_image 0 (1 - unat (0 :: u8)) (demo_image 5)"
    by (rule demo_app; simp)+
  have h: "slot_holds (flash (run_state w\<lparr>flash := demo_flash 4 3\<rparr>)) (unat (0 :: u8)) (demo_image 4)" for w
    using demo_flash_holds(1) by simp
  show ?thesis
    using update_then_boot [OF demo_arrives demo.flash_view_axioms demo_facts(5,1,2,3) demo_rollback [symmetric] app(1) h _
        app(2) iv, of "add_bytes 0 (demo_image 5)"]
    by (simp add: st)
qed

section \<open>Switching by hand\<close>

lemma slots_apart:
  assumes "i < 2" and "length im \<le> 0x1EC000" and "slot_holds f (1 - i) im"
  shows "slot_holds (mem_write f (slot_base i) (replicate 8 0)) (1 - i) im"
proof -
  have "mem_read (mem_write f (slot_base i) (replicate 8 0)) (slot_base (1 - i)) (length im) =
      mem_read f (slot_base (1 - i)) (length im)"
    using assms(1,2) by (intro mem_read_write_disjoint) (auto simp: slot_base_def less_2_cases_iff)
  with assms(3) show ?thesis by (simp add: slot_holds_def)
qed

text \<open>
  C10. After the running application has cleared its signature the other one is started, also when it is the
  older of the two: the boot loader no longer takes the cleared slot for an application. All it needs is that
  the other slot holds an application that may be started.
\<close>

theorem switch_then_boot:
  assumes "nor_flash txd erf fsize" and "0x215000 \<le> fsize" and "\<not> IS_FLASH_ADDR p" and "i < 2"
    and "ota_get_cur_index RSIP 1 T = Some (of_nat i, T1)"
    and "flash_view R hw_ok" and "plain_boot R" and "boot_plain_state b" and "boot_wf b" and "hw_ok (hw b)"
    and "app_image (BOOT_OTA_GetCertRollbackVer R) (1 - i) im" and "slot_holds f (1 - i) im" and "length im \<le> 0x1EC000"
  shows "\<exists>f1 b'. sys_clear_ota_signature txd RSIP p 1 (T, f) = Some (T1, f1) \<and>
    BOOT_OTA_IMG R (b\<lparr>bl_flash := f1\<rparr>) = Some (Some (1 - i), b') \<and> bl_flash b' = f1"
proof -
  let ?f1 = "mem_write f (slot_base i) (replicate 8 0)" and ?j = "1 - i"
  have j: "?j < 2" "1 - ?j = i" "of_nat i = (0 :: u8) \<or> of_nat i = (1 :: u8)"
    using assms(4) by (auto simp: less_2_cases_iff)
  have a: "sys_address 1 (of_nat i) = slot_base i" "sys_address 1 (of_nat i XOR 1) = slot_base ?j"
    using assms(4) by (auto simp: sys_addresses slot_base_def less_2_cases_iff)
  note v = app_image_slot [OF assms(11,12)] and v0 = rollback_nonneg [of R]
  have sig: "mem_read f (slot_base ?j) 8 = APP_IMAGE_PATTERN"
    using v(2) v0 no_version [of f ?j] by force
  have clr: "sys_clear_ota_signature txd RSIP p 1 (T, f) = Some (T1, ?f1)"
    using nor_flash.clear_signature [OF assms(1) _ _ j(3) assms(2,3), of RSIP 1 T T1 f] assms(5) sig
    by (simp add: sys_app(1) a)
  have z: "mem_read ?f1 (slot_base i) 8 = replicate 8 0"
    using mem_read_write_same [of "replicate 8 0" f "slot_base i"] by simp
  let ?b = "b\<lparr>bl_flash := ?f1\<rparr>"
  have b: "boot_plain_state ?b" "boot_wf ?b" "hw_ok (hw ?b)"
    using assms(8-10) by (simp_all add: boot_plain_state_def boot_wf_def)
  have "\<exists>b'. BOOT_OTA_IMG R ?b = Some (Some ?j, b') \<and> bl_flash b' = bl_flash ?b"
    using flash_view.start_newer [OF assms(6,7) b j(1) assms(11)] slots_apart [OF assms(4,13,12)]
      zeros_no_image [OF z] v v0 j(2) by auto
  with clr show ?thesis by auto
qed

theorem switch_then_boot_witness:
  "\<exists>f1 b'. sys_clear_ota_signature chip_tx (replicate 8 (remap_offset 0x08216000)) 0x1000 1
       (img_table0, demo_flash 1 2) = Some (img_table0, f1) \<and>
     BOOT_OTA_IMG (demo_rom False) (demo_state f1) = Some (Some 0, b')"
proof -
  have st: "demo_state f\<lparr>bl_flash := g\<rparr> = demo_state g" for f g by (simp add: demo_state_def)
  have h: "0x215000 \<le> chip_size" "\<not> IS_FLASH_ADDR 0x1000" by (simp_all add: chip_size_def IS_FLASH_ADDR_def)
  have im: "app_image (BOOT_OTA_GetCertRollbackVer (demo_rom False)) (1 - 1) (demo_image 1)"
    "slot_holds (demo_flash 1 2) (1 - 1) (demo_image 1)"
    using demo_app [of 0 1 0] demo_flash_holds(1) [of 1 2] by (simp_all add: demo_rollback)
  show ?thesis
    using switch_then_boot [OF chip.nor_flash_axioms h, of 1 "replicate 8 (remap_offset 0x08216000)" img_table0 img_table0,
        OF _ _ demo.flash_view_axioms demo_facts(5,1,2,3) im] switch_running(2)
    by (auto simp: st)
qed

end
